(* ===== verification/Prelude.thy ===== *)
theory Prelude
  imports Complex_Main "HOL-Library.AList"
begin

text \<open>
  Shared material of the development: the sum type that carries Python exceptions, Python's
  slicing and list comprehensions with a raising body, and the list lemmas the component
  theories use.  The collections \<open>exn_simps\<close> and \<open>slice_simps\<close> gather the rewrite rules
  that proofs about raising code and about slices share.
\<close>

named_theorems exn_simps "rewrite rules for the exception sum"
named_theorems slice_simps "rewrite rules for Python slices"

section \<open>Exceptions as values\<close>

text \<open>
  A computation that may raise returns \<open>Inl e\<close> for the exception and \<open>Inr v\<close> for the value.
  \<open>ebind\<close> is sequencing: the second part does not run when the first one raises.
\<close>

definition ebind :: "'e + 'a \<Rightarrow> ('a \<Rightarrow> 'e + 'b) \<Rightarrow> 'e + 'b" where
  "ebind m f = (case m of Inl e \<Rightarrow> Inl e | Inr x \<Rightarrow> f x)"

lemma ebind_Inl [simp, exn_simps]: "ebind (Inl e) f = Inl e"
  by (simp add: ebind_def)

lemma ebind_Inr [simp, exn_simps]: "ebind (Inr x) f = f x"
  by (simp add: ebind_def)

lemma ebind_eq_Inr: "ebind m f = Inr y \<longleftrightarrow> (\<exists>x. m = Inr x \<and> f x = Inr y)"
  by (cases m) auto

lemma ebind_eq_Inl: "ebind m f = Inl e \<longleftrightarrow> m = Inl e \<or> (\<exists>x. m = Inr x \<and> f x = Inl e)"
  by (cases m) auto

lemma ebind_assoc: "ebind (ebind m f) g = ebind m (\<lambda>x. ebind (f x) g)"
  by (cases m) auto

text \<open>\<open>[f x for x in xs]\<close> with a body that may raise: the first exception ends the loop.\<close>

fun emap :: "('a \<Rightarrow> 'e + 'b) \<Rightarrow> 'a list \<Rightarrow> 'e + 'b list" where
  "emap f [] = Inr []"
| "emap f (x # xs) = ebind (f x) (\<lambda>y. ebind (emap f xs) (\<lambda>ys. Inr (y # ys)))"

lemma emap_Inr: "(\<And>x. x \<in> set xs \<Longrightarrow> f x = Inr (g x)) \<Longrightarrow> emap f xs = Inr (map g xs)"
  by (induction xs) auto

lemma emap_length: "emap f xs = Inr ys \<Longrightarrow> length ys = length xs"
  by (induction xs arbitrary: ys) (auto simp: ebind_eq_Inr)

text \<open>A loop \<open>for x in xs: s = f s x\<close> with a body that may raise.\<close>

fun efold :: "('s \<Rightarrow> 'a \<Rightarrow> 'e + 's) \<Rightarrow> 's \<Rightarrow> 'a list \<Rightarrow> 'e + 's" where
  "efold f s [] = Inr s"
| "efold f s (x # xs) = ebind (f s x) (\<lambda>s'. efold f s' xs)"

lemma efold_append: "efold f s (xs @ ys) = ebind (efold f s xs) (\<lambda>s'. efold f s' ys)"
  by (induction xs arbitrary: s) (auto simp: ebind_assoc)

lemma efold_invariant:
  assumes "efold f s xs = Inr t" and "I s"
    and "\<And>s x s'. x \<in> set xs \<Longrightarrow> I s \<Longrightarrow> f s x = Inr s' \<Longrightarrow> I s'"
  shows "I t"
  using assms by (induction xs arbitrary: s) (auto simp: ebind_eq_Inr)

section \<open>Python slices\<close>

text \<open>
  \<open>xs[a:b]\<close>: a negative bound counts from the end, a bound out of range is clamped, and a
  slice whose bounds cross is empty.
\<close>

definition clamp_ix :: "int \<Rightarrow> int \<Rightarrow> int" where
  "clamp_ix n i = (if i < 0 then max 0 (i + n) else min i n)"

definition py_slice :: "'a list \<Rightarrow> int \<Rightarrow> int \<Rightarrow> 'a list" where
  "py_slice xs a b =
     (let n = int (length xs); i = clamp_ix n a; j = clamp_ix n b
      in take (nat (j - i)) (drop (nat i) xs))"

text \<open>\<open>xs[a:]\<close>\<close>

definition py_from :: "'a list \<Rightarrow> int \<Rightarrow> 'a list" where
  "py_from xs a = drop (nat (clamp_ix (int (length xs)) a)) xs"

lemma py_slice_in [slice_simps]:
  "0 \<le> a \<Longrightarrow> a \<le> b \<Longrightarrow> b \<le> int (length xs) \<Longrightarrow>
   py_slice xs a b = take (nat b - nat a) (drop (nat a) xs)"
  by (simp add: py_slice_def clamp_ix_def nat_diff_distrib)

lemma py_from_in [slice_simps]: "0 \<le> a \<Longrightarrow> a \<le> int (length xs) \<Longrightarrow> py_from xs a = drop (nat a) xs"
  by (simp add: py_from_def clamp_ix_def)

lemma length_py_slice:
  "0 \<le> a \<Longrightarrow> a \<le> b \<Longrightarrow> b \<le> int (length xs) \<Longrightarrow> length (py_slice xs a b) = nat (b - a)"
  by (simp add: slice_simps nat_diff_distrib)

lemma py_slice_map:
  "0 \<le> a \<Longrightarrow> a \<le> b \<Longrightarrow> b \<le> int (length xs) \<Longrightarrow> py_slice xs a b = map ((!) xs) [nat a..<nat b]"
  by (simp add: slice_simps list_eq_iff_nth_eq)

lemma py_from_map:
  "0 \<le> a \<Longrightarrow> a \<le> int (length xs) \<Longrightarrow> py_from xs a = map ((!) xs) [nat a..<length xs]"
  by (simp add: slice_simps list_eq_iff_nth_eq)

lemma py_slice_append:
  assumes "0 \<le> a" "a \<le> b" "b \<le> c" "c \<le> int (length xs)"
  shows "py_slice xs a b @ py_slice xs b c = py_slice xs a c"
proof -
  obtain i j k where ijk: "a = int i" "b = int j" "c = int k"
    using assms by (metis nonneg_int_cases order.trans)
  with assms have "i \<le> j" "j \<le> k" "k \<le> length xs" by auto
  then have "take (j - i) (drop i xs) @ take (k - j) (drop j xs) = take (k - i) (drop i xs)"
    using take_add [of "j - i" "k - j" "drop i xs"] by simp
  with assms show ?thesis by (simp add: slice_simps ijk)
qed

lemma py_slice_from:
  assumes "0 \<le> a" "a \<le> b" "b \<le> int (length xs)"
  shows "py_slice xs a b @ py_from xs b = py_from xs a"
proof -
  obtain i j where ij: "a = int i" "b = int j"
    using assms by (metis nonneg_int_cases order.trans)
  with assms have "i \<le> j" "j \<le> length xs" by auto
  then have "take (j - i) (drop i xs) @ drop j xs = drop i xs"
    using append_take_drop_id [of "j - i" "drop i xs"] by simp
  with assms show ?thesis by (simp add: slice_simps ij)
qed

lemma py_from_0 [simp]: "py_from xs 0 = xs"
  by (simp add: py_from_def clamp_ix_def)

lemma set_py_slice: "set (py_slice xs a b) \<subseteq> set xs"
  unfolding py_slice_def Let_def by (meson set_drop_subset set_take_subset subset_trans)

section \<open>Lists\<close>

lemma upt_split: "i \<le> j \<Longrightarrow> j \<le> k \<Longrightarrow> [i..<k] = [i..<j] @ [j..<k]"
  using upt_add_eq_append [of i j "k - j"] by simp

lemma foldl_invariant:
  assumes "I s" and "\<And>s x. x \<in> set xs \<Longrightarrow> I s \<Longrightarrow> I (f s x)"
  shows "I (foldl f s xs)"
  using assms by (induction xs arbitrary: s) auto

lemma sorted_wrt_snoc [simp]:
  "sorted_wrt P (xs @ [x]) \<longleftrightarrow> sorted_wrt P xs \<and> (\<forall>y\<in>set xs. P y x)"
  by (auto simp: sorted_wrt_append)

lemma map_of_update: "map_of (AList.update k v al) = (map_of al)(k \<mapsto> v)"
  by (rule update_conv')

end
