(* ===== verification/PyStr.thy ===== *)
theory PyStr
  imports Prelude "HOL-Library.Sublist"
begin

text \<open>
  Python strings.  A \<open>str\<close> is a sequence of code points, modelled as a list of natural
  numbers, so \<open>len\<close>, indexing and slicing count code points as Python does.  The character
  predicates are exact on ASCII; beyond ASCII they read the interpreter's Unicode database,
  which differs between the Python versions the project supports and is therefore an argument
  \<open>U\<close> of every operation that consults it.  A concrete database \<open>ucd_ru\<close> that covers Latin-1
  and Cyrillic is defined for evaluation.  String literals are written \<open>lit ''...''\<close> (ASCII) and
  \<open>ru ''...''\<close> (Russian, in the KOI-8 transliteration).
\<close>

type_synonym codepoint = nat
type_synonym pystr = "codepoint list"

section \<open>The Unicode database\<close>

text \<open>
  What the code asks about a code point: is it a decimal digit (with its value), another digit
  such as a superscript, another letter or numeral, white space, or none of these.  Python's
  \<open>isdecimal\<close>, \<open>isdigit\<close>, \<open>isalnum\<close> and \<open>isspace\<close> and the regular-expression
  classes are unions of these classes.
\<close>

datatype uclass = CDecimal nat | CDigit | CAlnum | CSpace | COther

text \<open>
  \<open>u_lower_at s i\<close> is the lower-case form of the character at position \<open>i\<close> of \<open>s\<close>: one or more
  code points, which for the final sigma depend on the neighbours.  \<open>u_tolower\<close> is the simple
  (one code point) mapping that case-insensitive matching uses.
\<close>

record ucd =
  u_class :: "codepoint \<Rightarrow> uclass"
  u_tolower :: "codepoint \<Rightarrow> codepoint"
  u_lower_at :: "pystr \<Rightarrow> nat \<Rightarrow> pystr"

definition ascii_class :: "codepoint \<Rightarrow> uclass" where
  "ascii_class c =
     (if 48 \<le> c \<and> c \<le> 57 then CDecimal (c - 48)
      else if 65 \<le> c \<and> c \<le> 90 \<or> 97 \<le> c \<and> c \<le> 122 then CAlnum
      else if 9 \<le> c \<and> c \<le> 13 \<or> 28 \<le> c \<and> c \<le> 32 then CSpace
      else COther)"

definition class_of :: "ucd \<Rightarrow> codepoint \<Rightarrow> uclass" where
  "class_of U c = (if c < 128 then ascii_class c else u_class U c)"

text \<open>\<open>\d\<close> of a regular expression, and the characters \<open>int\<close> accepts\<close>

definition is_decimal :: "ucd \<Rightarrow> codepoint \<Rightarrow> bool" where
  "is_decimal U c = (case class_of U c of CDecimal _ \<Rightarrow> True | _ \<Rightarrow> False)"

text \<open>\<open>str.isdigit\<close> on one character\<close>

definition is_digit :: "ucd \<Rightarrow> codepoint \<Rightarrow> bool" where
  "is_digit U c = (case class_of U c of CDecimal _ \<Rightarrow> True | CDigit \<Rightarrow> True | _ \<Rightarrow> False)"

text \<open>\<open>[^\W_]\<close>, that is, \<open>str.isalnum\<close> on one character\<close>

definition is_alnum :: "ucd \<Rightarrow> codepoint \<Rightarrow> bool" where
  "is_alnum U c = (case class_of U c of CSpace \<Rightarrow> False | COther \<Rightarrow> False | _ \<Rightarrow> True)"

text \<open>\<open>\w\<close>\<close>

definition is_word :: "ucd \<Rightarrow> codepoint \<Rightarrow> bool" where
  "is_word U c = (is_alnum U c \<or> c = 95)"

text \<open>\<open>\s\<close>, \<open>str.strip\<close> and \<open>str.split\<close>\<close>

definition is_space :: "ucd \<Rightarrow> codepoint \<Rightarrow> bool" where
  "is_space U c = (class_of U c = CSpace)"

text \<open>\<open>int(ch)\<close> of one character: a decimal digit's value, otherwise \<open>ValueError\<close> (\<open>None\<close>).\<close>

definition digit_value :: "ucd \<Rightarrow> codepoint \<Rightarrow> nat option" where
  "digit_value U c = (case class_of U c of CDecimal d \<Rightarrow> Some (d mod 10) | _ \<Rightarrow> None)"

lemmas char_class_defs =
  is_decimal_def is_digit_def is_alnum_def is_word_def is_space_def digit_value_def

lemma decimal_digit: "is_decimal U c \<Longrightarrow> is_digit U c"
  by (simp add: char_class_defs split: uclass.splits)

lemma digit_alnum: "is_digit U c \<Longrightarrow> is_alnum U c"
  by (simp add: char_class_defs split: uclass.splits)

lemma decimal_not_space: "is_decimal U c \<Longrightarrow> \<not> is_space U c"
  by (simp add: char_class_defs split: uclass.splits)

lemma digit_not_space: "is_digit U c \<Longrightarrow> \<not> is_space U c"
  by (simp add: char_class_defs split: uclass.splits)

lemma alnum_not_space: "is_alnum U c \<Longrightarrow> \<not> is_space U c"
  by (simp add: char_class_defs split: uclass.splits)

lemma digit_value_decimal: "digit_value U c \<noteq> None \<longleftrightarrow> is_decimal U c"
  by (simp add: char_class_defs split: uclass.splits)

lemma digit_value_less: "digit_value U c = Some d \<Longrightarrow> d < 10"
  by (auto simp: char_class_defs split: uclass.splits)

text \<open>The characters masks are made of are neither letters nor digits.\<close>

lemma star_class [simp]:
  "\<not> is_alnum U 42" "\<not> is_digit U 42" "\<not> is_decimal U 42" "\<not> is_word U 42" "\<not> is_space U 42"
  by (simp_all add: char_class_defs class_of_def ascii_class_def)

lemma dot_at_class [simp]:
  "\<not> is_alnum U 46" "\<not> is_alnum U 64" "\<not> is_digit U 46" "\<not> is_digit U 64" "\<not> is_alnum U 32"
  by (simp_all add: char_class_defs class_of_def ascii_class_def)


text \<open>A value is plain when all its digits are decimal digits, as the detector's patterns ensure.\<close>

definition plain_digits :: "ucd \<Rightarrow> pystr \<Rightarrow> bool" where
  "plain_digits U v \<longleftrightarrow> (\<forall>c \<in> set v. is_digit U c \<longrightarrow> is_decimal U c)"

lemma plain_filter: "plain_digits U v \<Longrightarrow> filter (is_decimal U) v = filter (is_digit U) v"
  by (rule filter_cong) (auto simp: plain_digits_def decimal_digit)

section \<open>Literals\<close>

definition lit :: "string \<Rightarrow> pystr" where
  "lit s = map of_char s"

text \<open>
  Russian literals.  The letters a..ya (code points 1072..1103) are written with the ASCII
  characters KOI-8 gives them (\<open>klient\<close>, \<open>bank\<close>, \<open>otdelenie\<close>), with \<open>&\<close> for the reversed e;
  the upper-case letters (1040..1071) with the same characters in the other case; io (1105) is
  \<open>#\<close>.  Everything else (digits, blanks, punctuation) stands for itself.
\<close>

definition koi_lower :: string where
  "koi_lower = ''abwgdevzijklmnoprstufhc^[]_yx&@q''"

definition koi_upper :: string where
  "koi_upper = ''ABWGDEVZIJKLMNOPRSTUFHC~{}$YX|`Q''"

fun index_of :: "'a \<Rightarrow> 'a list \<Rightarrow> nat option" where
  "index_of x [] = None"
| "index_of x (y # ys) = (if x = y then Some 0 else map_option Suc (index_of x ys))"

definition koi :: "char \<Rightarrow> codepoint" where
  "koi c = (case index_of c koi_lower of Some i \<Rightarrow> 1072 + i
     | None \<Rightarrow> (case index_of c koi_upper of Some i \<Rightarrow> 1040 + i
     | None \<Rightarrow> if c = CHR ''#'' then 1105 else of_char c))"

definition ru :: "string \<Rightarrow> pystr" where
  "ru s = map koi s"

section \<open>String methods\<close>

text \<open>\<open>s.lower()\<close>\<close>

definition ascii_lower :: "codepoint \<Rightarrow> codepoint" where
  "ascii_lower c = (if 65 \<le> c \<and> c \<le> 90 then c + 32 else c)"

definition str_lower :: "ucd \<Rightarrow> pystr \<Rightarrow> pystr" where
  "str_lower U s = concat (map (\<lambda>(i, c). if c < 128 then [ascii_lower c] else u_lower_at U s i)
     (enumerate 0 s))"

text \<open>\<open>t.find(n)\<close>: the least position where \<open>n\<close> occurs, or \<open>-1\<close>; and \<open>n in t\<close>.\<close>

fun find_from :: "pystr \<Rightarrow> pystr \<Rightarrow> nat \<Rightarrow> int" where
  "find_from n [] i = (if n = [] then int i else -1)"
| "find_from n (c # cs) i = (if prefix n (c # cs) then int i else find_from n cs (Suc i))"

definition str_find :: "pystr \<Rightarrow> pystr \<Rightarrow> int" where
  "str_find t n = find_from n t 0"

definition str_in :: "pystr \<Rightarrow> pystr \<Rightarrow> bool" where
  "str_in n t = (str_find t n \<noteq> -1)"

text \<open>\<open>s.replace(old, new)\<close>: left to right, without overlaps; an empty \<open>old\<close> matches everywhere.\<close>

function str_replace :: "pystr \<Rightarrow> pystr \<Rightarrow> pystr \<Rightarrow> pystr" where
  "str_replace old new s =
     (if old = [] then new @ concat (map (\<lambda>c. c # new) s)
      else case s of [] \<Rightarrow> []
      | c # cs \<Rightarrow> if prefix old s then new @ str_replace old new (drop (length old) s)
                 else c # str_replace old new cs)"
  by pat_completeness auto
termination
  by (relation "measure (\<lambda>(old, new, s). length s)") auto

declare str_replace.simps [simp del]

text \<open>
  The maximal runs of characters with a property, in order: \<open>s.split()\<close> for the characters
  that are not white space, and \<open>findall\<close> of \<open>\w+\<close> for the word characters.
\<close>

fun runs_from :: "(codepoint \<Rightarrow> bool) \<Rightarrow> pystr \<Rightarrow> pystr \<Rightarrow> pystr list" where
  "runs_from P cur [] = (if cur = [] then [] else [cur])"
| "runs_from P cur (c # cs) =
     (if P c then runs_from P (cur @ [c]) cs
      else (if cur = [] then [] else [cur]) @ runs_from P [] cs)"

definition runs :: "(codepoint \<Rightarrow> bool) \<Rightarrow> pystr \<Rightarrow> pystr list" where
  "runs P s = runs_from P [] s"

definition str_split :: "ucd \<Rightarrow> pystr \<Rightarrow> pystr list" where
  "str_split U s = runs (\<lambda>c. \<not> is_space U c) s"

text \<open>\<open>s.strip()\<close> and \<open>s.rstrip()\<close>\<close>

definition rstrip_by :: "(codepoint \<Rightarrow> bool) \<Rightarrow> pystr \<Rightarrow> pystr" where
  "rstrip_by P s = rev (dropWhile P (rev s))"

definition str_rstrip :: "ucd \<Rightarrow> pystr \<Rightarrow> pystr" where
  "str_rstrip U s = rstrip_by (is_space U) s"

definition str_strip :: "ucd \<Rightarrow> pystr \<Rightarrow> pystr" where
  "str_strip U s = rstrip_by (is_space U) (dropWhile (is_space U) s)"

text \<open>\<open>s.partition(c)\<close> for a one-character separator\<close>

definition str_partition :: "codepoint \<Rightarrow> pystr \<Rightarrow> pystr \<times> pystr \<times> pystr" where
  "str_partition c s =
     (let before = takeWhile (\<lambda>x. x \<noteq> c) s; rest = dropWhile (\<lambda>x. x \<noteq> c) s
      in (before, take 1 rest, drop 1 rest))"

text \<open>\<open>sep.join(xs)\<close>\<close>

fun str_join :: "pystr \<Rightarrow> pystr list \<Rightarrow> pystr" where
  "str_join sep [] = []"
| "str_join sep [x] = x"
| "str_join sep (x # y # xs) = x @ sep @ str_join sep (y # xs)"

text \<open>Lexicographic order of strings by code points, as \<open>sorted\<close> uses it\<close>

fun str_le :: "pystr \<Rightarrow> pystr \<Rightarrow> bool" where
  "str_le [] t = True"
| "str_le (c # cs) [] = False"
| "str_le (c # cs) (d # ds) = (c < d \<or> c = d \<and> str_le cs ds)"

section \<open>UTF-8\<close>

text \<open>
  \<open>s.encode("utf-8")\<close>: \<open>None\<close> stands for the \<open>UnicodeEncodeError\<close> that a surrogate causes.
\<close>

type_synonym byte = nat

definition is_scalar :: "codepoint \<Rightarrow> bool" where
  "is_scalar c = (c < 55296 \<or> 57344 \<le> c \<and> c < 1114112)"

definition utf8_char :: "codepoint \<Rightarrow> byte list option" where
  "utf8_char c =
     (if \<not> is_scalar c then None
      else if c < 128 then Some [c]
      else if c < 2048 then Some [192 + c div 64, 128 + c mod 64]
      else if c < 65536 then Some [224 + c div 4096, 128 + c div 64 mod 64, 128 + c mod 64]
      else Some [240 + c div 262144, 128 + c div 4096 mod 64, 128 + c div 64 mod 64,
                 128 + c mod 64])"

fun utf8_encode :: "pystr \<Rightarrow> byte list option" where
  "utf8_encode [] = Some []"
| "utf8_encode (c # cs) = (case utf8_char c of None \<Rightarrow> None
     | Some bs \<Rightarrow> map_option (append bs) (utf8_encode cs))"

section \<open>Facts about the string methods\<close>

lemma find_from_ge: "find_from n s i = -1 \<or> int i \<le> find_from n s i"
proof (induction s arbitrary: i)
  case Nil
  then show ?case by simp
next
  case (Cons c cs)
  from Cons.IH [of "Suc i"] show ?case by auto
qed

lemma find_from_prefix:
  "find_from n s i \<noteq> -1 \<Longrightarrow>
     prefix n (drop (nat (find_from n s i - int i)) s) \<and> find_from n s i - int i \<le> int (length s)"
proof (induction s arbitrary: i)
  case Nil
  then show ?case by (simp split: if_splits)
next
  case (Cons c cs)
  show ?case
  proof (cases "prefix n (c # cs)")
    case True
    then show ?thesis by simp
  next
    case False
    let ?k = "find_from n cs (Suc i)"
    from False Cons.prems have k: "?k \<noteq> -1" by simp
    then have "int (Suc i) \<le> ?k" using find_from_ge [of n cs "Suc i"] by auto
    then have "nat (?k - int i) = Suc (nat (?k - int (Suc i)))" by linarith
    with False Cons.IH [OF k] show ?thesis by auto
  qed
qed

lemma str_find_range: "str_find t n = -1 \<or> 0 \<le> str_find t n"
  using find_from_ge [of n t 0] by (simp add: str_find_def)

lemma str_find_prefix: "str_find t n \<noteq> -1 \<Longrightarrow> prefix n (drop (nat (str_find t n)) t)"
  using find_from_prefix [of n t 0] by (simp add: str_find_def)

lemma str_find_bound:
  assumes "str_find t n \<noteq> -1"
  shows "str_find t n + int (length n) \<le> int (length t)"
proof -
  from find_from_prefix [of n t 0] assms
  have le: "str_find t n \<le> int (length t)" by (simp add: str_find_def)
  from str_find_prefix [OF assms] have "length n \<le> length t - nat (str_find t n)"
    by (auto dest: prefix_length_le)
  with le show ?thesis using str_find_range [of t n] assms by linarith
qed

lemma find_from_None: "find_from n s i = -1 \<Longrightarrow> \<not> prefix n (drop k s) \<or> length s < k"
proof (induction s arbitrary: i k)
  case Nil
  then show ?case by (auto split: if_splits)
next
  case (Cons c cs)
  then show ?case by (cases k) (auto split: if_splits)
qed

lemma str_in_iff: "str_in n t \<longleftrightarrow> (\<exists>a b. t = a @ n @ b)"
proof
  assume "str_in n t"
  then have "prefix n (drop (nat (str_find t n)) t)"
    by (simp add: str_in_def str_find_prefix)
  then obtain b where "drop (nat (str_find t n)) t = n @ b" by (auto simp: prefix_def)
  then have "t = take (nat (str_find t n)) t @ n @ b"
    by (metis append_take_drop_id)
  then show "\<exists>a b. t = a @ n @ b" by blast
next
  assume "\<exists>a b. t = a @ n @ b"
  then obtain a b where t: "t = a @ n @ b" by blast
  then have "prefix n (drop (length a) t)" by simp
  with t find_from_None [of n t 0 "length a"] show "str_in n t"
    by (auto simp: str_in_def str_find_def)
qed

lemma runs_from_all: "x \<in> set (runs_from P cur s) \<Longrightarrow> (\<forall>c\<in>set cur. P c) \<Longrightarrow> (\<forall>c\<in>set x. P c)"
  by (induction P cur s rule: runs_from.induct) (auto split: if_splits)

lemma runs_from_nonempty: "[] \<notin> set (runs_from P cur s)"
  by (induction P cur s rule: runs_from.induct) auto

lemma runs_all: "x \<in> set (runs P s) \<Longrightarrow> c \<in> set x \<Longrightarrow> P c"
  using runs_from_all [of x P "[]" s] by (auto simp: runs_def)

lemma runs_nonempty: "[] \<notin> set (runs P s)"
  by (simp add: runs_def runs_from_nonempty)

lemma prefix_rstrip: "prefix (rstrip_by P s) s"
proof -
  have "suffix (dropWhile P (rev s)) (rev s)" by (rule suffix_dropWhile)
  then show ?thesis by (simp add: rstrip_by_def suffix_to_prefix)
qed

lemma prefix_str_rstrip: "prefix (str_rstrip U s) s"
  by (simp add: str_rstrip_def prefix_rstrip)

lemma str_partition_hit: "c \<notin> set a \<Longrightarrow> str_partition c (a @ c # b) = (a, [c], b)"
proof -
  assume "c \<notin> set a"
  then have "takeWhile (\<lambda>x. x \<noteq> c) (a @ c # b) = a" "dropWhile (\<lambda>x. x \<noteq> c) (a @ c # b) = c # b"
    by (induction a) auto
  then show ?thesis by (simp add: str_partition_def Let_def)
qed

lemma str_replace_Nil [simp]: "old \<noteq> [] \<Longrightarrow> str_replace old new [] = []"
  by (simp add: str_replace.simps)

lemma str_replace_skip:
  "old \<noteq> [] \<Longrightarrow> \<not> prefix old (c # cs) \<Longrightarrow>
   str_replace old new (c # cs) = c # str_replace old new cs"
  by (subst str_replace.simps) simp

lemma str_replace_absent: "\<not> str_in old s \<Longrightarrow> str_replace old new s = s"
proof (induction old new s rule: str_replace.induct)
  case (1 old new s)
  have ne: "old \<noteq> []" using "1.prems" by (metis append_Nil str_in_iff)
  show ?case
  proof (cases s)
    case Nil
    with ne show ?thesis by simp
  next
    case (Cons c cs)
    have np: "\<not> prefix old s"
      using "1.prems" by (auto simp: str_in_iff prefix_def)
    have "\<not> str_in old cs"
      using "1.prems" Cons by (auto simp: str_in_iff) (metis append_Cons)
    with "1.IH"(2) [OF ne Cons np] ne np Cons show ?thesis
      by (simp add: str_replace_skip)
  qed
qed

lemma str_replace_hit:
  "old \<noteq> [] \<Longrightarrow> str_replace old new (old @ s) = new @ str_replace old new s"
  by (cases old; simp; subst str_replace.simps; simp)

lemma utf8_char_length: "utf8_char c = Some bs \<Longrightarrow> 1 \<le> length bs \<and> length bs \<le> 4"
  by (auto simp: utf8_char_def split: if_splits)

lemma utf8_length:
  "utf8_encode s = Some bs \<Longrightarrow> length s \<le> length bs \<and> length bs \<le> 4 * length s"
proof (induction s arbitrary: bs)
  case Nil
  then show ?case by simp
next
  case (Cons c cs)
  then obtain b1 b2 where "utf8_char c = Some b1" "utf8_encode cs = Some b2" "bs = b1 @ b2"
    by (auto split: option.splits)
  with Cons.IH [of b2] utf8_char_length [of c b1] show ?case by auto
qed

lemma utf8_defined: "(\<exists>bs. utf8_encode s = Some bs) \<longleftrightarrow> (\<forall>c\<in>set s. is_scalar c)"
proof (induction s)
  case Nil
  then show ?case by simp
next
  case (Cons c cs)
  have "(\<exists>b. utf8_char c = Some b) \<longleftrightarrow> is_scalar c" by (simp add: utf8_char_def)
  with Cons show ?case by (auto split: option.splits)
qed

section \<open>A concrete database for evaluation\<close>

text \<open>
  Exact for ASCII, Latin-1 and the basic Cyrillic letters (code points 1024..1119); every other
  code point counts as \<open>COther\<close> here.  No theorem depends on it: it is the database at which
  witnesses are evaluated.
\<close>

definition ru_class :: "codepoint \<Rightarrow> uclass" where
  "ru_class c =
     (if c = 133 \<or> c = 160 then CSpace
      else if c = 178 \<or> c = 179 \<or> c = 185 then CDigit
      else if c = 170 \<or> c = 181 \<or> c = 186 \<or> 188 \<le> c \<and> c \<le> 190 then CAlnum
      else if 192 \<le> c \<and> c \<le> 255 \<and> c \<noteq> 215 \<and> c \<noteq> 247 then CAlnum
      else if 1024 \<le> c \<and> c \<le> 1119 then CAlnum
      else COther)"

definition ru_tolower :: "codepoint \<Rightarrow> codepoint" where
  "ru_tolower c =
     (if 65 \<le> c \<and> c \<le> 90 \<or> 192 \<le> c \<and> c \<le> 222 \<and> c \<noteq> 215 \<or> 1040 \<le> c \<and> c \<le> 1071 then c + 32
      else if 1024 \<le> c \<and> c \<le> 1039 then c + 80
      else c)"

definition ucd_ru :: ucd where
  "ucd_ru = \<lparr>u_class = ru_class, u_tolower = ru_tolower, u_lower_at = (\<lambda>s i. [ru_tolower (s ! i)])\<rparr>"

end
