(* ===== verification/RateLimit.thy ===== *)
theory RateLimit
  imports PyStr
begin

text \<open>
  \<open>app/core/ratelimit.py\<close>: the sliding-window limiter.  A reading of \<open>time.monotonic\<close> is an
  argument; \<open>allow\<close> runs under the limiter's lock, so a run of the service is a sequence of
  calls with readings that never decrease.
\<close>

section \<open>Definitions\<close>

record limiter =
  rl_max_requests :: int
  rl_window_seconds :: rat
  rl_hits :: "(pystr \<times> rat list) list"

definition SlidingWindowRateLimiter :: "int \<Rightarrow> rat \<Rightarrow> limiter" where
  "SlidingWindowRateLimiter max_requests window_seconds =
     \<lparr>rl_max_requests = max_requests, rl_window_seconds = window_seconds, rl_hits = []\<rparr>"

text \<open>The eviction loop\<close>

fun evict_hits :: "rat \<Rightarrow> rat \<Rightarrow> rat list \<Rightarrow> rat list" where
  "evict_hits w now [] = []"
| "evict_hits w now (t # ts) = (if now - t \<ge> w then evict_hits w now ts else t # ts)"

text \<open>\<open>self._hits.setdefault(key, deque())\<close>\<close>

definition window_of :: "limiter \<Rightarrow> pystr \<Rightarrow> rat list" where
  "window_of l key = (case map_of (rl_hits l) key of None \<Rightarrow> [] | Some ts \<Rightarrow> ts)"

definition allow :: "limiter \<Rightarrow> pystr \<Rightarrow> rat \<Rightarrow> bool \<times> limiter" where
  "allow l key now =
     (let window = evict_hits (rl_window_seconds l) now (window_of l key)
      in if int (length window) \<ge> rl_max_requests l
         then (False, l\<lparr>rl_hits := AList.update key window (rl_hits l)\<rparr>)
         else (True, l\<lparr>rl_hits := AList.update key (window @ [now]) (rl_hits l)\<rparr>))"

text \<open>A sequence of calls\<close>

fun allow_all :: "limiter \<Rightarrow> (pystr \<times> rat) list \<Rightarrow> bool list" where
  "allow_all l [] = []"
| "allow_all l ((key, now) # rs) = (let (b, l') = allow l key now in b # allow_all l' rs)"

section \<open>Specification\<close>

text \<open>
  What the limiter promises, without its data structure: a request is admitted when fewer than
  the maximum of requests of its key were admitted less than a window ago.  The state is the
  list of all admitted requests.
\<close>

definition recent :: "rat \<Rightarrow> pystr \<Rightarrow> rat \<Rightarrow> (pystr \<times> rat) list \<Rightarrow> (pystr \<times> rat) list" where
  "recent w key now hist = filter (\<lambda>(k, t). k = key \<and> now - t < w) hist"

fun spec_all :: "int \<Rightarrow> rat \<Rightarrow> (pystr \<times> rat) list \<Rightarrow> (pystr \<times> rat) list \<Rightarrow> bool list" where
  "spec_all m w hist [] = []"
| "spec_all m w hist ((key, now) # rs) =
     (if int (length (recent w key now hist)) < m then True # spec_all m w (hist @ [(key, now)]) rs
      else False # spec_all m w hist rs)"

definition times :: "pystr \<Rightarrow> (pystr \<times> rat) list \<Rightarrow> rat list" where
  "times key hist = map snd (filter (\<lambda>(k, t). k = key) hist)"

lemma times_snoc [simp]:
  "times key (hist @ [(k, t)]) = times key hist @ (if k = key then [t] else [])"
  by (simp add: times_def)

lemma recent_times: "length (recent w key now hist) = length (filter (\<lambda>t. now - t < w) (times key hist))"
  by (induction hist) (auto simp: recent_def times_def)

lemma evict_hits_split:
  "\<exists>old. ts = old @ evict_hits w now ts \<and> (\<forall>t \<in> set old. now - t \<ge> w)"
proof (induction ts)
  case (Cons t ts)
  show ?case
  proof (cases "now - t \<ge> w")
    case True
    from Cons.IH obtain old where "ts = old @ evict_hits w now ts" "\<forall>t \<in> set old. now - t \<ge> w" by blast
    with True show ?thesis by (intro exI [of _ "t # old"]) auto
  qed auto
qed simp

lemma evict_hits_live: "sorted ts \<Longrightarrow> t \<in> set (evict_hits w now ts) \<Longrightarrow> now - t < w"
proof (induction ts)
  case (Cons x ts)
  show ?case
  proof (cases "now - x \<ge> w")
    case False
    with Cons.prems have "now - x < w" "x \<le> t" by auto
    then show ?thesis by linarith
  qed (use Cons in auto)
qed simp

text \<open>
  The simulation relation at a moment when the last reading was \<open>now\<close>: each deque holds the
  admitted requests of its key except some that have left the window.
\<close>

definition holds_recent :: "limiter \<Rightarrow> rat \<Rightarrow> (pystr \<times> rat) list \<Rightarrow> bool" where
  "holds_recent l now hist \<longleftrightarrow>
     (\<forall>key. sorted (times key hist) \<and> (\<forall>t \<in> set (times key hist). t \<le> now) \<and>
        (\<exists>old. times key hist = old @ window_of l key \<and>
           (\<forall>t \<in> set old. now - t \<ge> rl_window_seconds l)))"

lemma window_of_update:
  "window_of (l\<lparr>rl_hits := AList.update k ts (rl_hits l)\<rparr>) key = (if key = k then ts else window_of l key)"
  by (simp add: window_of_def map_of_update)

lemma evicted_recent:
  fixes key :: pystr
  assumes "holds_recent l t0 hist" and "t0 \<le> now"
  defines "win \<equiv> evict_hits (rl_window_seconds l) now (window_of l key)"
  shows "length win = length (recent (rl_window_seconds l) key now hist)"
    and "\<exists>old. times key hist = old @ win \<and> (\<forall>t \<in> set old. now - t \<ge> rl_window_seconds l)"
proof -
  let ?w = "rl_window_seconds l"
  from assms(1) obtain old1 where 1: "times key hist = old1 @ window_of l key"
    "\<forall>t \<in> set old1. t0 - t \<ge> ?w" and so: "sorted (times key hist)"
    unfolding holds_recent_def by blast
  from evict_hits_split [of "window_of l key" ?w now] obtain old2 where
    2: "window_of l key = old2 @ win" "\<forall>t \<in> set old2. now - t \<ge> ?w"
    unfolding win_def by blast
  have gone: "\<forall>t \<in> set (old1 @ old2). now - t \<ge> ?w" using 1(2) 2(2) assms(2) by fastforce
  have "sorted (window_of l key)" using so 1(1) by (simp add: sorted_append)
  then have live: "\<forall>t \<in> set win. now - t < ?w" unfolding win_def using evict_hits_live by blast
  have all: "times key hist = (old1 @ old2) @ win" using 1(1) 2(1) by simp
  show "\<exists>old. times key hist = old @ win \<and> (\<forall>t \<in> set old. now - t \<ge> ?w)"
    using all gone by blast
  have "filter (\<lambda>t. now - t < ?w) (old1 @ old2) = []" using gone by (simp only: filter_empty_conv not_less)
  moreover have "filter (\<lambda>t. now - t < ?w) win = win" using live by (simp add: filter_id_conv)
  ultimately show "length win = length (recent ?w key now hist)"
    unfolding recent_times all by simp
qed

lemma holds_recent_step:
  assumes h: "holds_recent l t0 hist" and now: "t0 \<le> now"
    and step: "allow l key now = (b, l')"
  shows "holds_recent l' now (if b then hist @ [(key, now)] else hist)"
    and "b \<longleftrightarrow> int (length (recent (rl_window_seconds l) key now hist)) < rl_max_requests l"
    and "rl_max_requests l' = rl_max_requests l \<and> rl_window_seconds l' = rl_window_seconds l"
proof -
  let ?w = "rl_window_seconds l"
  let ?win = "evict_hits ?w now (window_of l key)"
  note ev = evicted_recent [OF h now, of key]
  from step have l': "l' = l\<lparr>rl_hits := AList.update key (if b then ?win @ [now] else ?win) (rl_hits l)\<rparr>"
    by (auto simp: allow_def Let_def split: if_splits)
  from step ev(1) show "b \<longleftrightarrow> int (length (recent ?w key now hist)) < rl_max_requests l"
    by (auto simp: allow_def Let_def split: if_splits)
  show "rl_max_requests l' = rl_max_requests l \<and> rl_window_seconds l' = ?w" by (simp add: l')
  from h now have le: "\<forall>k. \<forall>t \<in> set (times k hist). t \<le> now" unfolding holds_recent_def by force
  have other: "\<exists>old. times k hist = old @ window_of l k \<and> (\<forall>t \<in> set old. now - t \<ge> ?w)" for k
  proof -
    from h obtain old where "times k hist = old @ window_of l k" "\<forall>t \<in> set old. t0 - t \<ge> ?w"
      unfolding holds_recent_def by blast
    moreover from this(2) have "\<forall>t \<in> set old. now - t \<ge> ?w" using now by fastforce
    ultimately show ?thesis by blast
  qed
  have so: "sorted (times k hist)" for k using h by (simp add: holds_recent_def)
  show "holds_recent l' now (if b then hist @ [(key, now)] else hist)"
    using ev(2) other le so unfolding holds_recent_def l' window_of_update
    by (auto simp: sorted_append)
qed

lemma allow_all_spec:
  "holds_recent l t0 hist \<Longrightarrow> sorted (t0 # map snd rs) \<Longrightarrow>
   allow_all l rs = spec_all (rl_max_requests l) (rl_window_seconds l) hist rs"
proof (induction rs arbitrary: l t0 hist)
  case (Cons r rs)
  obtain key now where r: "r = (key, now)" by (cases r)
  obtain b l' where step: "allow l key now = (b, l')" by (cases "allow l key now")
  from Cons.prems(2) have le: "t0 \<le> now" "sorted (now # map snd rs)" by (auto simp: r)
  note st = holds_recent_step [OF Cons.prems(1) le(1) step]
  from Cons.IH [OF st(1) le(2)] st(2,3) show ?case by (auto simp: r step)
qed simp

lemma holds_recent_init: "holds_recent (SlidingWindowRateLimiter m w) t0 []"
  by (simp add: holds_recent_def times_def window_of_def SlidingWindowRateLimiter_def)

section \<open>The bound\<close>

text \<open>The admitted requests of a run\<close>

definition admitted :: "bool list \<Rightarrow> (pystr \<times> rat) list \<Rightarrow> (pystr \<times> rat) list" where
  "admitted bs rs = map snd (filter fst (zip bs rs))"

lemma admitted_simps [simp]:
  "admitted [] rs = []" "admitted bs [] = []"
  "admitted (True # bs) (r # rs) = r # admitted bs rs" "admitted (False # bs) (r # rs) = admitted bs rs"
  by (simp_all add: admitted_def)

definition in_window :: "rat \<Rightarrow> pystr \<Rightarrow> rat \<Rightarrow> pystr \<times> rat \<Rightarrow> bool" where
  "in_window w key a = (\<lambda>(k, t). k = key \<and> a \<le> t \<and> t < a + w)"

lemma spec_all_bound:
  assumes "0 \<le> m" and "sorted (map snd (hist @ rs))"
    and "\<And>a. int (length (filter (in_window w key a) hist)) \<le> m"
  shows "int (length (filter (in_window w key a) (hist @ admitted (spec_all m w hist rs) rs))) \<le> m"
  using assms
proof (induction rs arbitrary: hist)
  case (Cons r rs)
  obtain k now where r: "r = (k, now)" by (cases r)
  show ?case
  proof (cases "int (length (recent w k now hist)) < m")
    case False
    have "sorted (map snd (hist @ rs))" using Cons.prems(2) by (simp add: sorted_append)
    with False Cons show ?thesis by (simp add: r)
  next
    case True
    have "int (length (filter (in_window w key b) (hist @ [(k, now)]))) \<le> m" for b
    proof (cases "in_window w key b (k, now)")
      case False
      then show ?thesis using Cons.prems(3) [of b] by simp
    next
      case in_w: True
      have "length (filter (in_window w key b) hist) \<le> length (recent w k now hist)"
      proof -
        have "filter (in_window w key b) hist = filter (in_window w key b) (recent w k now hist)"
          unfolding recent_def filter_filter
          using in_w by (intro filter_cong) (auto simp: in_window_def)
        then show ?thesis by simp
      qed
      with True in_w show ?thesis by simp
    qed
    with Cons.IH [of "hist @ [(k, now)]"] Cons.prems True show ?thesis
      by (simp add: r)
  qed
qed simp

section \<open>Properties\<close>

text \<open>
  C10: The limiter implements its specification: on every sequence of calls with non-decreasing
  readings it admits a request exactly when fewer than \<open>max_requests\<close> requests of the same key
  were admitted less than \<open>window_seconds\<close> ago; in particular keys do not influence each other.
\<close>

theorem limiter_refines_spec:
  assumes "sorted (map snd rs)"
  shows "allow_all (SlidingWindowRateLimiter m w) rs = spec_all m w [] rs"
proof (cases rs)
  case (Cons r rs')
  with assms show ?thesis
    using allow_all_spec [OF holds_recent_init [of m w "snd r"], of rs]
    by (simp add: SlidingWindowRateLimiter_def)
qed simp


definition burst :: "(pystr \<times> rat) list" where
  "burst = [(lit ''a'', 0), (lit ''a'', 1), (lit ''b'', 2), (lit ''a'', 3), (lit ''a'', 10)]"

theorem limiter_refines_spec_witness:
  "allow_all (SlidingWindowRateLimiter 2 10) burst = [True, True, True, False, True]"
proof -
  have "sorted (map snd burst)" by (simp add: burst_def)
  from limiter_refines_spec [OF this, of 2 10] show ?thesis
    by (simp add: burst_def recent_def lit_def)
qed


end
