(* ===== verification/Domain.thy ===== *)
theory Domain
  imports PyStr
begin

text \<open>
  The domain vocabulary of \<open>app/core\<close>: the enums of \<open>enums.py\<close> with their string values, the
  exceptions of \<open>exceptions.py\<close> (and the run-time exceptions the code can meet), the models of
  \<open>models.py\<close>, and the untyped values that YAML and JSON documents are made of.
\<close>

section \<open>Enums\<close>

datatype pii_type =
  PERSON_NAME
| BIRTH_DATE
| BIRTH_PLACE
| PASSPORT_NUMBER
| CITIZENSHIP
| PASSPORT_ISSUER
| PASSPORT_DIVISION_CODE
| PASSPORT_ISSUE_DATE
| DRIVER_LICENSE
| ADDRESS
| COUNTRY
| POSTAL_CODE
| CITY
| STREET
| HOUSE
| APARTMENT
| EMAIL
| PHONE
| INN
| BANK_CARD
| CVV
| PIN
| CARDHOLDER_NAME

fun pii_value :: "pii_type \<Rightarrow> pystr" where
  "pii_value PERSON_NAME = lit ''PERSON_NAME''"
| "pii_value BIRTH_DATE = lit ''BIRTH_DATE''"
| "pii_value BIRTH_PLACE = lit ''BIRTH_PLACE''"
| "pii_value PASSPORT_NUMBER = lit ''PASSPORT_NUMBER''"
| "pii_value CITIZENSHIP = lit ''CITIZENSHIP''"
| "pii_value PASSPORT_ISSUER = lit ''PASSPORT_ISSUER''"
| "pii_value PASSPORT_DIVISION_CODE = lit ''PASSPORT_DIVISION_CODE''"
| "pii_value PASSPORT_ISSUE_DATE = lit ''PASSPORT_ISSUE_DATE''"
| "pii_value DRIVER_LICENSE = lit ''DRIVER_LICENSE''"
| "pii_value ADDRESS = lit ''ADDRESS''"
| "pii_value COUNTRY = lit ''COUNTRY''"
| "pii_value POSTAL_CODE = lit ''POSTAL_CODE''"
| "pii_value CITY = lit ''CITY''"
| "pii_value STREET = lit ''STREET''"
| "pii_value HOUSE = lit ''HOUSE''"
| "pii_value APARTMENT = lit ''APARTMENT''"
| "pii_value EMAIL = lit ''EMAIL''"
| "pii_value PHONE = lit ''PHONE''"
| "pii_value INN = lit ''INN''"
| "pii_value BANK_CARD = lit ''BANK_CARD''"
| "pii_value CVV = lit ''CVV''"
| "pii_value PIN = lit ''PIN''"
| "pii_value CARDHOLDER_NAME = lit ''CARDHOLDER_NAME''"

definition pii_types :: "pii_type list" where
  "pii_types =
    [PERSON_NAME, BIRTH_DATE, BIRTH_PLACE, PASSPORT_NUMBER, CITIZENSHIP, PASSPORT_ISSUER, PASSPORT_DIVISION_CODE, PASSPORT_ISSUE_DATE, DRIVER_LICENSE, ADDRESS, COUNTRY, POSTAL_CODE, CITY, STREET, HOUSE, APARTMENT, EMAIL, PHONE, INN, BANK_CARD, CVV, PIN, CARDHOLDER_NAME]"

text \<open>\<open>PIIType(s)\<close>: \<open>None\<close> is the \<open>ValueError\<close> for a string that is no value of the enum.\<close>

definition PIIType :: "pystr \<Rightarrow> pii_type option" where
  "PIIType s = find (\<lambda>t. pii_value t = s) pii_types"

datatype masking_strategy = FULL_MASK | PARTIAL_MASK | TOKENIZE | SYNTHETIC

fun strategy_value :: "masking_strategy \<Rightarrow> pystr" where
  "strategy_value FULL_MASK = lit ''FULL_MASK''"
| "strategy_value PARTIAL_MASK = lit ''PARTIAL_MASK''"
| "strategy_value TOKENIZE = lit ''TOKENIZE''"
| "strategy_value SYNTHETIC = lit ''SYNTHETIC''"

definition MaskingStrategy :: "pystr \<Rightarrow> masking_strategy option" where
  "MaskingStrategy s =
     find (\<lambda>m. strategy_value m = s) [FULL_MASK, PARTIAL_MASK, TOKENIZE, SYNTHETIC]"

datatype operation = MASK | DEMASK

fun operation_value :: "operation \<Rightarrow> pystr" where
  "operation_value MASK = lit ''MASK''"
| "operation_value DEMASK = lit ''DEMASK''"

datatype state_status = MASKED | DEMASKED

fun status_value :: "state_status \<Rightarrow> pystr" where
  "status_value MASKED = lit ''MASKED''"
| "status_value DEMASKED = lit ''DEMASKED''"

definition RestorationStateStatus :: "pystr \<Rightarrow> state_status option" where
  "RestorationStateStatus s = find (\<lambda>x. status_value x = s) [MASKED, DEMASKED]"

lemma lit_inject [simp]: "lit s = lit t \<longleftrightarrow> s = t"
  by (simp add: lit_def inj_map_eq_map inj_of_char)

lemma PIIType_value [simp]: "PIIType (pii_value t) = Some t"
  by (cases t) (simp_all add: PIIType_def pii_types_def)

lemma PIIType_SomeD: "PIIType s = Some t \<Longrightarrow> pii_value t = s"
  by (auto simp: PIIType_def dest: find_Some_iff [THEN iffD1])

lemma pii_value_inject [simp]: "pii_value s = pii_value t \<longleftrightarrow> s = t"
  by (metis PIIType_value option.inject)

lemma MaskingStrategy_value [simp]: "MaskingStrategy (strategy_value m) = Some m"
  by (cases m) (simp_all add: MaskingStrategy_def)

lemma RestorationStateStatus_value [simp]: "RestorationStateStatus (status_value x) = Some x"
  by (cases x) (simp_all add: RestorationStateStatus_def)

text \<open>
  Types are ordered as Python sorts their string values, so that sorting types and sorting
  their values agree.
\<close>

lemma str_le_refl: "str_le s s"
  by (induction s) auto

lemma str_le_trans: "str_le s t \<Longrightarrow> str_le t u \<Longrightarrow> str_le s u"
proof (induction s t arbitrary: u rule: str_le.induct)
  case (3 c cs d ds)
  then show ?case by (cases u) auto
qed auto

lemma str_le_antisym: "str_le s t \<Longrightarrow> str_le t s \<Longrightarrow> s = t"
  by (induction s t rule: str_le.induct) (auto elim: str_le.elims)

lemma str_le_total: "str_le s t \<or> str_le t s"
  by (induction s t rule: str_le.induct) auto

instantiation pii_type :: linorder
begin

definition less_eq_pii_type :: "pii_type \<Rightarrow> pii_type \<Rightarrow> bool" where
  "less_eq_pii_type s t = str_le (pii_value s) (pii_value t)"

definition less_pii_type :: "pii_type \<Rightarrow> pii_type \<Rightarrow> bool" where
  "less_pii_type s t = (str_le (pii_value s) (pii_value t) \<and> s \<noteq> t)"

instance
proof
  fix s t u :: pii_type
  show "s < t \<longleftrightarrow> s \<le> t \<and> \<not> t \<le> s"
    using str_le_antisym [of "pii_value s" "pii_value t"]
    by (auto simp: less_eq_pii_type_def less_pii_type_def str_le_refl)
  show "s \<le> s" by (simp add: less_eq_pii_type_def str_le_refl)
  show "s \<le> u" if "s \<le> t" "t \<le> u"
    using that str_le_trans by (auto simp: less_eq_pii_type_def)
  show "s = t" if "s \<le> t" "t \<le> s"
    using that str_le_antisym [of "pii_value s" "pii_value t"]
    by (auto simp: less_eq_pii_type_def)
  show "s \<le> t \<or> t \<le> s"
    using str_le_total by (auto simp: less_eq_pii_type_def)
qed

end

section \<open>Exceptions\<close>

text \<open>
  The domain exceptions carry their message; the others are the exceptions of the interpreter
  and of the libraries that the modelled code can meet.
\<close>

datatype exn =
  PIIProxyError pystr
| ConsumerNotAllowedError pystr
| InvalidPayloadError pystr
| BadRequestError pystr
| RestorationStateNotFoundError pystr
| ProcessingError pystr
| ServiceOverloadedError pystr int
| ServiceUnavailableError pystr
| IndexError
| KeyError
| ValueError
| OverflowError
| TypeError
| AttributeError
| UnicodeEncodeError
| RuntimeError pystr
| OSError pystr
| InvalidToken

text \<open>\<open>isinstance(exc, PIIProxyError)\<close>\<close>

fun is_domain_error :: "exn \<Rightarrow> bool" where
  "is_domain_error (PIIProxyError m) = True"
| "is_domain_error (ConsumerNotAllowedError m) = True"
| "is_domain_error (InvalidPayloadError m) = True"
| "is_domain_error (BadRequestError m) = True"
| "is_domain_error (RestorationStateNotFoundError m) = True"
| "is_domain_error (ProcessingError m) = True"
| "is_domain_error (ServiceOverloadedError m r) = True"
| "is_domain_error (ServiceUnavailableError m) = True"
| "is_domain_error _ = False"

text \<open>The class attributes; \<open>500\<close> and \<open>PROCESSING_ERROR\<close> are those of the base class.\<close>

fun status_code :: "exn \<Rightarrow> int" where
  "status_code (ConsumerNotAllowedError m) = 403"
| "status_code (InvalidPayloadError m) = 422"
| "status_code (BadRequestError m) = 400"
| "status_code (RestorationStateNotFoundError m) = 404"
| "status_code (ProcessingError m) = 500"
| "status_code (ServiceOverloadedError m r) = 429"
| "status_code (ServiceUnavailableError m) = 503"
| "status_code _ = 500"

fun error_type :: "exn \<Rightarrow> pystr" where
  "error_type (ConsumerNotAllowedError m) = lit ''CONSUMER_NOT_ALLOWED''"
| "error_type (InvalidPayloadError m) = lit ''INVALID_PAYLOAD''"
| "error_type (BadRequestError m) = lit ''BAD_REQUEST''"
| "error_type (RestorationStateNotFoundError m) = lit ''RESTORATION_STATE_NOT_FOUND''"
| "error_type (ProcessingError m) = lit ''PROCESSING_ERROR''"
| "error_type (ServiceOverloadedError m r) = lit ''SERVICE_OVERLOADED''"
| "error_type (ServiceUnavailableError m) = lit ''SERVICE_UNAVAILABLE''"
| "error_type _ = lit ''PROCESSING_ERROR''"

fun exn_message :: "exn \<Rightarrow> pystr" where
  "exn_message (PIIProxyError m) = m"
| "exn_message (ConsumerNotAllowedError m) = m"
| "exn_message (InvalidPayloadError m) = m"
| "exn_message (BadRequestError m) = m"
| "exn_message (RestorationStateNotFoundError m) = m"
| "exn_message (ProcessingError m) = m"
| "exn_message (ServiceOverloadedError m r) = m"
| "exn_message (ServiceUnavailableError m) = m"
| "exn_message _ = []"

section \<open>Untyped values\<close>

text \<open>
  The values a YAML or JSON document is made of (\<open>object\<close> in the code's annotations).  A float
  is kept as its lexeme: the code never computes with one.  A dictionary is an association
  list in insertion order.
\<close>

datatype pyval =
  VNone
| VBool bool
| VInt int
| VFloat pystr
| VStr pystr
| VList "pyval list"
| VDict "(pyval \<times> pyval) list"

text \<open>\<open>d.get(k, default)\<close> on the items of a dictionary with a string key\<close>

definition dict_get :: "(pyval \<times> pyval) list \<Rightarrow> string \<Rightarrow> pyval \<Rightarrow> pyval" where
  "dict_get d k dflt = (case map_of d (VStr (lit k)) of None \<Rightarrow> dflt | Some v \<Rightarrow> v)"

text \<open>\<open>bool(v)\<close>, for values other than floats exactly; a float is true unless its lexeme is \<open>0.0\<close>\<close>

fun truthy :: "pyval \<Rightarrow> bool" where
  "truthy VNone = False"
| "truthy (VBool b) = b"
| "truthy (VInt i) = (i \<noteq> 0)"
| "truthy (VFloat x) = (x \<noteq> lit ''0.0'')"
| "truthy (VStr s) = (s \<noteq> [])"
| "truthy (VList xs) = (xs \<noteq> [])"
| "truthy (VDict d) = (d \<noteq> [])"

text \<open>\<open>v["k"]\<close> on a parsed JSON value\<close>

definition get_item :: "pyval \<Rightarrow> string \<Rightarrow> exn + pyval" where
  "get_item v k =
     (case v of VDict d \<Rightarrow> (case map_of d (VStr (lit k)) of None \<Rightarrow> Inl KeyError | Some x \<Rightarrow> Inr x)
      | _ \<Rightarrow> Inl TypeError)"

text \<open>The dictionary methods exist on dictionaries only: \<open>AttributeError\<close> otherwise.\<close>

fun as_dict :: "pyval \<Rightarrow> exn + (pyval \<times> pyval) list" where
  "as_dict (VDict d) = Inr d"
| "as_dict _ = Inl AttributeError"

text \<open>\<open>for x in v\<close>\<close>

fun py_iter :: "pyval \<Rightarrow> exn + pyval list" where
  "py_iter (VList xs) = Inr xs"
| "py_iter (VDict d) = Inr (map fst d)"
| "py_iter (VStr s) = Inr (map (\<lambda>c. VStr [c]) s)"
| "py_iter _ = Inl TypeError"

section \<open>Models\<close>

record pii_entity =
  e_type :: pii_type
  e_value :: pystr
  e_start :: int
  e_end :: int
  e_confidence :: rat
  e_detector :: pystr
  e_metadata :: "(pystr \<times> pyval) list"

text \<open>The constructor call with the default of \<open>metadata\<close>\<close>

definition PIIEntity :: "pii_type \<Rightarrow> pystr \<Rightarrow> int \<Rightarrow> int \<Rightarrow> rat \<Rightarrow> pystr \<Rightarrow> pii_entity" where
  "PIIEntity t v a b c d =
     \<lparr>e_type = t, e_value = v, e_start = a, e_end = b, e_confidence = c, e_detector = d,
      e_metadata = []\<rparr>"

lemma PIIEntity_sel [simp]:
  "e_type (PIIEntity t v a b c d) = t" "e_value (PIIEntity t v a b c d) = v"
  "e_start (PIIEntity t v a b c d) = a" "e_end (PIIEntity t v a b c d) = b"
  "e_confidence (PIIEntity t v a b c d) = c" "e_detector (PIIEntity t v a b c d) = d"
  by (simp_all add: PIIEntity_def)

record detection_result =
  dr_entities :: "pii_entity list"
  dr_processing_time :: rat
  dr_metadata :: "(pystr \<times> pyval) list"

record detection_context =
  dc_consumer_id :: pystr
  dc_language :: pystr
  dc_metadata :: "(pystr \<times> pyval) list"

definition DetectionContext :: "pystr \<Rightarrow> detection_context" where
  "DetectionContext cid = \<lparr>dc_consumer_id = cid, dc_language = lit ''ru'', dc_metadata = []\<rparr>"

text \<open>
  A span is valid for a text when it lies inside the text, is not empty, and the entity's value
  is the text it covers: what every consumer of entities relies on.
\<close>

definition valid_span :: "pystr \<Rightarrow> pii_entity \<Rightarrow> bool" where
  "valid_span text e = (0 \<le> e_start e \<and> e_start e < e_end e \<and> e_end e \<le> int (length text)
     \<and> py_slice text (e_start e) (e_end e) = e_value e)"

end
