(* ===== verification/Json.thy ===== *)
theory Json
  imports Domain
begin

text \<open>
  The part of Python's \<open>json\<close> module the code uses: \<open>json.dumps\<close> with its default arguments
  (ASCII output, separators \<open>", "\<close> and \<open>": "\<close>) and \<open>json.loads\<close>.  \<open>None\<close> stands for the
  \<open>TypeError\<close> of \<open>dumps\<close> and the \<open>ValueError\<close> of \<open>loads\<close>.  A float is its lexeme; the
  recursion limit of the interpreter is not modelled.
\<close>

section \<open>Printing\<close>

fun nat_str :: "nat \<Rightarrow> pystr" where
  "nat_str n = (if n < 10 then [48 + n] else nat_str (n div 10) @ [48 + n mod 10])"

declare nat_str.simps [simp del]

definition int_str :: "int \<Rightarrow> pystr" where
  "int_str i = (if i < 0 then 45 # nat_str (nat (- i)) else nat_str (nat i))"

definition hex_char :: "nat \<Rightarrow> codepoint" where
  "hex_char d = (if d < 10 then 48 + d else 87 + d)"

definition u_escape :: "nat \<Rightarrow> pystr" where
  "u_escape n = [92, 117, hex_char (n div 4096 mod 16), hex_char (n div 256 mod 16),
     hex_char (n div 16 mod 16), hex_char (n mod 16)]"

definition escape_char :: "codepoint \<Rightarrow> pystr" where
  "escape_char c =
     (if c = 34 then [92, 34] else if c = 92 then [92, 92] else if c = 10 then [92, 110]
      else if c = 13 then [92, 114] else if c = 9 then [92, 116] else if c = 12 then [92, 102]
      else if c = 8 then [92, 98]
      else if 32 \<le> c \<and> c \<le> 126 then [c]
      else if c < 65536 then u_escape c
      else u_escape (55296 + (c - 65536) div 1024 mod 1024) @ u_escape (56320 + (c - 65536) mod 1024))"

definition json_string :: "pystr \<Rightarrow> pystr" where
  "json_string s = 34 # concat (map escape_char s) @ [34]"

text \<open>Keys that are no strings are printed as \<open>dumps\<close> converts them.\<close>

fun json_key :: "pyval \<Rightarrow> pystr option" where
  "json_key (VStr s) = Some (json_string s)"
| "json_key VNone = Some (json_string (lit ''null''))"
| "json_key (VBool b) = Some (json_string (if b then lit ''true'' else lit ''false''))"
| "json_key (VInt i) = Some (json_string (int_str i))"
| "json_key (VFloat x) = Some (json_string x)"
| "json_key _ = None"

text \<open>The items of a list or dictionary, after the first one, each with the separator before it\<close>

fun dumps :: "pyval \<Rightarrow> pystr option"
  and dumps_elems :: "pyval list \<Rightarrow> pystr option"
  and dumps_items :: "(pyval \<times> pyval) list \<Rightarrow> pystr option" where
  "dumps VNone = Some (lit ''null'')"
| "dumps (VBool b) = Some (if b then lit ''true'' else lit ''false'')"
| "dumps (VInt i) = Some (int_str i)"
| "dumps (VFloat x) = Some x"
| "dumps (VStr s) = Some (json_string s)"
| "dumps (VList xs) =
     (case xs of [] \<Rightarrow> Some [91, 93]
      | x # ys \<Rightarrow> (case (dumps x, dumps_elems ys) of
          (Some a, Some b) \<Rightarrow> Some (91 # a @ b @ [93]) | _ \<Rightarrow> None))"
| "dumps (VDict d) =
     (case d of [] \<Rightarrow> Some [123, 125]
      | (k, v) # ys \<Rightarrow> (case (json_key k, dumps v, dumps_items ys) of
          (Some a, Some b, Some c) \<Rightarrow> Some (123 # a @ [58, 32] @ b @ c @ [125]) | _ \<Rightarrow> None))"
| "dumps_elems [] = Some []"
| "dumps_elems (x # xs) =
     (case (dumps x, dumps_elems xs) of (Some a, Some b) \<Rightarrow> Some (44 # 32 # a @ b) | _ \<Rightarrow> None)"
| "dumps_items [] = Some []"
| "dumps_items ((k, v) # xs) =
     (case (json_key k, dumps v, dumps_items xs) of
        (Some a, Some b, Some c) \<Rightarrow> Some (44 # 32 # a @ [58, 32] @ b @ c) | _ \<Rightarrow> None)"

section \<open>Parsing\<close>

definition skip_ws :: "pystr \<Rightarrow> pystr" where
  "skip_ws s = dropWhile (\<lambda>c. c = 32 \<or> c = 9 \<or> c = 10 \<or> c = 13) s"

definition hex_val :: "codepoint \<Rightarrow> nat option" where
  "hex_val c = (if 48 \<le> c \<and> c \<le> 57 then Some (c - 48) else if 97 \<le> c \<and> c \<le> 102 then Some (c - 87)
     else if 65 \<le> c \<and> c \<le> 70 then Some (c - 55) else None)"

fun hex4 :: "pystr \<Rightarrow> (nat \<times> pystr) option" where
  "hex4 (a # b # c # d # r) =
     (case (hex_val a, hex_val b, hex_val c, hex_val d) of
        (Some w, Some x, Some y, Some z) \<Rightarrow> Some (w * 4096 + x * 256 + y * 16 + z, r)
      | _ \<Rightarrow> None)"
| "hex4 _ = None"

definition esc_val :: "codepoint \<Rightarrow> codepoint option" where
  "esc_val e = map_of [(34, 34), (92, 92), (47, 47), (98, 8), (102, 12), (110, 10), (114, 13), (116, 9)] e"

text \<open>
  An escaped code point: a high surrogate followed by an escaped low surrogate is one character.
\<close>

definition u_char :: "pystr \<Rightarrow> (codepoint \<times> pystr) option" where
  "u_char s =
     (case hex4 s of None \<Rightarrow> None
      | Some (u, r) \<Rightarrow>
          if 55296 \<le> u \<and> u \<le> 56319 then
            (case r of w # x # r2 \<Rightarrow>
               if w = 92 \<and> x = 117 then
                 (case hex4 r2 of None \<Rightarrow> None
                  | Some (v, r3) \<Rightarrow>
                      if 56320 \<le> v \<and> v \<le> 57343
                      then Some (65536 + (u - 55296) * 1024 + (v - 56320), r3) else Some (u, r))
               else Some (u, r)
             | _ \<Rightarrow> Some (u, r))
          else Some (u, r))"

lemma hex4_length: "hex4 s = Some (u, r) \<Longrightarrow> length r < length s"
  by (induction s rule: hex4.induct) (auto split: option.splits)

lemma u_char_length: "u_char s = Some (u, r) \<Longrightarrow> length r < length s"
  by (auto simp: u_char_def split: option.splits if_splits list.splits prod.splits nat.splits
      dest!: hex4_length)

function jstring :: "pystr \<Rightarrow> pystr \<Rightarrow> (pystr \<times> pystr) option" where
  "jstring acc [] = None"
| "jstring acc (c # cs) =
     (if c = 34 then Some (rev acc, cs)
      else if c = 92 then
        (case cs of [] \<Rightarrow> None
         | e # r \<Rightarrow>
             if e = 117 then (case u_char r of None \<Rightarrow> None | Some (u, r') \<Rightarrow> jstring (u # acc) r')
             else (case esc_val e of None \<Rightarrow> None | Some x \<Rightarrow> jstring (x # acc) r))
      else if c < 32 then None
      else jstring (c # acc) cs)"
  by pat_completeness auto
termination by (relation "measure (\<lambda>(acc, s). length s)") (auto dest!: u_char_length)

definition is_dig :: "codepoint \<Rightarrow> bool" where
  "is_dig c = (48 \<le> c \<and> c \<le> 57)"

text \<open>\<open>-?(0|[1-9][0-9]*)(\.[0-9]+)?([eE][-+]?[0-9]+)?\<close>, with the limit of \<open>int\<close> on digits\<close>

definition frac_part :: "pystr \<Rightarrow> pystr" where
  "frac_part s = (case s of c # r \<Rightarrow> (if c = 46 \<and> takeWhile is_dig r \<noteq> [] then c # takeWhile is_dig r else [])
                  | [] \<Rightarrow> [])"

definition exp_part :: "pystr \<Rightarrow> pystr" where
  "exp_part s =
     (case s of c # r \<Rightarrow>
        (if c = 101 \<or> c = 69 then
           (let sign = (case r of x # _ \<Rightarrow> (if x = 45 \<or> x = 43 then [x] else []) | [] \<Rightarrow> []);
                ds = takeWhile is_dig (drop (length sign) r)
            in if ds = [] then [] else c # sign @ ds)
         else [])
      | [] \<Rightarrow> [])"

definition digits_val :: "pystr \<Rightarrow> int" where
  "digits_val ds = foldl (\<lambda>n d. 10 * n + (int d - 48)) 0 ds"

definition jnumber :: "pystr \<Rightarrow> (pyval \<times> pystr) option" where
  "jnumber s =
     (let neg = (case s of c # _ \<Rightarrow> c = 45 | [] \<Rightarrow> False);
          body = (if neg then tl s else s);
          ds = (case body of c # _ \<Rightarrow> (if c = 48 then [48] else takeWhile is_dig body) | [] \<Rightarrow> []);
          r1 = drop (length ds) body; f = frac_part r1; r2 = drop (length f) r1; e = exp_part r2;
          r3 = drop (length e) r2
      in if ds = [] then None
         else if f = [] \<and> e = [] then
           (if length ds > 4300 then None
            else Some (VInt (if neg then - digits_val ds else digits_val ds), r3))
         else Some (VFloat ((if neg then [45] else []) @ ds @ f @ e), r3))"

definition jliteral :: "pystr \<Rightarrow> (pyval \<times> pystr) option" where
  "jliteral s =
     (if prefix (lit ''null'') s then Some (VNone, drop 4 s)
      else if prefix (lit ''true'') s then Some (VBool True, drop 4 s)
      else if prefix (lit ''false'') s then Some (VBool False, drop 5 s)
      else if prefix (lit ''NaN'') s then Some (VFloat (lit ''NaN''), drop 3 s)
      else if prefix (lit ''Infinity'') s then Some (VFloat (lit ''Infinity''), drop 8 s)
      else if prefix (lit ''-Infinity'') s then Some (VFloat (lit ''-Infinity''), drop 9 s)
      else jnumber s)"

text \<open>
  The scanner; the fuel bounds the depth of the calls.  A value costs at most two calls for each
  character it consumes (a list and its first element), so twice the length of the text is enough.
\<close>

fun jvalue :: "nat \<Rightarrow> pystr \<Rightarrow> (pyval \<times> pystr) option"
  and jelems :: "nat \<Rightarrow> pyval list \<Rightarrow> pystr \<Rightarrow> (pyval \<times> pystr) option"
  and jitems :: "nat \<Rightarrow> (pyval \<times> pyval) list \<Rightarrow> pystr \<Rightarrow> (pyval \<times> pystr) option" where
  "jvalue 0 s = None"
| "jvalue (Suc n) s =
     (case s of [] \<Rightarrow> None
      | c # cs \<Rightarrow>
          if c = 34 then map_option (\<lambda>(t, r). (VStr t, r)) (jstring [] cs)
          else if c = 123 then
            (case skip_ws cs of [] \<Rightarrow> None
             | x # r \<Rightarrow> if x = 125 then Some (VDict [], r) else jitems n [] (x # r))
          else if c = 91 then
            (case skip_ws cs of [] \<Rightarrow> None
             | x # r \<Rightarrow> if x = 93 then Some (VList [], r) else jelems n [] (x # r))
          else jliteral s)"
| "jelems 0 acc s = None"
| "jelems (Suc n) acc s =
     (case jvalue n s of None \<Rightarrow> None
      | Some (v, r) \<Rightarrow>
          (case skip_ws r of [] \<Rightarrow> None
           | x # r2 \<Rightarrow> if x = 44 then jelems n (acc @ [v]) (skip_ws r2)
                      else if x = 93 then Some (VList (acc @ [v]), r2) else None))"
| "jitems 0 acc s = None"
| "jitems (Suc n) acc s =
     (case s of [] \<Rightarrow> None
      | c # cs \<Rightarrow>
          if c \<noteq> 34 then None
          else (case jstring [] cs of None \<Rightarrow> None
                | Some (k, r) \<Rightarrow>
                    (case skip_ws r of [] \<Rightarrow> None
                     | x # r2 \<Rightarrow>
                         if x \<noteq> 58 then None
                         else (case jvalue n (skip_ws r2) of None \<Rightarrow> None
                               | Some (v, r3) \<Rightarrow>
                                   (let d = AList.update (VStr k) v acc in
                                    case skip_ws r3 of [] \<Rightarrow> None
                                    | y # r4 \<Rightarrow>
                                        if y = 44 then jitems n d (skip_ws r4)
                                        else if y = 125 then Some (VDict d, r4) else None)))))"

definition loads :: "pystr \<Rightarrow> pyval option" where
  "loads s =
     (if prefix [65279] s then None
      else case jvalue (Suc (2 * length s)) (skip_ws s) of
             None \<Rightarrow> None
           | Some (v, r) \<Rightarrow> if skip_ws r = [] then Some v else None)"

section \<open>Reading back what was printed\<close>

text \<open>
  The values that survive: strings without surrogates, dictionaries with distinct string keys,
  integers within the digit limit of \<open>int\<close>, no floats.
\<close>

fun json_ok :: "pyval \<Rightarrow> bool"
  and json_ok_items :: "(pyval \<times> pyval) list \<Rightarrow> bool" where
  "json_ok VNone = True"
| "json_ok (VBool b) = True"
| "json_ok (VInt i) = (length (int_str i) \<le> 4300)"
| "json_ok (VFloat x) = False"
| "json_ok (VStr s) = list_all is_scalar s"
| "json_ok (VList xs) = list_all json_ok xs"
| "json_ok (VDict d) = json_ok_items d"
| "json_ok_items [] = True"
| "json_ok_items ((k, v) # d) =
     ((case k of VStr s \<Rightarrow> list_all is_scalar s | _ \<Rightarrow> False) \<and> k \<notin> fst ` set d \<and> json_ok v \<and> json_ok_items d)"

subsection \<open>Strings\<close>

declare jstring.simps [simp del]

lemma hex_val_char: "d < 16 \<Longrightarrow> hex_val (hex_char d) = Some d"
  by (simp add: hex_val_def hex_char_def)

lemma hex_recompose: "n < 65536 \<Longrightarrow>
  n div 4096 mod 16 * 4096 + n div 256 mod 16 * 256 + n div 16 mod 16 * 16 + n mod 16 = n"
  for n :: nat
proof -
  assume n: "n < 65536"
  have d: "n div 256 = n div 16 div 16" "n div 4096 = n div 256 div 16"
    by (simp_all add: div_mult2_eq [symmetric])
  have "n div 4096 < 16" using n by (simp add: less_mult_imp_div_less)
  then have "n div 4096 mod 16 = n div 4096" by simp
  then show ?thesis
    using div_mult_mod_eq [of n 16] div_mult_mod_eq [of "n div 16" 16, folded d(1)]
      div_mult_mod_eq [of "n div 256" 16, folded d(2)] by linarith
qed

lemma hex4_u: "n < 65536 \<Longrightarrow>
  hex4 (hex_char (n div 4096 mod 16) # hex_char (n div 256 mod 16) # hex_char (n div 16 mod 16)
    # hex_char (n mod 16) # r) = Some (n, r)"
  using hex_recompose [of n] by (simp add: hex_val_char)

lemma jstring_u:
  assumes "n < 65536" "\<not> (55296 \<le> n \<and> n \<le> 56319)"
  shows "jstring acc (u_escape n @ t) = jstring (n # acc) t"
  using assms(2) hex4_u [OF assms(1), of t]
  by (auto simp: u_escape_def jstring.simps(2) [of acc 92] u_char_def simp del: hex4.simps)

lemma jstring_pair:
  assumes "u = 55296 + a" "v = 56320 + b" "a < 1024" "b < 1024"
  shows "jstring acc (u_escape u @ u_escape v @ t) = jstring ((65536 + a * 1024 + b) # acc) t"
proof -
  have "u < 65536" "v < 65536" using assms by auto
  from hex4_u [OF this(1), of "u_escape v @ t"] hex4_u [OF this(2), of t] show ?thesis
    using assms by (simp add: u_escape_def jstring.simps(2) [of acc 92] u_char_def del: hex4.simps)
qed

lemma jstring_escape:
  assumes "is_scalar c"
  shows "jstring acc (escape_char c @ t) = jstring (c # acc) t"
proof -
  consider "c \<in> {34, 92, 10, 13, 9, 12, 8}" | "c \<notin> {34, 92, 10, 13, 9, 12, 8}" "32 \<le> c \<and> c \<le> 126"
    | "c \<notin> {34, 92, 10, 13, 9, 12, 8}" "\<not> (32 \<le> c \<and> c \<le> 126)" "c < 65536" | "c \<ge> 65536" by fastforce
  then show ?thesis
  proof cases
    case 1
    then show ?thesis by (auto simp: escape_char_def jstring.simps(2) [of acc 92] esc_val_def)
  next
    case 2
    then show ?thesis by (simp add: escape_char_def jstring.simps(2) [of acc c])
  next
    case 3
    then have "escape_char c = u_escape c" by (auto simp: escape_char_def)
    with jstring_u [of c acc t] 3 assms show ?thesis by (auto simp: is_scalar_def)
  next
    case 4
    define k where "k = c - 65536"
    from 4 assms have k: "k < 1048576" "c = 65536 + k" by (auto simp: k_def is_scalar_def)
    then have "k div 1024 < 1024" by (simp add: less_mult_imp_div_less)
    moreover have "65536 + k div 1024 * 1024 + k mod 1024 = c" using k(2) by simp
    moreover have "escape_char c = u_escape (55296 + k div 1024 mod 1024) @ u_escape (56320 + k mod 1024)"
      using 4 by (simp add: escape_char_def k_def)
    ultimately show ?thesis
      using jstring_pair [OF refl refl, of "k div 1024" "k mod 1024" acc t] by simp
  qed
qed

lemma jstring_string:
  "list_all is_scalar s \<Longrightarrow> jstring acc (concat (map escape_char s) @ 34 # t) = Some (rev acc @ s, t)"
  by (induction s arbitrary: acc) (simp_all add: jstring_escape jstring.simps(2) [of _ 34 t])

subsection \<open>Numbers\<close>

lemma nat_str_digits: "\<forall>c \<in> set (nat_str n). is_dig c"
proof (induction n rule: nat_str.induct)
  case (1 n)
  then show ?case by (subst nat_str.simps) (auto simp: is_dig_def)
qed

lemma nat_str_val: "digits_val (nat_str n) = int n"
proof (induction n rule: nat_str.induct)
  case (1 n)
  show ?case
  proof (cases "n < 10")
    case True
    then show ?thesis by (subst nat_str.simps) (simp add: digits_val_def)
  next
    case False
    then have "digits_val (nat_str (n div 10)) = int (n div 10)" using 1 by simp
    with False show ?thesis
      by (subst nat_str.simps) (simp add: digits_val_def zmod_int zdiv_int)
  qed
qed

lemma nat_str_Nil [simp]: "nat_str n \<noteq> []"
  by (subst nat_str.simps) simp

lemma nat_str_hd: "hd (nat_str n) = 48 \<Longrightarrow> nat_str n = [48]"
proof (induction n rule: nat_str.induct)
  case (1 n)
  show ?case
  proof (cases "n < 10")
    case True
    with 1(2) show ?thesis by (simp add: nat_str.simps [of n] nat_str.simps [of 0])
  next
    case False
    with 1(2) have "hd (nat_str (n div 10)) = 48" by (simp add: nat_str.simps [of n])
    with 1(1) False have "nat_str (n div 10) = [48]" by simp
    then have "int (n div 10) = 0" using nat_str_val [of "n div 10"] by (simp add: digits_val_def)
    with False show ?thesis by simp
  qed
qed

definition ends_value :: "pystr \<Rightarrow> bool" where
  "ends_value r \<longleftrightarrow> r = [] \<or> hd r \<in> {44, 93, 125}"

lemma takeWhile_digits: "ends_value r \<Longrightarrow> takeWhile is_dig (nat_str n @ r) = nat_str n"
  using nat_str_digits [of n]
  by (cases r) (auto simp: ends_value_def is_dig_def takeWhile_append2)

lemma ends_parts: "ends_value r \<Longrightarrow> frac_part r = [] \<and> exp_part r = []"
  by (cases r) (auto simp: ends_value_def frac_part_def exp_part_def)

lemma jnumber_nat:
  assumes "ends_value r" "length (nat_str n) \<le> 4300"
  shows "jnumber (nat_str n @ r) = Some (VInt (int n), r)"
    and "jnumber (45 # nat_str n @ r) = Some (VInt (- int n), r)"
proof -
  obtain c cs where n: "nat_str n = c # cs" by (cases "nat_str n") auto
  have c: "48 \<le> c" "c \<le> 57" using nat_str_digits [of n] by (auto simp: n is_dig_def)
  have ds: "(if c = 48 then [48] else takeWhile is_dig (nat_str n @ r)) = nat_str n"
    using takeWhile_digits [OF assms(1), of n] nat_str_hd [of n] by (auto simp: n)
  note defs = jnumber_def Let_def ends_parts [OF assms(1)]
  show "jnumber (nat_str n @ r) = Some (VInt (int n), r)"
    using assms(2) c ds nat_str_val [of n] ends_parts [OF assms(1)]
    by (auto simp: jnumber_def Let_def n)
  show "jnumber (45 # nat_str n @ r) = Some (VInt (- int n), r)"
    using assms(2) c ds nat_str_val [of n] ends_parts [OF assms(1)]
    by (auto simp: jnumber_def Let_def n)
qed

lemma jliteral_int:
  assumes "ends_value r" "length (int_str i) \<le> 4300"
  shows "jliteral (int_str i @ r) = Some (VInt i, r)"
proof -
  obtain m where m: "i = int m \<or> i = - int m \<and> 0 < m"
    by (metis int_cases2 of_nat_0_less_iff of_nat_0 neg_0_equal_iff_equal gr0I)
  obtain c cs where n: "nat_str m = c # cs" by (cases "nat_str m") auto
  have c: "48 \<le> c" "c \<le> 57" using nat_str_digits [of m] by (auto simp: n is_dig_def)
  from m show ?thesis
  proof
    assume i: "i = int m"
    then have "int_str i = nat_str m" by (simp add: int_str_def)
    with jnumber_nat(1) [OF assms(1), of m] assms(2) c show ?thesis
      by (auto simp: jliteral_def lit_def n i)
  next
    assume i: "i = - int m \<and> 0 < m"
    then have "int_str i = 45 # nat_str m" by (simp add: int_str_def)
    with jnumber_nat(2) [OF assms(1), of m] assms(2) c i show ?thesis
      by (auto simp: jliteral_def lit_def n)
  qed
qed

subsection \<open>Values\<close>

lemma skip_ws_id: "s = [] \<or> hd s \<notin> {32, 9, 10, 13} \<Longrightarrow> skip_ws s = s"
  by (cases s) (auto simp: skip_ws_def)

lemma skip_ws_blank [simp]: "skip_ws (32 # s) = skip_ws s"
  by (simp add: skip_ws_def)

text \<open>The first character of a printed value is neither white space nor a closing bracket
  nor a byte order mark.\<close>

definition opens :: "pystr \<Rightarrow> bool" where
  "opens s \<longleftrightarrow> s \<noteq> [] \<and> hd s \<notin> {32, 9, 10, 13, 93, 125, 65279}"

lemma opens_int: "opens (int_str i)"
proof -
  have "opens (nat_str n)" for n
    using nat_str_digits [of n] by (cases "nat_str n") (auto simp: opens_def is_dig_def)
  then show ?thesis by (simp add: int_str_def opens_def)
qed

lemma opens_dumps: "dumps v = Some s \<Longrightarrow> json_ok v \<Longrightarrow> opens s"
  using opens_int
  by (cases v) (auto simp: opens_def lit_def json_string_def split: list.splits option.splits if_splits)

lemma opens_skip: "opens s \<Longrightarrow> skip_ws (s @ t) = s @ t"
  by (cases s) (auto simp: opens_def intro: skip_ws_id)

text \<open>What the scanner does after an element and after an item\<close>

definition elems_tail :: "nat \<Rightarrow> pyval list \<Rightarrow> pystr \<Rightarrow> (pyval \<times> pystr) option" where
  "elems_tail n acc r =
     (case skip_ws r of [] \<Rightarrow> None
      | x # r2 \<Rightarrow> if x = 44 then jelems n acc (skip_ws r2)
                 else if x = 93 then Some (VList acc, r2) else None)"

definition items_tail :: "nat \<Rightarrow> (pyval \<times> pyval) list \<Rightarrow> pystr \<Rightarrow> (pyval \<times> pystr) option" where
  "items_tail n d r =
     (case skip_ws r of [] \<Rightarrow> None
      | y # r4 \<Rightarrow> if y = 44 then jitems n d (skip_ws r4)
                 else if y = 125 then Some (VDict d, r4) else None)"

lemma jelems_value:
  "jvalue n s = Some (v, r) \<Longrightarrow> jelems (Suc n) acc s = elems_tail n (acc @ [v]) r"
  by (simp add: elems_tail_def)

lemma jitems_value:
  assumes "list_all is_scalar k" and "jvalue n s = Some (v, r)" and "skip_ws s = s"
    and "VStr k \<notin> fst ` set acc"
  shows "jitems (Suc n) acc (json_string k @ 58 # 32 # s) = items_tail n (acc @ [(VStr k, v)]) r"
proof -
  have "AList.update (VStr k) v acc = acc @ [(VStr k, v)]"
    using assms(4) by (induction acc) auto
  with assms jstring_string [OF assms(1), of "[]" "58 # 32 # s"] show ?thesis
    by (auto simp: json_string_def items_tail_def skip_ws_id Let_def split: list.split)
qed

lemma ends_elems: "dumps_elems xs = Some s \<Longrightarrow> ends_value (s @ 93 # t)"
  by (cases xs) (auto simp: ends_value_def split: option.splits)

lemma ends_items: "dumps_items xs = Some s \<Longrightarrow> ends_value (s @ 125 # t)"
  by (cases xs) (auto simp: ends_value_def split: option.splits)

lemma dumps_read:
  "dumps v = Some s \<Longrightarrow> json_ok v \<Longrightarrow> ends_value r \<Longrightarrow> 2 * length s < n \<Longrightarrow>
     jvalue n (s @ r) = Some (v, r)"
  "dumps_elems xs = Some s \<Longrightarrow> list_all json_ok xs \<Longrightarrow> 2 * length s \<le> n \<Longrightarrow>
     elems_tail n acc (s @ 93 # r) = Some (VList (acc @ xs), r)"
  "dumps_items d = Some s \<Longrightarrow> json_ok_items d \<Longrightarrow> 2 * length s \<le> n \<Longrightarrow>
     fst ` set d \<inter> fst ` set acc' = {} \<Longrightarrow>
     items_tail n acc' (s @ 125 # r) = Some (VDict (acc' @ d), r)"
proof (induction v and xs and d arbitrary: s r n and s r n acc and s r n acc'
    rule: dumps_dumps_elems_dumps_items.induct)
  case 1
  then show ?case by (cases n) (auto simp: lit_def jliteral_def)
next
  case (2 b)
  then show ?case by (cases n) (auto simp: lit_def jliteral_def split: if_splits)
next
  case (3 i)
  then obtain m where n: "n = Suc m" and s: "s = int_str i" by (cases n) auto
  have "opens s" unfolding s by (rule opens_int)
  moreover have "hd s \<noteq> 34 \<and> hd s \<noteq> 123 \<and> hd s \<noteq> 91"
  proof -
    have "hd (nat_str k) \<noteq> 34 \<and> hd (nat_str k) \<noteq> 123 \<and> hd (nat_str k) \<noteq> 91" for k
      using nat_str_digits [of k] by (cases "nat_str k") (auto simp: is_dig_def)
    then show ?thesis by (simp add: s int_str_def)
  qed
  moreover have "jliteral (s @ r) = Some (VInt i, r)"
    using jliteral_int 3 by (simp add: s)
  ultimately show ?case by (cases s) (auto simp: n opens_def)
next
  case (4 x)
  then show ?case by simp
next
  case (5 t)
  then show ?case
    using jstring_string [of t "[]" r] by (cases n) (auto simp: json_string_def)
next
  case (6 xs)
  show ?case
  proof (cases xs)
    case Nil
    with 6 show ?thesis by (cases n) (auto simp: skip_ws_def)
  next
    case (Cons x ys)
    with 6(3) obtain a b where ab: "dumps x = Some a" "dumps_elems ys = Some b" "s = 91 # a @ b @ [93]"
      by (auto split: option.splits)
    with 6(6) obtain m where n: "n = Suc (Suc m)" "2 * length a < m" "2 * length b \<le> m"
      by (cases n; cases "n - 1") auto
    have ok: "json_ok x" "list_all json_ok ys" using 6(4) Cons by auto
    have "jvalue m (a @ b @ 93 # r) = Some (x, b @ 93 # r)"
      using 6(1) [OF Cons ab(1) ok(1) ends_elems [OF ab(2)] n(2)] by simp
    moreover have "elems_tail m [x] (b @ 93 # r) = Some (VList xs, r)"
      using 6(2) [OF Cons ab(2) ok(2) n(3)] Cons by simp
    ultimately have "jelems (Suc m) [] (a @ b @ 93 # r) = Some (VList xs, r)"
      using jelems_value by simp
    moreover have "opens a" using opens_dumps ab(1) ok(1) .
    then obtain c cs where "a = c # cs" "c \<noteq> 93" "skip_ws (a @ b @ 93 # r) = a @ b @ 93 # r"
      using opens_skip [of a] by (cases a) (auto simp: opens_def)
    ultimately show ?thesis by (simp add: n ab(3) del: jelems.simps)
  qed
next
  case (7 d)
  show ?case
  proof (cases d)
    case Nil
    with 7 show ?thesis by (cases n) (auto simp: skip_ws_def)
  next
    case (Cons kv ys)
    obtain k v where kv: "kv = (k, v)" by (cases kv)
    with 7(4) Cons obtain t where t: "k = VStr t" "list_all is_scalar t" "json_ok v" "json_ok_items ys"
      "k \<notin> fst ` set ys" by (auto split: pyval.splits)
    with 7(3) Cons kv obtain b c where bc: "dumps v = Some b" "dumps_items ys = Some c"
      "s = 123 # json_string t @ [58, 32] @ b @ c @ [125]" by (auto split: option.splits)
    with 7(6) obtain m where n: "n = Suc (Suc m)" "2 * length b < m" "2 * length c \<le> m"
      by (cases n; cases "n - 1") auto
    have v: "jvalue m (b @ c @ 125 # r) = Some (v, c @ 125 # r)"
      using 7(1) [OF Cons kv [symmetric] bc(1) t(3) ends_items [OF bc(2)] n(2)] by simp
    have tl: "items_tail m [(k, v)] (c @ 125 # r) = Some (VDict d, r)"
      using 7(2) [OF Cons kv [symmetric] bc(2) t(4) n(3), of "[(k, v)]"] t(5) Cons kv by auto
    have "opens b" using opens_dumps bc(1) t(3) .
    then have "jitems (Suc m) [] (json_string t @ 58 # 32 # b @ c @ 125 # r) = Some (VDict d, r)"
      using jitems_value [OF t(2) v opens_skip, of "[]"] tl t(1) by simp
    then show ?thesis
      by (simp add: n bc(3) json_string_def skip_ws_id del: jitems.simps)
  qed
next
  case 8
  then show ?case by (simp add: elems_tail_def skip_ws_id)
next
  case (9 x xs)
  from 9(3) obtain a b where ab: "dumps x = Some a" "dumps_elems xs = Some b" "s = 44 # 32 # a @ b"
    by (auto split: option.splits)
  with 9(5) obtain m where n: "n = Suc m" "2 * length a < m" "2 * length b \<le> m" by (cases n) auto
  have ok: "json_ok x" "list_all json_ok xs" using 9(4) by auto
  have "jvalue m (a @ b @ 93 # r) = Some (x, b @ 93 # r)"
    using 9(1) [OF ab(1) ok(1) ends_elems [OF ab(2)] n(2)] by simp
  then have "jelems n acc (a @ b @ 93 # r) = elems_tail m (acc @ [x]) (b @ 93 # r)"
    unfolding n by (rule jelems_value)
  moreover have "skip_ws (a @ b @ 93 # r) = a @ b @ 93 # r"
    using opens_skip opens_dumps ab(1) ok(1) by blast
  ultimately show ?case
    using 9(2) [OF ab(2) ok(2) n(3), of "acc @ [x]"]
    by (simp add: elems_tail_def [of n] ab(3) skip_ws_id del: jelems.simps)
next
  case 10
  then show ?case by (simp add: items_tail_def skip_ws_id)
next
  case (11 k v xs)
  then obtain t where t: "k = VStr t" "list_all is_scalar t" "json_ok v" "json_ok_items xs"
    "k \<notin> fst ` set xs" by (auto split: pyval.splits)
  with 11(3) obtain b c where bc: "dumps v = Some b" "dumps_items xs = Some c"
    "s = 44 # 32 # json_string t @ [58, 32] @ b @ c" by (auto split: option.splits)
  with 11(5) obtain m where n: "n = Suc m" "2 * length b < m" "2 * length c \<le> m" by (cases n) auto
  have v: "jvalue m (b @ c @ 125 # r) = Some (v, c @ 125 # r)"
    using 11(1) [OF bc(1) t(3) ends_items [OF bc(2)] n(2)] by simp
  have fresh: "VStr t \<notin> fst ` set acc'" using 11(6) t(1) by auto
  have "opens b" using opens_dumps bc(1) t(3) .
  then have "jitems n acc' (json_string t @ 58 # 32 # b @ c @ 125 # r)
      = items_tail m (acc' @ [(k, v)]) (c @ 125 # r)"
    unfolding n using jitems_value [OF t(2) v opens_skip fresh] t(1) by simp
  moreover have "items_tail m (acc' @ [(k, v)]) (c @ 125 # r) = Some (VDict (acc' @ (k, v) # xs), r)"
    using 11(2) [OF bc(2) t(4) n(3), of "acc' @ [(k, v)]"] 11(6) t(5) by auto
  ultimately show ?case
    by (simp add: items_tail_def [of n] bc(3) json_string_def skip_ws_id del: jitems.simps)
qed

lemma loads_dumps:
  assumes "dumps v = Some s" and "json_ok v"
  shows "loads s = Some v"
proof -
  have "jvalue (Suc (2 * length s)) (s @ []) = Some (v, [])"
    by (rule dumps_read(1) [OF assms]) (simp_all add: ends_value_def)
  moreover have "skip_ws s = s" using opens_skip [of s "[]"] opens_dumps [OF assms] by simp
  moreover have "\<not> prefix [65279] s"
    using opens_dumps [OF assms] by (cases s) (auto simp: opens_def)
  ultimately show ?thesis by (simp add: loads_def skip_ws_def)
qed

end
