(* ===== verification/Validators.thy ===== *)
theory Validators
  imports Domain
begin

text \<open>
  \<open>app/detection/validators.py\<close>: the checksum and date validators.  \<open>today\<close> is the result of
  \<open>date.today()\<close>.  \<open>int(ch)\<close> of a digit that is not decimal raises \<open>ValueError\<close>, so the
  checksums return in the exception sum.  The directives of \<open>strptime\<close> are the alternatives of
  the standard library's patterns, tried in order.
\<close>

section \<open>Definitions\<close>

definition digits :: "ucd \<Rightarrow> pystr \<Rightarrow> pystr" where
  "digits U s = filter (is_digit U) s"

text \<open>\<open>int(ch)\<close>\<close>

definition int_char :: "ucd \<Rightarrow> codepoint \<Rightarrow> exn + int" where
  "int_char U c = (case digit_value U c of None \<Rightarrow> Inl ValueError | Some d \<Rightarrow> Inr (int d))"

subsection \<open>Checksums\<close>

text \<open>The body of the loop of \<open>luhn\<close> for the digit at position \<open>i\<close> of the reversed number\<close>

definition luhn_digit :: "nat \<Rightarrow> int \<Rightarrow> int" where
  "luhn_digit i d0 =
     (if i mod 2 = 1 then (let d = d0 * 2 in if d > 9 then d - 9 else d) else d0)"

definition luhn_step :: "ucd \<Rightarrow> int \<Rightarrow> nat \<times> codepoint \<Rightarrow> exn + int" where
  "luhn_step U tot ich =
     (case ich of (i, ch) \<Rightarrow> ebind (int_char U ch) (\<lambda>d. Inr (tot + luhn_digit i d)))"

definition luhn :: "ucd \<Rightarrow> pystr \<Rightarrow> exn + bool" where
  "luhn U s =
     (let num = digits U s in
      if \<not> (13 \<le> length num \<and> length num \<le> 19) then Inr False
      else ebind (efold (luhn_step U) 0 (enumerate 0 (rev num))) (\<lambda>tot.
             Inr (tot mod 10 = 0)))"

text \<open>\<open>sum(int(num[i]) * weights[i] for i in range(len(weights))) % 11 % 10\<close>\<close>

definition weighted_check :: "ucd \<Rightarrow> int list \<Rightarrow> pystr \<Rightarrow> exn + int" where
  "weighted_check U weights num =
     ebind (efold (\<lambda>acc (w, ch). ebind (int_char U ch) (\<lambda>d. Inr (acc + d * w))) 0 (zip weights num))
       (\<lambda>tot. Inr (tot mod 11 mod 10))"

definition inn_checksum :: "ucd \<Rightarrow> pystr \<Rightarrow> exn + bool" where
  "inn_checksum U s =
     (let num = digits U s in
      if length num = 10 then
        ebind (weighted_check U [2, 4, 10, 3, 5, 9, 4, 6, 8] num) (\<lambda>check.
        ebind (int_char U (num ! 9)) (\<lambda>d. Inr (check = d)))
      else if length num = 12 then
        ebind (weighted_check U [7, 2, 4, 10, 3, 5, 9, 4, 6, 8] num) (\<lambda>check_1.
        ebind (weighted_check U [3, 7, 2, 4, 10, 3, 5, 9, 4, 6, 8] num) (\<lambda>check_2.
        ebind (int_char U (num ! 10)) (\<lambda>d1.
        if check_1 \<noteq> d1 then Inr False
        else ebind (int_char U (num ! 11)) (\<lambda>d2. Inr (check_2 = d2)))))
      else Inr False)"

subsection \<open>Dates\<close>

type_synonym date = "int \<times> int \<times> int"

definition leap_year :: "int \<Rightarrow> bool" where
  "leap_year y = (y mod 4 = 0 \<and> (y mod 100 \<noteq> 0 \<or> y mod 400 = 0))"

definition days_in_month :: "int \<Rightarrow> int \<Rightarrow> int" where
  "days_in_month y m =
     (if m = 2 then (if leap_year y then 29 else 28) else if m \<in> {4, 6, 9, 11} then 30 else 31)"

definition valid_date :: "date \<Rightarrow> bool" where
  "valid_date = (\<lambda>(y, m, d). 1 \<le> y \<and> y \<le> 9999 \<and> 1 \<le> m \<and> m \<le> 12 \<and> 1 \<le> d \<and> d \<le> days_in_month y m)"

text \<open>
  \<open>date(y, m, d)\<close>: \<open>ValueError\<close> outside the calendar, \<open>OverflowError\<close> when an argument does not
  fit a C \<open>int\<close>.
\<close>

definition fits_c_int :: "int \<Rightarrow> bool" where
  "fits_c_int i = (- 2147483648 \<le> i \<and> i \<le> 2147483647)"

definition make_date :: "int \<Rightarrow> int \<Rightarrow> int \<Rightarrow> exn + date" where
  "make_date y m d =
     (if \<not> (fits_c_int y \<and> fits_c_int m \<and> fits_c_int d) then Inl OverflowError
      else if valid_date (y, m, d) then Inr (y, m, d) else Inl ValueError)"

text \<open>
  The directives: each returns the possible matches at the head of the text, in the order of the
  alternatives \<open>3[0-1] | [1-2]\d | 0[1-9] | [1-9] | \<close> blank \<open>[1-9]\<close> of \<open>%d\<close>,
  \<open>1[0-2] | 0[1-9] | [1-9]\<close> of \<open>%m\<close>, and four digits of \<open>%Y\<close>.
\<close>

definition in_range :: "char \<Rightarrow> char \<Rightarrow> codepoint \<Rightarrow> bool" where
  "in_range a b c = (of_char a \<le> c \<and> c \<le> of_char b)"

definition dval :: "ucd \<Rightarrow> codepoint \<Rightarrow> int" where
  "dval U c = (case digit_value U c of None \<Rightarrow> 0 | Some d \<Rightarrow> int d)"

definition pair_if :: "ucd \<Rightarrow> (codepoint \<Rightarrow> bool) \<Rightarrow> (codepoint \<Rightarrow> bool) \<Rightarrow> pystr \<Rightarrow> (int \<times> pystr) list" where
  "pair_if U P Q s =
     (case s of a # b # r \<Rightarrow> (if P a \<and> Q b then [(10 * dval U a + dval U b, r)] else []) | _ \<Rightarrow> [])"

definition single_if :: "ucd \<Rightarrow> (codepoint \<Rightarrow> bool) \<Rightarrow> pystr \<Rightarrow> (int \<times> pystr) list" where
  "single_if U P s = (case s of a # r \<Rightarrow> (if P a then [(dval U a, r)] else []) | _ \<Rightarrow> [])"

definition pct_d :: "ucd \<Rightarrow> pystr \<Rightarrow> (int \<times> pystr) list" where
  "pct_d U s =
     pair_if U (in_range (CHR ''3'') (CHR ''3'')) (in_range (CHR ''0'') (CHR ''1'')) s
     @ pair_if U (in_range (CHR ''1'') (CHR ''2'')) (is_decimal U) s
     @ pair_if U (in_range (CHR ''0'') (CHR ''0'')) (in_range (CHR ''1'') (CHR ''9'')) s
     @ single_if U (in_range (CHR ''1'') (CHR ''9'')) s
     @ pair_if U (in_range (CHR '' '') (CHR '' '')) (in_range (CHR ''1'') (CHR ''9'')) s"

definition pct_m :: "ucd \<Rightarrow> pystr \<Rightarrow> (int \<times> pystr) list" where
  "pct_m U s =
     pair_if U (in_range (CHR ''1'') (CHR ''1'')) (in_range (CHR ''0'') (CHR ''2'')) s
     @ pair_if U (in_range (CHR ''0'') (CHR ''0'')) (in_range (CHR ''1'') (CHR ''9'')) s
     @ single_if U (in_range (CHR ''1'') (CHR ''9'')) s"

definition pct_Y :: "ucd \<Rightarrow> pystr \<Rightarrow> (int \<times> pystr) list" where
  "pct_Y U s =
     (case s of a # b # c # d # r \<Rightarrow>
        (if is_decimal U a \<and> is_decimal U b \<and> is_decimal U c \<and> is_decimal U d
         then [(1000 * dval U a + 100 * dval U b + 10 * dval U c + dval U d, r)] else [])
      | _ \<Rightarrow> [])"

definition pct_sep :: "codepoint \<Rightarrow> pystr \<Rightarrow> pystr list" where
  "pct_sep c s = (case s of a # r \<Rightarrow> (if a = c then [r] else []) | _ \<Rightarrow> [])"

text \<open>The three formats: the first match, which must reach the end of the text\<close>

definition first_full :: "(date \<times> pystr) list \<Rightarrow> exn + date" where
  "first_full ms =
     (case ms of [] \<Rightarrow> Inl ValueError
      | ((y, m, d), r) # _ \<Rightarrow> if r \<noteq> [] then Inl ValueError else make_date y m d)"

definition strptime_dmY :: "ucd \<Rightarrow> codepoint \<Rightarrow> pystr \<Rightarrow> exn + date" where
  "strptime_dmY U c s =
     first_full [((y, m, d), r5). (d, r1) \<leftarrow> pct_d U s, r2 \<leftarrow> pct_sep c r1, (m, r3) \<leftarrow> pct_m U r2,
                                  r4 \<leftarrow> pct_sep c r3, (y, r5) \<leftarrow> pct_Y U r4]"

definition strptime_Ymd :: "ucd \<Rightarrow> codepoint \<Rightarrow> pystr \<Rightarrow> exn + date" where
  "strptime_Ymd U c s =
     first_full [((y, m, d), r5). (y, r1) \<leftarrow> pct_Y U s, r2 \<leftarrow> pct_sep c r1, (m, r3) \<leftarrow> pct_m U r2,
                                  r4 \<leftarrow> pct_sep c r3, (d, r5) \<leftarrow> pct_d U r4]"

text \<open>
  \<open>int(s)\<close> of a word without blanks: a sign, then decimal digits with single underscores
  between them, at most 4300 digits; \<open>None\<close> is \<open>ValueError\<close>.
\<close>

fun int_digits :: "ucd \<Rightarrow> pystr \<Rightarrow> nat list option" where
  "int_digits U [] = None"
| "int_digits U [c] = map_option (\<lambda>d. [d]) (digit_value U c)"
| "int_digits U (c # x # cs) =
     (case digit_value U c of None \<Rightarrow> None
      | Some d \<Rightarrow> map_option (Cons d) (if x = 95 then int_digits U cs else int_digits U (x # cs)))"

definition int_word :: "ucd \<Rightarrow> pystr \<Rightarrow> int option" where
  "int_word U s =
     (let (neg, body) = (case s of c # r \<Rightarrow> if c = 45 then (True, r) else if c = 43 then (False, r)
                                          else (False, s) | [] \<Rightarrow> (False, s))
      in case int_digits U body of None \<Rightarrow> None
         | Some ds \<Rightarrow> if length ds > 4300 then None
                      else let n = foldl (\<lambda>n d. 10 * n + int d) 0 ds
                           in Some (if neg then - n else n))"

definition months :: "(pystr \<times> int) list" where
  "months =
    [(ru ''qnwarq'', 1), (ru ''fewralq'', 2), (ru ''marta'', 3), (ru ''aprelq'', 4),
     (ru ''maq'', 5), (ru ''i@nq'', 6), (ru ''i@lq'', 7), (ru ''awgusta'', 8),
     (ru ''sentqbrq'', 9), (ru ''oktqbrq'', 10), (ru ''noqbrq'', 11), (ru ''dekabrq'', 12)]"

definition parse_date :: "ucd \<Rightarrow> pystr \<Rightarrow> exn + date option" where
  "parse_date U s =
     (let txt = str_strip U s;
          words = (let parts = str_split U txt in
            case parts of
              [day, month_name, year] \<Rightarrow>
                (case map_of months (str_lower U month_name) of
                   None \<Rightarrow> Inr None
                 | Some month \<Rightarrow>
                     (case (int_word U year, int_word U day) of
                        (Some y, Some d) \<Rightarrow>
                          (case make_date y month d of
                             Inr dt \<Rightarrow> Inr (Some dt)
                           | Inl ValueError \<Rightarrow> Inr None
                           | Inl e \<Rightarrow> Inl e)
                      | _ \<Rightarrow> Inr None))
            | _ \<Rightarrow> Inr None)
      in case strptime_dmY U 46 txt of
           Inr dt \<Rightarrow> Inr (Some dt)
         | Inl _ \<Rightarrow>
             (case strptime_dmY U 47 txt of
                Inr dt \<Rightarrow> Inr (Some dt)
              | Inl _ \<Rightarrow> (case strptime_Ymd U 45 txt of Inr dt \<Rightarrow> Inr (Some dt) | Inl _ \<Rightarrow> words)))"

definition date_lt :: "date \<Rightarrow> date \<Rightarrow> bool" where
  "date_lt a b =
     (case a of (y, m, d) \<Rightarrow> case b of (y', m', d') \<Rightarrow>
        y < y' \<or> y = y' \<and> (m < m' \<or> m = m' \<and> d < d'))"

definition is_birth_date :: "ucd \<Rightarrow> date \<Rightarrow> pystr \<Rightarrow> exn + bool" where
  "is_birth_date U today s =
     ebind (parse_date U s) (\<lambda>p.
       case p of
         None \<Rightarrow> Inr False
       | Some parsed \<Rightarrow>
           if \<not> date_lt parsed today then Inr False
           else (case today of (ty, tm, td) \<Rightarrow> case parsed of (py, pm, pd) \<Rightarrow>
                   let age = ty - py - (if tm < pm \<or> tm = pm \<and> td < pd then 1 else 0)
                   in Inr (age \<le> 120)))"

section \<open>The Luhn sum\<close>

fun luhn_sum :: "nat \<Rightarrow> int list \<Rightarrow> int" where
  "luhn_sum i [] = 0"
| "luhn_sum i (d # ds) = luhn_digit i d + luhn_sum (Suc i) ds"

lemma luhn_sum_append: "luhn_sum i (xs @ ys) = luhn_sum i xs + luhn_sum (i + length xs) ys"
  by (induction xs arbitrary: i) auto

lemma int_char_Inr: "int_char U c = Inr d \<longleftrightarrow> is_decimal U c \<and> d = dval U c"
  by (auto simp: int_char_def dval_def digit_value_decimal [symmetric] split: option.splits)

lemma dval_range: "0 \<le> dval U c \<and> dval U c \<le> 9"
  using digit_value_less [of U c] by (fastforce simp: dval_def split: option.splits)

lemma luhn_fold:
  "efold (luhn_step U) t (enumerate i cs) = Inr u \<longleftrightarrow>
   (\<forall>c \<in> set cs. is_decimal U c) \<and> u = t + luhn_sum i (map (dval U) cs)"
  by (induction cs arbitrary: i t)
    (auto simp: luhn_step_def ebind_eq_Inr int_char_Inr)

lemma luhn_Inr:
  "luhn U s = Inr b \<longleftrightarrow>
   (if 13 \<le> length (digits U s) \<and> length (digits U s) \<le> 19
    then (\<forall>c \<in> set (digits U s). is_decimal U c) \<and>
         b = (luhn_sum 0 (map (dval U) (rev (digits U s))) mod 10 = 0)
    else b = False)"
  by (auto simp: luhn_def Let_def ebind_eq_Inr luhn_fold)

lemma luhn_digit_range: "0 \<le> d \<Longrightarrow> d \<le> 9 \<Longrightarrow> 0 \<le> luhn_digit i d \<and> luhn_digit i d \<le> 9"
  by (simp add: luhn_digit_def Let_def)

lemma mod10_cancel: "0 \<le> x \<Longrightarrow> x \<le> 9 \<Longrightarrow> 0 \<le> y \<Longrightarrow> y \<le> 9 \<Longrightarrow> (x - y) mod 10 = 0 \<Longrightarrow> x = y"
  for x :: int
  by presburger

lemma luhn_digit_inj:
  assumes "0 \<le> d" "d \<le> 9" "0 \<le> e" "e \<le> 9" "(luhn_digit i d - luhn_digit i e) mod 10 = 0"
  shows "d = e"
proof -
  note r = luhn_digit_range [OF assms(1,2), of i] luhn_digit_range [OF assms(3,4), of i]
  have eq: "luhn_digit i d = luhn_digit i e"
    by (rule mod10_cancel [OF r(1) [THEN conjunct1] r(1) [THEN conjunct2]
          r(2) [THEN conjunct1] r(2) [THEN conjunct2] assms(5)])
  show ?thesis
  proof (cases "i mod 2 = 1")
    case True
    have "luhn_digit i x = (if 4 < x then 2 * x - 9 else 2 * x)" for x
      using True by (simp only: luhn_digit_def Let_def if_True) simp
    with eq have "(if 4 < d then 2 * d - 9 else 2 * d) = (if 4 < e then 2 * e - 9 else 2 * e)"
      by simp
    moreover have "2 * d - 9 \<noteq> 2 * e" "2 * e - 9 \<noteq> 2 * d" by presburger+
    ultimately show ?thesis by (simp split: if_split_asm)
  next
    case False
    then have "luhn_digit i x = x" for x by (simp only: luhn_digit_def if_False)
    with eq show ?thesis by simp
  qed
qed

lemma diff_mod10:
  "(b + x + a) mod 10 = 0 \<Longrightarrow> (b + y + a) mod 10 = 0 \<Longrightarrow> (x - y) mod 10 = 0" for x :: int
  using dvd_diff [of 10 "b + x + a" "b + y + a"] by (simp add: mod_eq_0_iff_dvd)

section \<open>Formatting a date\<close>

definition two_digits :: "int \<Rightarrow> pystr" where
  "two_digits n = [48 + nat (n div 10), 48 + nat (n mod 10)]"

definition four_digits :: "int \<Rightarrow> pystr" where
  "four_digits n =
     [48 + nat (n div 1000), 48 + nat (n div 100 mod 10), 48 + nat (n div 10 mod 10),
      48 + nat (n mod 10)]"

text \<open>\<open>strftime("%d.%m.%Y")\<close>\<close>

definition format_date :: "date \<Rightarrow> pystr" where
  "format_date dt = (case dt of (y, m, d) \<Rightarrow> two_digits d @ [46] @ two_digits m @ [46] @ four_digits y)"

lemma ascii_digit [simp]:
  "0 \<le> n \<Longrightarrow> n < 10 \<Longrightarrow> is_decimal U (48 + nat n)"
  "0 \<le> n \<Longrightarrow> n < 10 \<Longrightarrow> dval U (48 + nat n) = n"
  "0 \<le> n \<Longrightarrow> n < 10 \<Longrightarrow> \<not> is_space U (48 + nat n)"
  by (auto simp: char_class_defs dval_def class_of_def ascii_class_def nat_less_iff)

lemma dval_lits [simp]:
  "dval U 48 = 0" "dval U 49 = 1" "dval U 50 = 2" "dval U 51 = 3"
  by (simp_all add: dval_def char_class_defs class_of_def ascii_class_def)

lemma pct_d_two:
  assumes "1 \<le> d" "d \<le> 31"
  shows "\<exists>ms. pct_d U (two_digits d @ r) = (d, r) # ms"
proof -
  define t u where tu: "t = d div 10" "u = d mod 10"
  have d: "d = 10 * t + u" "0 \<le> u" "u < 10" by (simp_all add: tu)
  with assms consider "t = 0" "1 \<le> u" | "t = 1" | "t = 2" | "t = 3" "u \<le> 1" by force
  then show ?thesis
    using d(2,3) unfolding two_digits_def tu [symmetric]
    by cases (auto simp: pct_d_def pair_if_def in_range_def d(1) le_nat_iff nat_le_iff)
qed

lemma pct_m_two:
  assumes "1 \<le> m" "m \<le> 12"
  shows "\<exists>ms. pct_m U (two_digits m @ r) = (m, r) # ms"
proof -
  define t u where tu: "t = m div 10" "u = m mod 10"
  have m: "m = 10 * t + u" "0 \<le> u" "u < 10" by (simp_all add: tu)
  with assms consider "t = 0" "1 \<le> u" | "t = 1" "u \<le> 2" by force
  then show ?thesis
    using m(2,3) unfolding two_digits_def tu [symmetric]
    by cases (auto simp: pct_m_def pair_if_def in_range_def m(1) le_nat_iff nat_le_iff)
qed

lemma pct_Y_digits:
  "0 \<le> a \<Longrightarrow> a < 10 \<Longrightarrow> 0 \<le> b \<Longrightarrow> b < 10 \<Longrightarrow> 0 \<le> c \<Longrightarrow> c < 10 \<Longrightarrow> 0 \<le> d \<Longrightarrow> d < 10 \<Longrightarrow>
   pct_Y U ([48 + nat a, 48 + nat b, 48 + nat c, 48 + nat d] @ r)
     = [(1000 * a + 100 * b + 10 * c + d, r)]"
  by (simp add: pct_Y_def)

lemma pct_Y_four:
  assumes "0 \<le> y" "y \<le> 9999"
  shows "pct_Y U (four_digits y @ r) = [(y, r)]"
proof -
  have "y div 1000 < 10" "0 \<le> y div 1000" using assms by auto
  then have "pct_Y U (four_digits y @ r)
      = [(1000 * (y div 1000) + 100 * (y div 100 mod 10) + 10 * (y div 10 mod 10) + y mod 10, r)]"
    unfolding four_digits_def by (intro pct_Y_digits) simp_all
  moreover have "1000 * (y div 1000) + 100 * (y div 100 mod 10) + 10 * (y div 10 mod 10) + y mod 10 = y"
  proof -
    have d: "y div 100 = y div 10 div 10" "y div 1000 = y div 100 div 10"
      by (simp_all add: zdiv_zmult2_eq [symmetric])
    show ?thesis
      using mult_div_mod_eq [of 10 y] mult_div_mod_eq [of 10 "y div 10", folded d(1)]
        mult_div_mod_eq [of 10 "y div 100", folded d(2)] by linarith
  qed
  ultimately show ?thesis by (simp only:)
qed

lemma valid_date_fits: "valid_date (y, m, d) \<Longrightarrow> make_date y m d = Inr (y, m, d)"
  by (auto simp: make_date_def valid_date_def fits_c_int_def days_in_month_def split: if_splits)

lemma strptime_format:
  assumes "valid_date dt"
  shows "strptime_dmY U 46 (format_date dt) = Inr dt"
proof -
  obtain y m d where dt: "dt = (y, m, d)" by (cases dt)
  with assms have b: "1 \<le> d" "d \<le> 31" "1 \<le> m" "m \<le> 12" "0 \<le> y" "y \<le> 9999"
    by (auto simp: valid_date_def days_in_month_def split: if_splits)
  obtain ds where ds: "pct_d U (two_digits d @ 46 # two_digits m @ 46 # four_digits y)
      = (d, 46 # two_digits m @ 46 # four_digits y) # ds"
    using pct_d_two [OF b(1,2)] by blast
  obtain ms where ms: "pct_m U (two_digits m @ 46 # four_digits y) = (m, 46 # four_digits y) # ms"
    using pct_m_two [OF b(3,4)] by blast
  show ?thesis
    using pct_Y_four [OF b(5,6), of U "[]"] assms valid_date_fits
    by (simp add: strptime_dmY_def format_date_def dt ds ms pct_sep_def first_full_def)
qed

lemma strip_format:
  assumes "valid_date dt"
  shows "str_strip U (format_date dt) = format_date dt"
proof -
  obtain y m d where dt: "dt = (y, m, d)" by (cases dt)
  with assms have "0 \<le> d div 10" "d div 10 < 10"
    by (auto simp: valid_date_def days_in_month_def split: if_splits)
  then show ?thesis
    by (simp add: str_strip_def rstrip_by_def format_date_def dt two_digits_def four_digits_def)
qed

section \<open>Properties\<close>

text \<open>
  C12: The Luhn check detects every single wrong digit: when a number is accepted and one of its
  digits is replaced by a digit of another value, the result is rejected.
\<close>

theorem luhn_detects_wrong_digit:
  assumes "luhn U (a @ c # b) = Inr True"
    and "is_decimal U c" and "is_decimal U c'" and "digit_value U c \<noteq> digit_value U c'"
  shows "luhn U (a @ c' # b) = Inr False"
proof -
  let ?n = "length (digits U b)" and ?v = "dval U"
  let ?B = "luhn_sum 0 (map ?v (rev (digits U b)))"
  let ?A = "luhn_sum (Suc ?n) (map ?v (rev (digits U a)))"
  have dg: "digits U (a @ x # b) = digits U a @ x # digits U b" if "is_decimal U x" for x
    using that decimal_digit by (simp add: digits_def)
  have sum: "luhn_sum 0 (map ?v (rev (digits U (a @ x # b)))) = ?B + luhn_digit ?n (?v x) + ?A"
    if "is_decimal U x" for x
    using dg [OF that] by (simp add: luhn_sum_append)
  have "?v c \<noteq> ?v c'"
    using assms(2-4) by (auto simp: dval_def digit_value_decimal [symmetric])
  then have ne: "(luhn_digit ?n (?v c) - luhn_digit ?n (?v c')) mod 10 \<noteq> 0"
    using luhn_digit_inj dval_range by metis
  let ?c = "digits U (a @ c # b)" and ?c' = "digits U (a @ c' # b)"
  from assms(1) have len: "13 \<le> length ?c" "length ?c \<le> 19"
    and dec: "\<forall>x \<in> set ?c. is_decimal U x"
    and "luhn_sum 0 (map ?v (rev ?c)) mod 10 = 0"
    by (simp_all add: luhn_Inr split: if_splits)
  then have ok: "(?B + luhn_digit ?n (?v c) + ?A) mod 10 = 0"
    using sum [OF assms(2)] by simp
  have "(?B + luhn_digit ?n (?v c') + ?A) mod 10 \<noteq> 0"
  proof
    assume "(?B + luhn_digit ?n (?v c') + ?A) mod 10 = 0"
    from diff_mod10 [OF ok this] ne show False by contradiction
  qed
  moreover have "13 \<le> length ?c'" "length ?c' \<le> 19" "\<forall>x \<in> set ?c'. is_decimal U x"
    using len dec assms(3) unfolding dg [OF assms(2)] dg [OF assms(3)] by auto
  ultimately show ?thesis
    unfolding luhn_Inr sum [OF assms(3)] by simp
qed

text \<open>\<open>parse_date\<close> reads back every date of the calendar printed as \<open>%d.%m.%Y\<close>.\<close>

theorem parse_date_format:
  assumes "valid_date dt"
  shows "parse_date U (format_date dt) = Inr (Some dt)"
  using strptime_format [OF assms] strip_format [OF assms]
  by (simp add: parse_date_def Let_def)

text \<open>
  A date is accepted as a birth date exactly when it parses to a day before today on which a
  person of at most 120 completed years was born, that is, a day after the day 121 years ago.
\<close>

theorem is_birth_date_exact:
  "is_birth_date U (ty, tm, td) s = Inr True \<longleftrightarrow>
   (\<exists>dt. parse_date U s = Inr (Some dt) \<and> date_lt dt (ty, tm, td) \<and> date_lt (ty - 121, tm, td) dt)"
proof (cases "parse_date U s")
  case (Inr p)
  then show ?thesis
  proof (cases p)
    case (Some dt)
    obtain py pm pd where dt: "dt = (py, pm, pd)" by (cases dt)
    have "is_birth_date U (ty, tm, td) s = Inr True \<longleftrightarrow>
        date_lt dt (ty, tm, td) \<and>
        ty - py - (if tm < pm \<or> tm = pm \<and> td < pd then 1 else 0) \<le> 120"
      by (simp add: is_birth_date_def Inr Some dt Let_def)
    also have "\<dots> \<longleftrightarrow> date_lt dt (ty, tm, td) \<and> date_lt (ty - 121, tm, td) dt"
      by (auto simp: date_lt_def dt)
    finally show ?thesis by (simp add: Inr Some)
  qed (simp add: is_birth_date_def)
qed (simp add: is_birth_date_def)

section \<open>Examples\<close>

lemmas luhn_eval =
  luhn_Inr digits_def lit_def luhn_digit_def Let_def dval_def char_class_defs class_of_def ascii_class_def

lemma luhn_4111: "luhn U (lit ''411111111111111'' @ 49 # []) = Inr True"
  by (simp add: luhn_eval)

theorem luhn_detects_wrong_digit_witness: "luhn ucd_ru (lit ''411111111111111'' @ 50 # []) = Inr False"
proof -
  have "is_decimal ucd_ru 49" "is_decimal ucd_ru 50" "digit_value ucd_ru 49 \<noteq> digit_value ucd_ru 50"
    by (simp_all add: char_class_defs class_of_def ascii_class_def)
  from luhn_detects_wrong_digit [OF luhn_4111 this] show ?thesis .
qed

theorem parse_date_format_witness: "parse_date ucd_ru (lit ''29.02.2000'') = Inr (Some (2000, 2, 29))"
proof -
  have v: "valid_date (2000, 2, 29)"
    by (simp add: valid_date_def days_in_month_def leap_year_def)
  from parse_date_format [OF v] show ?thesis
    by (simp add: format_date_def two_digits_def four_digits_def lit_def)
qed

text \<open>
  A card number written with a digit that is not decimal (a superscript) makes the validator
  raise instead of answering: \<open>isdigit\<close> keeps the character and \<open>int\<close> refuses it.
\<close>

theorem luhn_raises_on_superscript:
  "luhn ucd_ru (lit ''411111111111111'' @ [178]) = Inl ValueError"
  by (simp add: luhn_def luhn_step_def digits_def int_char_def lit_def char_class_defs
      class_of_def ascii_class_def ucd_ru_def ru_class_def Let_def)

end
