(* ===== verification/Restoration.thy ===== *)
theory Restoration
  imports Json Validators
begin

text \<open>
  \<open>app/restoration/models.py\<close> and the encryption layer both stores share: the restoration state,
  its JSON form, and the Fernet-encrypted record.  All times the code creates are in UTC.
  \<open>fromisoformat\<close> is modelled on the texts \<open>isoformat\<close> produces for such times.  Fernet is a
  parameter: an encryption that may depend on a nonce, and a decryption that may refuse.
\<close>

section \<open>Definitions\<close>

subsection \<open>Times\<close>

record datetime =
  d_date :: date
  d_hour :: int
  d_minute :: int
  d_second :: int
  d_micro :: int

definition valid_datetime :: "datetime \<Rightarrow> bool" where
  "valid_datetime t = (valid_date (d_date t) \<and> 0 \<le> d_hour t \<and> d_hour t < 24 \<and> 0 \<le> d_minute t
     \<and> d_minute t < 60 \<and> 0 \<le> d_second t \<and> d_second t < 60 \<and> 0 \<le> d_micro t \<and> d_micro t < 1000000)"

text \<open>\<open>"%0wd" % n\<close>\<close>

fun zfill :: "nat \<Rightarrow> int \<Rightarrow> pystr" where
  "zfill 0 n = []"
| "zfill (Suc w) n = zfill w (n div 10) @ [48 + nat (n mod 10)]"

definition isoformat :: "datetime \<Rightarrow> pystr" where
  "isoformat t =
     (case d_date t of (y, m, d) \<Rightarrow>
        zfill 4 y @ [45] @ zfill 2 m @ [45] @ zfill 2 d @ [84] @ zfill 2 (d_hour t) @ [58]
        @ zfill 2 (d_minute t) @ [58] @ zfill 2 (d_second t)
        @ (if d_micro t = 0 then [] else [46] @ zfill 6 (d_micro t)) @ lit ''+00:00'')"

definition read_digits :: "nat \<Rightarrow> pystr \<Rightarrow> (int \<times> pystr) option" where
  "read_digits w s =
     (if length (take w s) = w \<and> list_all is_dig (take w s) then Some (digits_val (take w s), drop w s)
      else None)"

definition expect :: "pystr \<Rightarrow> pystr \<Rightarrow> pystr option" where
  "expect p s = (if prefix p s then Some (drop (length p) s) else None)"

definition read_micro :: "pystr \<Rightarrow> (int \<times> pystr) option" where
  "read_micro s = (case expect [46] s of None \<Rightarrow> Some (0, s) | Some r \<Rightarrow> read_digits 6 r)"

definition fromisoformat :: "pystr \<Rightarrow> datetime option" where
  "fromisoformat s =
     Option.bind (read_digits 4 s) (\<lambda>(y, s). Option.bind (expect [45] s) (\<lambda>s.
     Option.bind (read_digits 2 s) (\<lambda>(m, s). Option.bind (expect [45] s) (\<lambda>s.
     Option.bind (read_digits 2 s) (\<lambda>(d, s). Option.bind (expect [84] s) (\<lambda>s.
     Option.bind (read_digits 2 s) (\<lambda>(h, s). Option.bind (expect [58] s) (\<lambda>s.
     Option.bind (read_digits 2 s) (\<lambda>(mi, s). Option.bind (expect [58] s) (\<lambda>s.
     Option.bind (read_digits 2 s) (\<lambda>(sec, s). Option.bind (read_micro s) (\<lambda>(us, s).
       (let t = \<lparr>d_date = (y, m, d), d_hour = h, d_minute = mi, d_second = sec, d_micro = us\<rparr>
        in if s = lit ''+00:00'' \<and> valid_datetime t then Some t else None)))))))))))))"

subsection \<open>The state\<close>

record rstate =
  rs_payload_id :: pystr
  rs_original_hash :: pystr
  rs_original_text :: pystr
  rs_masked_text :: pystr
  rs_mappings :: "(pystr \<times> pystr) list"
  rs_entity_count :: int
  rs_detected_types :: "pystr list"
  rs_state :: state_status
  rs_created_at :: datetime
  rs_expires_at :: "datetime option"
  rs_consumer_id :: pystr

text \<open>\<open>datetime\<close> values compare as tuples; \<open>expired\<close> reads the clock.\<close>

definition datetime_le :: "datetime \<Rightarrow> datetime \<Rightarrow> bool" where
  "datetime_le a b =
     (date_lt (d_date a) (d_date b) \<or> d_date a = d_date b \<and>
        ((d_hour a * 60 + d_minute a) * 60 + d_second a) * 1000000 + d_micro a
          \<le> ((d_hour b * 60 + d_minute b) * 60 + d_second b) * 1000000 + d_micro b)"

definition expired :: "datetime \<Rightarrow> rstate \<Rightarrow> bool" where
  "expired now st = (case rs_expires_at st of None \<Rightarrow> False | Some t \<Rightarrow> datetime_le t now)"

definition state_dict :: "rstate \<Rightarrow> (pyval \<times> pyval) list" where
  "state_dict st =
    [(VStr (lit ''payload_id''), VStr (rs_payload_id st)),
     (VStr (lit ''original_hash''), VStr (rs_original_hash st)),
     (VStr (lit ''original_text''), VStr (rs_original_text st)),
     (VStr (lit ''masked_text''), VStr (rs_masked_text st)),
     (VStr (lit ''mappings''), VList (map (\<lambda>(r, v). VList [VStr r, VStr v]) (rs_mappings st))),
     (VStr (lit ''entity_count''), VInt (rs_entity_count st)),
     (VStr (lit ''detected_types''), VList (map VStr (rs_detected_types st))),
     (VStr (lit ''state''), VStr (status_value (rs_state st))),
     (VStr (lit ''created_at''), VStr (isoformat (rs_created_at st))),
     (VStr (lit ''expires_at''),
        (case rs_expires_at st of None \<Rightarrow> VNone | Some t \<Rightarrow> VStr (isoformat t))),
     (VStr (lit ''consumer_id''), VStr (rs_consumer_id st))]"

definition to_json :: "rstate \<Rightarrow> exn + pystr" where
  "to_json st = (case dumps (VDict (state_dict st)) of None \<Rightarrow> Inl TypeError | Some s \<Rightarrow> Inr s)"

text \<open>
  Reading a record back.  \<open>cls(**data)\<close> refuses unknown and missing fields; a field of the wrong
  type, which \<open>to_json\<close> never writes, is refused here as well.
\<close>

fun as_str :: "pyval \<Rightarrow> exn + pystr" where
  "as_str (VStr s) = Inr s"
| "as_str _ = Inl TypeError"

fun as_int :: "pyval \<Rightarrow> exn + int" where
  "as_int (VInt i) = Inr i"
| "as_int _ = Inl TypeError"

fun as_list :: "pyval \<Rightarrow> exn + pyval list" where
  "as_list (VList xs) = Inr xs"
| "as_list _ = Inl TypeError"

fun as_pair :: "pyval \<Rightarrow> exn + pystr \<times> pystr" where
  "as_pair (VList [VStr a, VStr b]) = Inr (a, b)"
| "as_pair _ = Inl TypeError"

definition parse_time :: "pyval \<Rightarrow> exn + datetime" where
  "parse_time v = ebind (as_str v) (\<lambda>s. case fromisoformat s of None \<Rightarrow> Inl ValueError | Some t \<Rightarrow> Inr t)"

definition parse_status :: "pyval \<Rightarrow> exn + state_status" where
  "parse_status v =
     (case v of VStr s \<Rightarrow> (case RestorationStateStatus s of None \<Rightarrow> Inl ValueError | Some x \<Rightarrow> Inr x)
      | _ \<Rightarrow> Inl ValueError)"

definition field :: "(pyval \<times> pyval) list \<Rightarrow> string \<Rightarrow> exn + pyval" where
  "field d k = (case map_of d (VStr (lit k)) of None \<Rightarrow> Inl TypeError | Some v \<Rightarrow> Inr v)"

definition state_fields :: "pyval list" where
  "state_fields = map (\<lambda>k. VStr (lit k))
     [''payload_id'', ''original_hash'', ''original_text'', ''masked_text'', ''mappings'', ''entity_count'',
      ''detected_types'', ''state'', ''created_at'', ''expires_at'', ''consumer_id'']"

definition from_json :: "pystr \<Rightarrow> pystr \<Rightarrow> exn + rstate" where
  "from_json payload_id raw =
     (case loads raw of
        None \<Rightarrow> Inl ValueError
      | Some v \<Rightarrow>
          ebind (get_item v ''state'') (\<lambda>v1.
          ebind (parse_status v1) (\<lambda>status.
          ebind (get_item v ''created_at'') (\<lambda>v2.
          ebind (parse_time v2) (\<lambda>created.
          ebind (as_dict v) (\<lambda>d.
          ebind (let e = dict_get d ''expires_at'' VNone
                 in if truthy e then ebind (parse_time e) (\<lambda>t. Inr (Some t)) else Inr None) (\<lambda>expires.
          ebind (as_list (dict_get d ''mappings'' (VList []))) (\<lambda>pairs.
          ebind (emap as_pair pairs) (\<lambda>mappings.
          if \<not> list_all (\<lambda>kv. fst kv \<in> set state_fields) d then Inl TypeError
          else
          ebind (ebind (field d ''original_hash'') as_str) (\<lambda>original_hash.
          ebind (ebind (field d ''original_text'') as_str) (\<lambda>original_text.
          ebind (ebind (field d ''masked_text'') as_str) (\<lambda>masked_text.
          ebind (as_int (dict_get d ''entity_count'' (VInt 0))) (\<lambda>entity_count.
          ebind (as_list (dict_get d ''detected_types'' (VList []))) (\<lambda>types.
          ebind (emap as_str types) (\<lambda>detected_types.
          ebind (as_str (dict_get d ''consumer_id'' (VStr []))) (\<lambda>consumer_id.
            Inr \<lparr>rs_payload_id = payload_id, rs_original_hash = original_hash,
                 rs_original_text = original_text, rs_masked_text = masked_text,
                 rs_mappings = mappings, rs_entity_count = entity_count,
                 rs_detected_types = detected_types, rs_state = status, rs_created_at = created,
                 rs_expires_at = expires, rs_consumer_id = consumer_id\<rparr>))))))))))))))))"

subsection \<open>Encryption\<close>

text \<open>
  \<open>bytes.decode("utf-8")\<close>: \<open>None\<close> is the \<open>UnicodeDecodeError\<close>, a \<open>ValueError\<close>.  Sequences that are
  too long, surrogates and values beyond the last code point are refused.
\<close>

definition cont :: "byte \<Rightarrow> bool" where
  "cont b = (128 \<le> b \<and> b < 192)"

fun utf8_decode :: "byte list \<Rightarrow> pystr option" where
  "utf8_decode [] = Some []"
| "utf8_decode (a # r) =
     (if a < 128 then map_option (Cons a) (utf8_decode r)
      else if 194 \<le> a \<and> a < 224 then
        (case r of b # r' \<Rightarrow>
           (if cont b then map_option (Cons ((a - 192) * 64 + (b - 128))) (utf8_decode r') else None)
         | _ \<Rightarrow> None)
      else if 224 \<le> a \<and> a < 240 then
        (case r of b # c # r' \<Rightarrow>
           (let x = (a - 224) * 4096 + (b - 128) * 64 + (c - 128) in
            if cont b \<and> cont c \<and> x \<ge> 2048 \<and> is_scalar x
            then map_option (Cons x) (utf8_decode r') else None)
         | _ \<Rightarrow> None)
      else if 240 \<le> a \<and> a < 245 then
        (case r of b # c # d # r' \<Rightarrow>
           (let x = (a - 240) * 262144 + (b - 128) * 4096 + (c - 128) * 64 + (d - 128) in
            if cont b \<and> cont c \<and> cont d \<and> x \<ge> 65536 \<and> is_scalar x
            then map_option (Cons x) (utf8_decode r') else None)
         | _ \<Rightarrow> None)
      else None)"

record fernet =
  f_encrypt :: "nat \<Rightarrow> byte list \<Rightarrow> byte list"
  f_decrypt :: "byte list \<Rightarrow> byte list option"

text \<open>What the code relies on: decryption undoes encryption.\<close>

definition fernet_ok :: "fernet \<Rightarrow> bool" where
  "fernet_ok F \<longleftrightarrow> (\<forall>n bs. f_decrypt F (f_encrypt F n bs) = Some bs)"

definition seal :: "fernet \<Rightarrow> nat \<Rightarrow> rstate \<Rightarrow> exn + byte list" where
  "seal F nonce st =
     ebind (to_json st) (\<lambda>s. case utf8_encode s of None \<Rightarrow> Inl UnicodeEncodeError
       | Some bs \<Rightarrow> Inr (f_encrypt F nonce bs))"

definition unseal :: "fernet \<Rightarrow> pystr \<Rightarrow> byte list \<Rightarrow> exn + rstate" where
  "unseal F payload_id token =
     (case f_decrypt F token of None \<Rightarrow> Inl InvalidToken
      | Some bs \<Rightarrow> (case utf8_decode bs of None \<Rightarrow> Inl ValueError
          | Some raw \<Rightarrow> from_json payload_id raw))"

text \<open>\<open>_build_fernet\<close> with the environment's \<open>MASKING_KEY\<close> and \<open>APP_ENV\<close>: which key is used\<close>

datatype key_source = KeyGiven pystr | KeyGenerated

definition or_str :: "pystr option \<Rightarrow> pystr option \<Rightarrow> pystr option" where
  "or_str a b = (case a of Some (c # s) \<Rightarrow> Some (c # s) | _ \<Rightarrow> b)"

definition build_fernet_memory ::
    "ucd \<Rightarrow> pystr option \<Rightarrow> pystr option \<Rightarrow> pystr option \<Rightarrow> exn + key_source" where
  "build_fernet_memory U masking_key env_key app_env =
     (case or_str masking_key env_key of
        Some (c # s) \<Rightarrow> Inr (KeyGiven (c # s))
      | _ \<Rightarrow>
          if str_lower U (case app_env of None \<Rightarrow> lit ''development'' | Some e \<Rightarrow> e) = lit ''production''
          then Inl (RuntimeError (lit ''MASKING_KEY must be set when APP_ENV=production''))
          else Inr KeyGenerated)"

definition build_fernet_redis :: "pystr option \<Rightarrow> pystr option \<Rightarrow> exn + key_source" where
  "build_fernet_redis masking_key env_key =
     (case or_str masking_key env_key of
        Some (c # s) \<Rightarrow> Inr (KeyGiven (c # s))
      | _ \<Rightarrow> Inl (RuntimeError (lit ''MASKING_KEY must be set when using the Redis restoration store'')))"

section \<open>Times read back\<close>

lemma length_zfill [simp]: "length (zfill w n) = w"
  by (induction w arbitrary: n) auto

lemma zfill_digits: "\<forall>c \<in> set (zfill w n). is_dig c"
  by (induction w arbitrary: n) (auto simp: is_dig_def nat_le_iff)

lemma digits_val_snoc: "digits_val (ds @ [48 + nat k]) = 10 * digits_val ds + int (nat k)"
  by (simp add: digits_val_def)

lemma zfill_val: "0 \<le> n \<Longrightarrow> n < 10 ^ w \<Longrightarrow> digits_val (zfill w n) = n"
proof (induction w arbitrary: n)
  case 0
  then show ?case by (simp add: digits_val_def)
next
  case (Suc w)
  have "n div 10 < x" if "n < 10 * x" for x using that by linarith
  with Suc.prems have "n div 10 < 10 ^ w" by simp
  with Suc have "digits_val (zfill w (n div 10)) = n div 10" by simp
  then show ?case by (simp add: digits_val_snoc)
qed

lemma read_zfill:
  "0 \<le> n \<Longrightarrow> n < 10 ^ w \<Longrightarrow> read_digits w (zfill w n @ r) = Some (n, r)"
  using zfill_digits [of w n] by (simp add: read_digits_def zfill_val list_all_iff)

lemma expect_hit [simp]: "expect p (p @ r) = Some r" "expect [c] (c # r) = Some r"
  by (simp_all add: expect_def)

lemma fromisoformat_isoformat:
  assumes "valid_datetime t"
  shows "fromisoformat (isoformat t) = Some t"
proof -
  obtain y m d where dt: "d_date t = (y, m, d)" by (cases "d_date t")
  from assms have b: "0 \<le> y" "y < 10 ^ 4" "0 \<le> m" "m < 10 ^ 2" "0 \<le> d" "d < 10 ^ 2"
    by (auto simp: valid_datetime_def valid_date_def dt days_in_month_def split: if_splits)
  from assms have c: "0 \<le> d_hour t" "d_hour t < 10 ^ 2" "0 \<le> d_minute t" "d_minute t < 10 ^ 2"
      "0 \<le> d_second t" "d_second t < 10 ^ 2" "0 \<le> d_micro t" "d_micro t < 10 ^ 6"
    by (auto simp: valid_datetime_def)
  define mic where "mic = (if d_micro t = 0 then [] else 46 # zfill 6 (d_micro t))"
  have micro: "read_micro (mic @ lit ''+00:00'') = Some (d_micro t, lit ''+00:00'')"
    using read_zfill [OF c(7,8), of "lit ''+00:00''"]
    by (auto simp: read_micro_def expect_def lit_def mic_def)
  have t: "\<lparr>d_date = (y, m, d), d_hour = d_hour t, d_minute = d_minute t, d_second = d_second t,
      d_micro = d_micro t\<rparr> = t" using dt by simp
  have iso: "isoformat t = zfill 4 y @ 45 # zfill 2 m @ 45 # zfill 2 d @ 84 # zfill 2 (d_hour t)
      @ 58 # zfill 2 (d_minute t) @ 58 # zfill 2 (d_second t) @ mic @ lit ''+00:00''"
    by (simp add: isoformat_def dt mic_def)
  note rd = read_zfill [OF b(1,2)] read_zfill [OF b(3,4)] read_zfill [OF b(5,6)]
    read_zfill [OF c(1,2)] read_zfill [OF c(3,4)] read_zfill [OF c(5,6)]
  show ?thesis
    unfolding iso fromisoformat_def
    using assms by (simp only: rd micro bind.bind_lunit expect_hit prod.case Let_def t simp_thms if_True)
qed

section \<open>States read back\<close>

definition state_ok :: "rstate \<Rightarrow> bool" where
  "state_ok st \<longleftrightarrow>
     list_all (list_all is_scalar)
       [rs_payload_id st, rs_original_hash st, rs_original_text st, rs_masked_text st, rs_consumer_id st]
     \<and> list_all (\<lambda>(r, v). list_all is_scalar r \<and> list_all is_scalar v) (rs_mappings st)
     \<and> list_all (list_all is_scalar) (rs_detected_types st)
     \<and> length (int_str (rs_entity_count st)) \<le> 4300
     \<and> valid_datetime (rs_created_at st)
     \<and> (case rs_expires_at st of None \<Rightarrow> True | Some t \<Rightarrow> valid_datetime t)"

lemma scalar_ascii: "(\<forall>c \<in> set s. c < 128) \<Longrightarrow> list_all is_scalar s"
  by (fastforce simp: list_all_iff is_scalar_def)

lemma zfill_ascii: "c \<in> set (zfill w n) \<Longrightarrow> c < 128"
  using zfill_digits by (fastforce simp: is_dig_def)

lemma isoformat_ascii: "c \<in> set (isoformat t) \<Longrightarrow> c < 128"
  by (cases "d_date t") (auto simp: isoformat_def lit_def dest: zfill_ascii split: if_splits simp del: zfill.simps)

lemma isoformat_scalar: "list_all is_scalar (isoformat t)"
  using isoformat_ascii scalar_ascii by blast

lemma isoformat_Nil: "isoformat t \<noteq> []"
  by (cases "d_date t") (auto simp: isoformat_def lit_def)

lemma lit_scalar [simp]: "list_all is_scalar (lit s)"
proof -
  have "is_scalar (of_char c)" for c
    using nat_of_char_less_256 [of c] unfolding is_scalar_def by linarith
  then show ?thesis by (simp add: lit_def list_all_iff)
qed

lemma status_scalar [simp]: "list_all is_scalar (status_value x)"
  by (cases x) simp_all

lemma state_dict_json_ok:
  assumes "state_ok st"
  shows "json_ok (VDict (state_dict st))"
proof -
  have "list_all json_ok (map (\<lambda>(r, v). VList [VStr r, VStr v]) (rs_mappings st))"
    using assms by (auto simp: state_ok_def list_all_iff)
  moreover have "list_all json_ok (map VStr (rs_detected_types st))"
    using assms by (auto simp: state_ok_def list_all_iff)
  moreover have "json_ok (case rs_expires_at st of None \<Rightarrow> VNone | Some t \<Rightarrow> VStr (isoformat t))"
    using isoformat_scalar by (simp split: option.splits)
  ultimately show ?thesis
    using assms isoformat_scalar
    by (simp add: state_dict_def state_ok_def del: status_value.simps)
qed

text \<open>A value without floats whose dictionary keys are strings always has a printed form.\<close>

fun printable :: "pyval \<Rightarrow> bool"
  and printable_items :: "(pyval \<times> pyval) list \<Rightarrow> bool" where
  "printable VNone = True"
| "printable (VBool b) = True"
| "printable (VInt i) = True"
| "printable (VFloat x) = False"
| "printable (VStr s) = True"
| "printable (VList xs) = list_all printable xs"
| "printable (VDict d) = printable_items d"
| "printable_items [] = True"
| "printable_items ((k, v) # d) =
     ((case k of VStr s \<Rightarrow> True | _ \<Rightarrow> False) \<and> printable v \<and> printable_items d)"

lemma dumps_total:
  "printable v \<Longrightarrow> \<exists>s. dumps v = Some s"
  "list_all printable xs \<Longrightarrow> \<exists>s. dumps_elems xs = Some s"
  "printable_items d \<Longrightarrow> \<exists>s. dumps_items d = Some s"
proof (induction v and xs and d rule: dumps_dumps_elems_dumps_items.induct)
  case (6 xs)
  then show ?case by (cases xs) auto
next
  case (7 d)
  show ?case
  proof (cases d)
    case (Cons kv ys)
    obtain k v where kv: "kv = (k, v)" by (cases kv)
    with 7(3) Cons obtain t where t: "k = VStr t" "printable v" "printable_items ys"
      by (auto split: pyval.splits)
    with 7(1) [OF Cons kv [symmetric]] 7(2) [OF Cons kv [symmetric]] Cons kv show ?thesis by auto
  qed simp
next
  case (11 k v xs)
  then show ?case by (cases k) auto
qed auto

lemma hex_char_ascii: "d < 16 \<Longrightarrow> hex_char d < 128"
  by (simp add: hex_char_def)

lemma u_escape_ascii: "c \<in> set (u_escape n) \<Longrightarrow> c < 128"
  using hex_char_ascii by (fastforce simp: u_escape_def)

lemma escape_char_ascii: "c \<in> set (escape_char d) \<Longrightarrow> c < 128"
  unfolding escape_char_def using u_escape_ascii by (simp split: if_splits) auto

lemma json_string_ascii: "c \<in> set (json_string s) \<Longrightarrow> c < 128"
  using escape_char_ascii by (auto simp: json_string_def)

lemma int_str_ascii: "c \<in> set (int_str i) \<Longrightarrow> c < 128"
  using nat_str_digits by (fastforce simp: int_str_def is_dig_def split: if_splits)

lemma dumps_ascii:
  "dumps v = Some s \<Longrightarrow> printable v \<Longrightarrow> \<forall>c \<in> set s. c < 128"
  "dumps_elems xs = Some s \<Longrightarrow> list_all printable xs \<Longrightarrow> \<forall>c \<in> set s. c < 128"
  "dumps_items d = Some s \<Longrightarrow> printable_items d \<Longrightarrow> \<forall>c \<in> set s. c < 128"
proof (induction v and xs and d arbitrary: s and s and s rule: dumps_dumps_elems_dumps_items.induct)
  case (6 xs)
  show ?case
  proof (cases xs)
    case (Cons x ys)
    with 6(3) obtain a b where ab: "dumps x = Some a" "dumps_elems ys = Some b" "s = 91 # a @ b @ [93]"
      by (auto split: option.splits)
    with 6(1) [OF Cons ab(1)] 6(2) [OF Cons ab(2)] 6(4) Cons show ?thesis by auto
  qed (use 6 in auto)
next
  case (7 d)
  show ?case
  proof (cases d)
    case (Cons kv ys)
    obtain k v where kv: "kv = (k, v)" by (cases kv)
    with 7(4) Cons obtain t where t: "k = VStr t" "printable v" "printable_items ys"
      by (auto split: pyval.splits)
    with 7(3) Cons kv obtain b c where bc: "dumps v = Some b" "dumps_items ys = Some c"
      "s = 123 # json_string t @ [58, 32] @ b @ c @ [125]" by (auto split: option.splits)
    from 7(1) [OF Cons kv [symmetric] bc(1) t(2)] 7(2) [OF Cons kv [symmetric] bc(2) t(3)]
    show ?thesis unfolding bc(3) using json_string_ascii by auto
  qed (use 7 in auto)
next
  case (9 x xs)
  from 9(3) obtain a b where ab: "dumps x = Some a" "dumps_elems xs = Some b" "s = 44 # 32 # a @ b"
    by (auto split: option.splits)
  with 9 show ?case by auto
next
  case (11 k v xs)
  then obtain t where t: "k = VStr t" "printable v" "printable_items xs" by (auto split: pyval.splits)
  with 11(3) obtain b c where bc: "dumps v = Some b" "dumps_items xs = Some c"
    "s = 44 # 32 # json_string t @ [58, 32] @ b @ c" by (auto split: option.splits)
  from 11(1) [OF bc(1) t(2)] 11(2) [OF bc(2) t(3)]
  show ?case unfolding bc(3) using json_string_ascii by auto
next
  case (3 i)
  then show ?case using int_str_ascii by auto
next
  case (5 t)
  then show ?case using json_string_ascii by auto
qed (simp_all add: lit_def)

lemma state_dict_printable: "printable (VDict (state_dict st))"
  by (auto simp: state_dict_def list_all_iff split: option.splits simp del: status_value.simps)

lemma to_json_ascii: "\<exists>s. to_json st = Inr s \<and> (\<forall>c \<in> set s. c < 128)"
  using dumps_total(1) [OF state_dict_printable [of st]] dumps_ascii(1) [OF _ state_dict_printable [of st]]
  by (auto simp: to_json_def)

lemma mapping_pairs: "emap as_pair (map (\<lambda>(r, v). VList [VStr r, VStr v]) ms) = Inr ms"
  by (induction ms) auto

lemma type_strs: "emap as_str (map VStr ts) = Inr ts"
  by (induction ts) auto

lemma from_json_dict:
  assumes "loads raw = Some (VDict (state_dict st))" and "valid_datetime (rs_created_at st)"
    and "case rs_expires_at st of None \<Rightarrow> True | Some t \<Rightarrow> valid_datetime t"
  shows "from_json pid raw = Inr (st\<lparr>rs_payload_id := pid\<rparr>)"
proof -
  note iso = fromisoformat_isoformat [OF assms(2)]
  have ex: "(let e = dict_get (state_dict st) ''expires_at'' VNone
      in if truthy e then ebind (parse_time e) (\<lambda>t. Inr (Some t)) else Inr None) = Inr (rs_expires_at st)"
    using assms(3) fromisoformat_isoformat isoformat_Nil
    by (auto simp: state_dict_def dict_get_def parse_time_def Let_def split: option.splits)
  have fields: "list_all (\<lambda>kv. fst kv \<in> set state_fields) (state_dict st)"
    by (simp add: state_dict_def state_fields_def)
  have status: "parse_status (VStr (status_value (rs_state st))) = Inr (rs_state st)"
    by (simp add: parse_status_def del: status_value.simps)
  have items: "get_item (VDict (state_dict st)) ''state'' = Inr (VStr (status_value (rs_state st)))"
    "get_item (VDict (state_dict st)) ''created_at'' = Inr (VStr (isoformat (rs_created_at st)))"
    by (simp_all add: get_item_def state_dict_def del: status_value.simps)
  have gets: "dict_get (state_dict st) ''mappings'' (VList [])
        = VList (map (\<lambda>(r, v). VList [VStr r, VStr v]) (rs_mappings st))"
    "dict_get (state_dict st) ''entity_count'' (VInt 0) = VInt (rs_entity_count st)"
    "dict_get (state_dict st) ''detected_types'' (VList []) = VList (map VStr (rs_detected_types st))"
    "dict_get (state_dict st) ''consumer_id'' (VStr []) = VStr (rs_consumer_id st)"
    "field (state_dict st) ''original_hash'' = Inr (VStr (rs_original_hash st))"
    "field (state_dict st) ''original_text'' = Inr (VStr (rs_original_text st))"
    "field (state_dict st) ''masked_text'' = Inr (VStr (rs_masked_text st))"
    by (simp_all add: dict_get_def field_def state_dict_def del: status_value.simps)
  show ?thesis
    by (simp add: from_json_def assms(1) items status parse_time_def iso ex fields gets
        mapping_pairs type_strs del: status_value.simps)
qed

lemma to_json_reads:
  assumes "state_ok st"
  shows "\<exists>s. to_json st = Inr s \<and> from_json pid s = Inr (st\<lparr>rs_payload_id := pid\<rparr>)"
proof -
  from to_json_ascii [of st] obtain s where s: "to_json st = Inr s" by blast
  then have "dumps (VDict (state_dict st)) = Some s" by (auto simp: to_json_def split: option.splits)
  from from_json_dict [OF loads_dumps [OF this state_dict_json_ok [OF assms]]] assms s show ?thesis
    by (auto simp: state_ok_def)
qed

section \<open>Sealed records read back\<close>

lemma utf8_ascii:
  "\<forall>c \<in> set s. c < 128 \<Longrightarrow> utf8_encode s = Some s \<and> utf8_decode s = Some s"
  by (induction s) (auto simp: utf8_char_def is_scalar_def)

lemma seal_total: "\<exists>tok. seal F n st = Inr tok"
  using to_json_ascii [of st] utf8_ascii by (auto simp: seal_def)

lemma seal_unseal:
  assumes "fernet_ok F" and "state_ok st"
  shows "\<exists>tok. seal F n st = Inr tok \<and> unseal F pid tok = Inr (st\<lparr>rs_payload_id := pid\<rparr>)"
proof -
  from to_json_reads [OF assms(2)] obtain s where
    s: "to_json st = Inr s" "from_json pid s = Inr (st\<lparr>rs_payload_id := pid\<rparr>)" by blast
  with to_json_ascii [of st] utf8_ascii have "utf8_encode s = Some s" "utf8_decode s = Some s" by auto
  with s assms(1) show ?thesis by (simp add: seal_def unseal_def fernet_ok_def)
qed

section \<open>Properties\<close>

text \<open>
  C13: \<open>to_json\<close> always succeeds on a state whose texts are free of surrogates, and \<open>from_json\<close>
  reads the same state back, with the payload id it is given.
\<close>

theorem state_json_roundtrip:
  assumes "state_ok st"
  shows "\<exists>s. to_json st = Inr s \<and> from_json pid s = Inr (st\<lparr>rs_payload_id := pid\<rparr>)"
  by (rule to_json_reads [OF assms])

text \<open>A concrete state and the identity as encryption, for the witnesses of this and later theories\<close>

definition clear_fernet :: fernet where
  "clear_fernet = \<lparr>f_encrypt = (\<lambda>n bs. bs), f_decrypt = Some\<rparr>"

definition sample_state :: "pystr \<Rightarrow> rstate" where
  "sample_state p = \<lparr>rs_payload_id = p, rs_original_hash = lit ''h'', rs_original_text = lit ''a@b.ru'',
     rs_masked_text = lit ''*@*.**'', rs_mappings = [(lit ''*@*.**'', lit ''a@b.ru'')], rs_entity_count = 1,
     rs_detected_types = [lit ''EMAIL''], rs_state = MASKED,
     rs_created_at = \<lparr>d_date = (2024, 2, 29), d_hour = 12, d_minute = 0, d_second = 0, d_micro = 5\<rparr>,
     rs_expires_at = None, rs_consumer_id = lit ''c''\<rparr>"

lemma clear_fernet_ok: "fernet_ok clear_fernet"
  by (simp add: fernet_ok_def clear_fernet_def)

lemma sample_state_ok: "list_all is_scalar p \<Longrightarrow> state_ok (sample_state p)"
  by (simp add: state_ok_def sample_state_def valid_datetime_def valid_date_def days_in_month_def leap_year_def int_str_def
      nat_str.simps [of "Suc 0"])

theorem state_json_roundtrip_witness:
  "\<exists>s. to_json (sample_state []) = Inr s
    \<and> from_json (lit ''x'') s = Inr ((sample_state [])\<lparr>rs_payload_id := lit ''x''\<rparr>)"
  using state_json_roundtrip [OF sample_state_ok, of "[]"] by simp

end
