(* ===== verification/RestorationStore.thy ===== *)
theory RestorationStore
  imports Restoration
begin

text \<open>
  \<open>app/restoration/base.py\<close>: the interface of the restoration stores as a locale.  An operation
  takes the environment of the call (clock readings, nonces) and the store, and returns the result
  and the store after it.  \<open>look st p t\<close> is what the store shows under key \<open>p\<close> at time \<open>t\<close>.
\<close>

type_synonym transition_fn = "rstate option \<Rightarrow> exn + rstate option"

text \<open>
  The contract: a lookup shows the current state; a transition reads the current state, applies
  the function and writes its result as one step, so that a function that raises leaves every
  key as it was, and a result is visible for the life time of a record.  A store may refuse a new
  key for lack of room, but not the update of a key it shows.  Keys with surrogates, which cannot be
  encoded, are outside of the contract.
\<close>

locale restoration_store =
  fixes get :: "'env \<Rightarrow> pystr \<Rightarrow> 'st \<Rightarrow> (exn + rstate option) \<times> 'st"
    and transition :: "'env \<Rightarrow> pystr \<Rightarrow> transition_fn \<Rightarrow> 'st \<Rightarrow> (exn + rstate option) \<times> 'st"
    and inv :: "'st \<Rightarrow> bool"
    and look :: "'st \<Rightarrow> pystr \<Rightarrow> rat \<Rightarrow> rstate option"
    and envok :: "'env \<Rightarrow> bool"
    and tget :: "'env \<Rightarrow> rat"
    and ttrans :: "'env \<Rightarrow> rat"
    and tend :: "'env \<Rightarrow> rat"
    and life :: "'st \<Rightarrow> rat"
  assumes get_law: "inv st \<Longrightarrow> envok env \<Longrightarrow> list_all is_scalar p \<Longrightarrow>
      \<exists>st'. get env p st = (Inr (look st p (tget env)), st') \<and> inv st' \<and> life st' = life st
        \<and> (\<forall>q t. tget env \<le> t \<longrightarrow> look st' q t = look st q t)"
    and raise_law: "inv st \<Longrightarrow> envok env \<Longrightarrow> list_all is_scalar p \<Longrightarrow> fn (look st p (ttrans env)) = Inl e \<Longrightarrow>
      \<exists>st'. transition env p fn st = (Inl e, st') \<and> inv st' \<and> life st' = life st
        \<and> (\<forall>q t. ttrans env \<le> t \<longrightarrow> look st' q t = look st q t)"
    and commit_law: "inv st \<Longrightarrow> envok env \<Longrightarrow> fn (look st p (ttrans env)) = Inr (Some s) \<Longrightarrow>
      state_ok s \<Longrightarrow> rs_payload_id s = p \<Longrightarrow>
      \<exists>r st'. transition env p fn st = (r, st') \<and> inv st' \<and> life st' = life st
        \<and> (\<forall>q t. q \<noteq> p \<longrightarrow> tend env \<le> t \<longrightarrow> look st' q t = look st q t)
        \<and> (r = Inr (Some s) \<and> (\<forall>t. t < tend env + life st \<longrightarrow> look st' p t = Some s)
           \<or> look st p (ttrans env) = None \<and> is_domain_error (projl r) \<and> (\<exists>e. r = Inl e)
             \<and> (\<forall>t. tend env \<le> t \<longrightarrow> look st' p t = look st p t))"
    and times_law: "envok env \<Longrightarrow> tget env \<le> tend env \<and> ttrans env \<le> tend env"
    and look_ok: "inv st \<Longrightarrow> look st p t = Some s \<Longrightarrow> state_ok s \<and> rs_payload_id s = p"
    and look_expiry: "inv st \<Longrightarrow> look st p t = None \<Longrightarrow> t \<le> t' \<Longrightarrow> look st p t' = None"
begin

lemma look_mono: "inv st \<Longrightarrow> look st p t' = Some s \<Longrightarrow> t \<le> t' \<Longrightarrow> look st p t \<noteq> None"
  using look_expiry by fastforce

lemma update_law:
  assumes "inv st" "envok env" "look st p (ttrans env) = Some c"
    and "fn (Some c) = Inr (Some s)" "state_ok s" "rs_payload_id s = p"
  shows "\<exists>st'. transition env p fn st = (Inr (Some s), st') \<and> inv st' \<and> life st' = life st
        \<and> (\<forall>q t. q \<noteq> p \<longrightarrow> tend env \<le> t \<longrightarrow> look st' q t = look st q t)
        \<and> (\<forall>t. t < tend env + life st \<longrightarrow> look st' p t = Some s)"
  using commit_law [of st env fn p s] assms by fastforce

end

end
