(* ===== verification/MemoryStore.thy ===== *)
theory MemoryStore
  imports RestorationStore
begin

text \<open>
  \<open>app/restoration/memory.py\<close>.  The \<open>OrderedDict\<close> is an association list in its order.  A record
  \<open>env\<close> holds the readings of \<open>time.monotonic\<close> in one call, in the order in which the call takes
  them, and the nonce of its encryption.  \<open>transition\<close> is split where it releases the data lock:
  \<open>trans_begin\<close> and \<open>trans_commit\<close> are its two critical sections.
\<close>

section \<open>Definitions\<close>

type_synonym entry = "rat \<times> byte list"

record mstore =
  ms_ttl_seconds :: rat
  ms_max_entries :: int
  ms_data :: "(pystr \<times> entry) list"

record env =
  en_clock :: "nat \<Rightarrow> rat"
  en_nonce :: nat

definition InMemoryRestorationStore :: "rat \<Rightarrow> int \<Rightarrow> mstore" where
  "InMemoryRestorationStore ttl_seconds max_entries =
     \<lparr>ms_ttl_seconds = ttl_seconds, ms_max_entries = max_entries, ms_data = []\<rparr>"

text \<open>\<open>_evict_expired_locked\<close>\<close>

fun evict_front :: "rat \<Rightarrow> (pystr \<times> entry) list \<Rightarrow> (pystr \<times> entry) list" where
  "evict_front now [] = []"
| "evict_front now ((first_key, (first_exp, tok)) # rest) =
     (if now < first_exp then (first_key, (first_exp, tok)) # rest else evict_front now rest)"

definition evict_expired :: "rat \<Rightarrow> mstore \<Rightarrow> mstore" where
  "evict_expired now st = st\<lparr>ms_data := evict_front now (ms_data st)\<rparr>"

definition has_key :: "pystr \<Rightarrow> mstore \<Rightarrow> bool" where
  "has_key p st = (map_of (ms_data st) p \<noteq> None)"

definition move_to_end :: "pystr \<Rightarrow> (pystr \<times> entry) list \<Rightarrow> (pystr \<times> entry) list" where
  "move_to_end p d = (case map_of d p of None \<Rightarrow> d | Some e \<Rightarrow> AList.delete p d @ [(p, e)])"

definition mem_get :: "fernet \<Rightarrow> env \<Rightarrow> pystr \<Rightarrow> mstore \<Rightarrow> (exn + rstate option) \<times> mstore" where
  "mem_get F env p st =
     (case map_of (ms_data st) p of
        None \<Rightarrow> (Inr None, st)
      | Some (expires_at, encrypted) \<Rightarrow>
          if en_clock env 0 \<ge> expires_at then (Inr None, st\<lparr>ms_data := AList.delete p (ms_data st)\<rparr>)
          else (ebind (unseal F p encrypted) (\<lambda>s. Inr (Some s)), st))"

definition capacity_error :: exn where
  "capacity_error = ServiceOverloadedError (lit ''restoration store capacity exceeded'') 1"

text \<open>
  The common end of \<open>save\<close> and \<open>transition\<close>: the capacity check, \<open>move_to_end\<close>, the new expiry,
  encryption and the write.
\<close>

definition store_entry :: "fernet \<Rightarrow> rat \<Rightarrow> nat \<Rightarrow> pystr \<Rightarrow> rstate \<Rightarrow> mstore \<Rightarrow> (exn + unit) \<times> mstore" where
  "store_entry F now nonce p s st =
     (if \<not> has_key p st \<and> int (length (ms_data st)) \<ge> ms_max_entries st then (Inl capacity_error, st)
      else let moved = (if has_key p st then move_to_end p (ms_data st) else ms_data st);
               expires_at = now + ms_ttl_seconds st
           in case seal F nonce s of
                Inl e \<Rightarrow> (Inl e, st\<lparr>ms_data := moved\<rparr>)
              | Inr encrypted \<Rightarrow> (Inr (), st\<lparr>ms_data := AList.update p (expires_at, encrypted) moved\<rparr>))"

definition mem_save :: "fernet \<Rightarrow> env \<Rightarrow> pystr \<Rightarrow> rstate \<Rightarrow> mstore \<Rightarrow> (exn + unit) \<times> mstore" where
  "mem_save F env p s st =
     store_entry F (en_clock env 1) (en_nonce env) p s (evict_expired (en_clock env 0) st)"

definition mem_delete :: "pystr \<Rightarrow> mstore \<Rightarrow> mstore" where
  "mem_delete p st = st\<lparr>ms_data := AList.delete p (ms_data st)\<rparr>"

definition trans_begin :: "fernet \<Rightarrow> env \<Rightarrow> pystr \<Rightarrow> mstore \<Rightarrow> (exn + rstate option) \<times> mstore" where
  "trans_begin F env p st0 =
     (let st = evict_expired (en_clock env 0) st0 in
      case map_of (ms_data st) p of
        None \<Rightarrow> (Inr None, st)
      | Some (expires_at, encrypted) \<Rightarrow>
          if en_clock env 1 < expires_at
          then (ebind (unseal F p encrypted) (\<lambda>s. Inr (Some s)), st)
          else (Inr None, mem_delete p st))"

definition trans_commit ::
    "fernet \<Rightarrow> env \<Rightarrow> pystr \<Rightarrow> rstate option \<Rightarrow> mstore \<Rightarrow> (exn + rstate option) \<times> mstore" where
  "trans_commit F env p new_state st =
     (case new_state of
        None \<Rightarrow> (Inr None, mem_delete p st)
      | Some s \<Rightarrow>
          (case store_entry F (en_clock env 2) (en_nonce env) p s st of
             (Inl e, st') \<Rightarrow> (Inl e, st')
           | (Inr _, st') \<Rightarrow> (Inr (Some s), st')))"

definition mem_transition ::
    "fernet \<Rightarrow> env \<Rightarrow> pystr \<Rightarrow> transition_fn \<Rightarrow> mstore \<Rightarrow> (exn + rstate option) \<times> mstore" where
  "mem_transition F env p fn st =
     (case trans_begin F env p st of
        (Inl e, st') \<Rightarrow> (Inl e, st')
      | (Inr current, st') \<Rightarrow>
          (case fn current of Inl e \<Rightarrow> (Inl e, st') | Inr new_state \<Rightarrow> trans_commit F env p new_state st'))"

section \<open>What the store shows\<close>

definition mem_look :: "fernet \<Rightarrow> mstore \<Rightarrow> pystr \<Rightarrow> rat \<Rightarrow> rstate option" where
  "mem_look F st p t =
     (case map_of (ms_data st) p of
        None \<Rightarrow> None
      | Some (expires_at, encrypted) \<Rightarrow>
          if t < expires_at then (case unseal F p encrypted of Inl e \<Rightarrow> None | Inr s \<Rightarrow> Some s) else None)"

text \<open>Keys are distinct, and every token decrypts to the state of its key.\<close>

definition mem_inv :: "fernet \<Rightarrow> mstore \<Rightarrow> bool" where
  "mem_inv F st \<longleftrightarrow> distinct (map fst (ms_data st)) \<and>
     (\<forall>(p, (x, tok)) \<in> set (ms_data st). \<exists>s. unseal F p tok = Inr s \<and> state_ok s \<and> rs_payload_id s = p)"

definition env_ok :: "env \<Rightarrow> bool" where
  "env_ok env \<longleftrightarrow> en_clock env 0 \<le> en_clock env 1 \<and> en_clock env 1 \<le> en_clock env 2"

lemma evict_front_suffix:
  "\<exists>old. d = old @ evict_front now d \<and> (\<forall>(p, (x, tok)) \<in> set old. x \<le> now)"
proof (induction now d rule: evict_front.induct)
  case (2 now k x tok rest)
  show ?case
  proof (cases "now < x")
    case False
    with 2 obtain old where "rest = old @ evict_front now rest" "\<forall>(p, (x, tok)) \<in> set old. x \<le> now"
      by blast
    with False show ?thesis by (intro exI [of _ "(k, (x, tok)) # old"]) auto
  qed auto
qed simp

lemma evict_inv: "mem_inv F st \<Longrightarrow> mem_inv F (evict_expired now st)"
proof -
  obtain old where old: "ms_data st = old @ evict_front now (ms_data st)"
    using evict_front_suffix by blast
  assume "mem_inv F st"
  then have "mem_inv F (st\<lparr>ms_data := old @ evict_front now (ms_data st)\<rparr>)" using old by simp
  then show ?thesis by (auto simp: mem_inv_def evict_expired_def)
qed

lemma evict_map_of:
  assumes "distinct (map fst (ms_data st))" and "map_of (ms_data st) p = Some (x, tok)" and "now < x"
  shows "map_of (ms_data (evict_expired now st)) p = Some (x, tok)"
proof -
  obtain old where old: "ms_data st = old @ evict_front now (ms_data st)"
    and gone: "\<forall>(p, (x, tok)) \<in> set old. x \<le> now"
    using evict_front_suffix by blast
  have "(p, (x, tok)) \<in> set old \<union> set (evict_front now (ms_data st))"
    using assms(2) map_of_SomeD old by (metis set_append)
  with gone assms(3) have "(p, (x, tok)) \<in> set (evict_front now (ms_data st))" by fastforce
  moreover have "distinct (map fst (evict_front now (ms_data st)))"
    using assms(1) old by (metis distinct_append map_append)
  ultimately show ?thesis by (simp add: evict_expired_def)
qed

lemma evict_map_of_sub:
  assumes "distinct (map fst (ms_data st))" and "map_of (ms_data (evict_expired now st)) p = Some e"
  shows "map_of (ms_data st) p = Some e"
proof -
  obtain old where old: "ms_data st = old @ evict_front now (ms_data st)"
    using evict_front_suffix by blast
  have "(p, e) \<in> set (evict_front now (ms_data st))"
    using assms(2) by (simp add: evict_expired_def map_of_SomeD)
  then have "(p, e) \<in> set (ms_data st)" using old by (metis UnCI set_append)
  with assms(1) show ?thesis by simp
qed

text \<open>Eviction never changes what the store shows at the moment of the eviction or later.\<close>

lemma evict_look:
  assumes "distinct (map fst (ms_data st))" and "now \<le> t"
  shows "mem_look F (evict_expired now st) p t = mem_look F st p t"
proof (cases "map_of (ms_data st) p")
  case None
  with assms(1) have "map_of (ms_data (evict_expired now st)) p = None"
    using evict_map_of_sub [of st now p]
    by (cases "map_of (ms_data (evict_expired now st)) p") auto
  with None show ?thesis by (simp add: mem_look_def)
next
  case (Some e)
  obtain x tok where e: "e = (x, tok)" by (cases e)
  show ?thesis
  proof (cases "now < x")
    case True
    with Some assms(1) evict_map_of [of st p x tok now] show ?thesis
      by (simp add: mem_look_def e)
  next
    case False
    with assms(2) have "\<not> t < x" by simp
    moreover have "map_of (ms_data (evict_expired now st)) p = None
        \<or> map_of (ms_data (evict_expired now st)) p = Some e"
      using evict_map_of_sub [of st now p] assms(1) Some
      by (cases "map_of (ms_data (evict_expired now st)) p") auto
    ultimately show ?thesis using Some by (auto simp: mem_look_def e)
  qed
qed

section \<open>Writing an entry\<close>

lemma set_update_pairs: "set (AList.update k v al) \<subseteq> insert (k, v) (set al)"
  by (induction al) (auto split: if_splits)

lemma set_delete_sub: "set (AList.delete k al) \<subseteq> set al"
  by (induction al) auto

lemma move_to_end_facts:
  assumes "distinct (map fst d)"
  shows "map_of (move_to_end p d) = map_of d" and "distinct (map fst (move_to_end p d))"
    and "length (move_to_end p d) = length d" and "set (move_to_end p d) = set d"
proof -
  have len: "length (AList.delete p d) + 1 = length d" if "map_of d p = Some e" for e
    using assms that
  proof (induction d)
    case (Cons kv d)
    show ?case
    proof (cases "fst kv = p")
      case True
      with Cons.prems(1) have "AList.delete p d = d" by (intro delete_id) auto
      with True show ?thesis by (cases kv) simp
    next
      case False
      with Cons show ?thesis by (cases kv) auto
    qed
  qed simp
  have del: "map_of (AList.delete p d @ [(p, e)]) = map_of d" if "map_of d p = Some e" for e
    using that by (auto simp: fun_eq_iff map_add_def delete_conv' split: option.splits)
  show m: "map_of (move_to_end p d) = map_of d"
    using del by (auto simp: move_to_end_def split: option.splits)
  show dist: "distinct (map fst (move_to_end p d))"
    using assms delete_notin_dom [of p d] distinct_delete [of d p]
    by (auto simp: move_to_end_def split: option.splits)
  show "length (move_to_end p d) = length d"
    using len by (auto simp: move_to_end_def split: option.splits)
  show "set (move_to_end p d) = set d"
    using m map_of_eq_Some_iff [OF dist] map_of_eq_Some_iff [OF assms] by auto
qed

lemma store_entry_ok:
  assumes F: "fernet_ok F" and inv: "mem_inv F st" and s: "state_ok s" "rs_payload_id s = p"
    and room: "has_key p st \<or> int (length (ms_data st)) < ms_max_entries st"
  shows "\<exists>tok st'. store_entry F now n p s st = (Inr (), st') \<and> mem_inv F st'
     \<and> map_of (ms_data st') = (map_of (ms_data st))(p \<mapsto> (now + ms_ttl_seconds st, tok))
     \<and> unseal F p tok = Inr s \<and> ms_ttl_seconds st' = ms_ttl_seconds st
     \<and> ms_max_entries st' = ms_max_entries st"
proof -
  let ?moved = "if has_key p st then move_to_end p (ms_data st) else ms_data st"
  from seal_unseal [OF F s(1), of n p] s(2) obtain tok where
    tok: "seal F n s = Inr tok" "unseal F p tok = Inr s" by auto
  have moved: "map_of ?moved = map_of (ms_data st)" "distinct (map fst ?moved)"
    "set ?moved = set (ms_data st)"
    using inv move_to_end_facts [of "ms_data st" p] by (auto simp: mem_inv_def)
  let ?st' = "st\<lparr>ms_data := AList.update p (now + ms_ttl_seconds st, tok) ?moved\<rparr>"
  have "store_entry F now n p s st = (Inr (), ?st')"
    using room tok(1) by (auto simp: store_entry_def Let_def)
  moreover have "mem_inv F ?st'"
    using inv moved(2,3) tok(2) s set_update_pairs [of p "(now + ms_ttl_seconds st, tok)" ?moved]
    by (fastforce simp: mem_inv_def distinct_update)
  moreover have "map_of (ms_data ?st') = (map_of (ms_data st))(p \<mapsto> (now + ms_ttl_seconds st, tok))"
    using moved(1) by (simp add: map_of_update)
  ultimately show ?thesis using tok(2) by auto
qed

lemma store_entry_full:
  "\<not> (has_key p st \<or> int (length (ms_data st)) < ms_max_entries st) \<Longrightarrow>
   store_entry F now n p s st = (Inl capacity_error, st)"
  by (simp add: store_entry_def)

lemma delete_inv: "mem_inv F st \<Longrightarrow> mem_inv F (mem_delete p st)"
  using delete_keys [of p "ms_data st"] set_delete_sub [of p "ms_data st"]
  by (auto simp: mem_inv_def mem_delete_def distinct_removeAll)

lemma delete_look:
  assumes "map_of (ms_data st) p = Some (x, tok)" and "x \<le> t"
  shows "mem_look F (mem_delete p st) q t = mem_look F st q t"
  using assms by (cases "q = p") (simp_all add: mem_look_def mem_delete_def delete_conv')

section \<open>The store keeps the contract\<close>

lemma mem_get_law:
  assumes inv: "mem_inv F st"
  shows "\<exists>st'. mem_get F env p st = (Inr (mem_look F st p (en_clock env 0)), st') \<and> mem_inv F st'
    \<and> ms_ttl_seconds st' = ms_ttl_seconds st
    \<and> (\<forall>q t. en_clock env 0 \<le> t \<longrightarrow> mem_look F st' q t = mem_look F st q t)"
proof (cases "map_of (ms_data st) p")
  case None
  with inv show ?thesis by (simp add: mem_get_def mem_look_def)
next
  case (Some e)
  obtain x tok where e: "e = (x, tok)" by (cases e)
  show ?thesis
  proof (cases "en_clock env 0 \<ge> x")
    case True
    let ?st' = "mem_delete p st"
    have "mem_get F env p st = (Inr (mem_look F st p (en_clock env 0)), ?st')"
      using Some True by (simp add: mem_get_def mem_look_def e mem_delete_def)
    moreover have "\<forall>q t. en_clock env 0 \<le> t \<longrightarrow> mem_look F ?st' q t = mem_look F st q t"
      using delete_look [of st p x tok] Some True by (fastforce simp: e)
    ultimately show ?thesis using delete_inv [OF inv, of p] by (simp add: mem_delete_def)
  next
    case False
    from Some have "(p, (x, tok)) \<in> set (ms_data st)" by (simp add: e map_of_SomeD)
    with inv obtain s where "unseal F p tok = Inr s" by (auto simp: mem_inv_def)
    with Some False inv show ?thesis by (simp add: mem_get_def mem_look_def e)
  qed
qed

text \<open>The first critical section returns what the store shows, and changes nothing of it.\<close>

lemma trans_begin_law:
  assumes inv: "mem_inv F st" and env: "env_ok env"
  shows "\<exists>st'. trans_begin F env p st = (Inr (mem_look F st p (en_clock env 1)), st') \<and> mem_inv F st'
    \<and> ms_ttl_seconds st' = ms_ttl_seconds st \<and> ms_max_entries st' = ms_max_entries st
    \<and> (mem_look F st p (en_clock env 1) \<noteq> None \<longrightarrow> has_key p st')
    \<and> (\<forall>q t. en_clock env 1 \<le> t \<longrightarrow> mem_look F st' q t = mem_look F st q t)"
proof -
  let ?st = "evict_expired (en_clock env 0) st"
  have inv': "mem_inv F ?st" using evict_inv [OF inv] .
  have look: "mem_look F ?st q t = mem_look F st q t" if "en_clock env 1 \<le> t" for q t
    using evict_look inv that env by (simp add: env_ok_def mem_inv_def)
  have same: "ms_ttl_seconds ?st = ms_ttl_seconds st" "ms_max_entries ?st = ms_max_entries st"
    by (simp_all add: evict_expired_def)
  show ?thesis
  proof (cases "map_of (ms_data ?st) p")
    case None
    then have "mem_look F ?st p (en_clock env 1) = None" by (simp add: mem_look_def)
    with None inv' look same show ?thesis by (auto simp: trans_begin_def Let_def)
  next
    case (Some e)
    obtain x tok where e: "e = (x, tok)" by (cases e)
    show ?thesis
    proof (cases "en_clock env 1 < x")
      case True
      from Some have "(p, (x, tok)) \<in> set (ms_data ?st)" by (simp add: e map_of_SomeD)
      with inv' obtain s where s: "unseal F p tok = Inr s" by (auto simp: mem_inv_def)
      with Some True have "mem_look F ?st p (en_clock env 1) = Some s" by (simp add: mem_look_def e)
      with s Some True inv' look same show ?thesis
        by (auto simp: trans_begin_def Let_def e has_key_def)
    next
      case False
      then have "mem_look F ?st p (en_clock env 1) = None" using Some by (simp add: mem_look_def e)
      moreover have "mem_look F (mem_delete p ?st) q t = mem_look F ?st q t" if "en_clock env 1 \<le> t" for q t
        using delete_look [of ?st p x tok] Some False that by (simp add: e)
      ultimately show ?thesis
        using Some False delete_inv [OF inv', of p] look same
        by (auto simp: trans_begin_def Let_def e mem_delete_def)
    qed
  qed
qed

text \<open>The second critical section writes the new state or refuses a new key.\<close>

lemma trans_commit_law:
  assumes F: "fernet_ok F" and inv: "mem_inv F st" and s: "state_ok s" "rs_payload_id s = p"
  shows "\<exists>r st'. trans_commit F env p (Some s) st = (r, st') \<and> mem_inv F st'
    \<and> ms_ttl_seconds st' = ms_ttl_seconds st
    \<and> (\<forall>q t. q \<noteq> p \<longrightarrow> mem_look F st' q t = mem_look F st q t)
    \<and> (r = Inr (Some s) \<and> (\<forall>t. t < en_clock env 2 + ms_ttl_seconds st \<longrightarrow> mem_look F st' p t = Some s)
       \<or> r = Inl capacity_error \<and> st' = st \<and> \<not> has_key p st)"
proof (cases "has_key p st \<or> int (length (ms_data st)) < ms_max_entries st")
  case True
  from store_entry_ok [OF F inv s True, of "en_clock env 2" "en_nonce env"] obtain tok st' where
    st': "store_entry F (en_clock env 2) (en_nonce env) p s st = (Inr (), st')" "mem_inv F st'"
      "map_of (ms_data st') = (map_of (ms_data st))(p \<mapsto> (en_clock env 2 + ms_ttl_seconds st, tok))"
      "unseal F p tok = Inr s" "ms_ttl_seconds st' = ms_ttl_seconds st" by blast
  then have "mem_look F st' p t = Some s" if "t < en_clock env 2 + ms_ttl_seconds st" for t
    using that by (simp add: mem_look_def)
  moreover have "mem_look F st' q t = mem_look F st q t" if "q \<noteq> p" for q t
    using st'(3) that by (simp add: mem_look_def)
  ultimately show ?thesis using st'(1,2,5) by (simp add: trans_commit_def)
next
  case False
  with store_entry_full [OF False] inv show ?thesis by (simp add: trans_commit_def)
qed

lemma mem_raise_law:
  assumes inv: "mem_inv F st" and env: "env_ok env" and fn: "fn (mem_look F st p (en_clock env 1)) = Inl e"
  shows "\<exists>st'. mem_transition F env p fn st = (Inl e, st') \<and> mem_inv F st'
      \<and> ms_ttl_seconds st' = ms_ttl_seconds st
      \<and> (\<forall>q t. en_clock env 1 \<le> t \<longrightarrow> mem_look F st' q t = mem_look F st q t)"
proof -
  from trans_begin_law [OF inv env, of p] obtain st' where
    "trans_begin F env p st = (Inr (mem_look F st p (en_clock env 1)), st')"
    and st': "mem_inv F st'" "ms_ttl_seconds st' = ms_ttl_seconds st"
      "\<forall>q t. en_clock env 1 \<le> t \<longrightarrow> mem_look F st' q t = mem_look F st q t" by blast
  with fn show ?thesis by (simp add: mem_transition_def)
qed

lemma mem_commit_law:
  assumes F: "fernet_ok F" and inv: "mem_inv F st" and env: "env_ok env"
    and fn: "fn (mem_look F st p (en_clock env 1)) = Inr (Some s)"
    and s: "state_ok s" "rs_payload_id s = p"
  shows "\<exists>r st'. mem_transition F env p fn st = (r, st') \<and> mem_inv F st'
      \<and> ms_ttl_seconds st' = ms_ttl_seconds st
      \<and> (\<forall>q t. q \<noteq> p \<longrightarrow> en_clock env 2 \<le> t \<longrightarrow> mem_look F st' q t = mem_look F st q t)
      \<and> (r = Inr (Some s) \<and> (\<forall>t. t < en_clock env 2 + ms_ttl_seconds st \<longrightarrow> mem_look F st' p t = Some s)
         \<or> mem_look F st p (en_clock env 1) = None \<and> is_domain_error (projl r) \<and> (\<exists>e. r = Inl e)
           \<and> (\<forall>t. en_clock env 2 \<le> t \<longrightarrow> mem_look F st' p t = mem_look F st p t))"
proof -
  from trans_begin_law [OF inv env, of p] obtain st1 where
    b: "trans_begin F env p st = (Inr (mem_look F st p (en_clock env 1)), st1)"
    and st1: "mem_inv F st1" "ms_ttl_seconds st1 = ms_ttl_seconds st"
      "mem_look F st p (en_clock env 1) \<noteq> None \<longrightarrow> has_key p st1"
      "\<forall>q t. en_clock env 1 \<le> t \<longrightarrow> mem_look F st1 q t = mem_look F st q t" by blast
  from trans_commit_law [OF F st1(1) s, of env] obtain r st' where
    c: "trans_commit F env p (Some s) st1 = (r, st')" "mem_inv F st'"
      "ms_ttl_seconds st' = ms_ttl_seconds st1"
      "\<forall>q t. q \<noteq> p \<longrightarrow> mem_look F st' q t = mem_look F st1 q t"
      "r = Inr (Some s) \<and> (\<forall>t. t < en_clock env 2 + ms_ttl_seconds st1 \<longrightarrow> mem_look F st' p t = Some s)
       \<or> r = Inl capacity_error \<and> st' = st1 \<and> \<not> has_key p st1" by blast
  have t: "mem_transition F env p fn st = (r, st')"
    using b fn c(1) by (simp add: mem_transition_def)
  have le: "en_clock env 1 \<le> en_clock env 2" using env by (simp add: env_ok_def)
  have others: "\<forall>q t. q \<noteq> p \<longrightarrow> en_clock env 2 \<le> t \<longrightarrow> mem_look F st' q t = mem_look F st q t"
    using c(4) st1(4) le by force
  have own: "r = Inr (Some s) \<and> (\<forall>t. t < en_clock env 2 + ms_ttl_seconds st \<longrightarrow> mem_look F st' p t = Some s)
      \<or> mem_look F st p (en_clock env 1) = None \<and> is_domain_error (projl r) \<and> (\<exists>e. r = Inl e)
        \<and> (\<forall>t. en_clock env 2 \<le> t \<longrightarrow> mem_look F st' p t = mem_look F st p t)"
    using c(5) st1(2,3,4) le by (fastforce simp: capacity_error_def)
  show ?thesis using t c(2,3) st1(2) others own by metis
qed

interpretation mem: restoration_store
  "mem_get F" "mem_transition F" "\<lambda>st. fernet_ok F \<and> mem_inv F st" "mem_look F" env_ok
  "\<lambda>env. en_clock env 0" "\<lambda>env. en_clock env 1" "\<lambda>env. en_clock env 2" ms_ttl_seconds for F
proof (unfold_locales, goal_cases)
  case (1 st env p)
  then show ?case using mem_get_law [of F st env p] by blast
next
  case (2 st env p fn e)
  then show ?case using mem_raise_law [of F st env fn p e] by blast
next
  case (3 st env fn p s)
  then show ?case using mem_commit_law [of F st env fn p s] by blast
next
  case (4 env)
  then show ?case by (auto simp: env_ok_def)
next
  case (5 st p t s)
  then show ?case
    by (auto simp: mem_look_def mem_inv_def split: option.splits if_splits sum.splits dest!: map_of_SomeD)
next
  case (6 st p t t')
  then show ?case by (auto simp: mem_look_def split: option.splits if_splits sum.splits)
qed

section \<open>Runs of the store\<close>

text \<open>A sequence of complete calls with a clock that does not go backwards\<close>

datatype mem_op =
  OpGet env pystr
| OpSave env pystr rstate
| OpDelete pystr
| OpTransition env pystr transition_fn

fun mem_exec :: "fernet \<Rightarrow> mem_op \<Rightarrow> mstore \<Rightarrow> mstore" where
  "mem_exec F (OpGet env p) st = snd (mem_get F env p st)"
| "mem_exec F (OpSave env p s) st = snd (mem_save F env p s st)"
| "mem_exec F (OpDelete p) st = mem_delete p st"
| "mem_exec F (OpTransition env p fn) st = snd (mem_transition F env p fn st)"

definition mem_run :: "fernet \<Rightarrow> mem_op list \<Rightarrow> mstore \<Rightarrow> mstore" where
  "mem_run F ops st = foldl (\<lambda>st op. mem_exec F op st) st ops"

fun op_env :: "mem_op \<Rightarrow> env option" where
  "op_env (OpGet env p) = Some env"
| "op_env (OpSave env p s) = Some env"
| "op_env (OpDelete p) = None"
| "op_env (OpTransition env p fn) = Some env"

fun op_key :: "mem_op \<Rightarrow> pystr" where
  "op_key (OpGet env p) = p"
| "op_key (OpSave env p s) = p"
| "op_key (OpDelete p) = p"
| "op_key (OpTransition env p fn) = p"

fun clocked :: "rat \<Rightarrow> mem_op list \<Rightarrow> rat \<Rightarrow> bool" where
  "clocked t0 [] t1 = (t0 \<le> t1)"
| "clocked t0 (op # ops) t1 =
     (case op_env op of
        None \<Rightarrow> clocked t0 ops t1
      | Some env \<Rightarrow> t0 \<le> en_clock env 0 \<and> env_ok env \<and> clocked (en_clock env 2) ops t1)"

text \<open>
  What the eviction relies on: the entries are in the order of their expiry, none later than a
  life time from now, and there are no more than the capacity.
\<close>

definition orderly :: "rat \<Rightarrow> mstore \<Rightarrow> bool" where
  "orderly now st \<longleftrightarrow> distinct (map fst (ms_data st)) \<and> sorted (map (\<lambda>e. fst (snd e)) (ms_data st))
     \<and> (\<forall>e \<in> set (ms_data st). fst (snd e) \<le> now + ms_ttl_seconds st)
     \<and> int (length (ms_data st)) \<le> max 0 (ms_max_entries st)"

lemma orderly_later: "orderly now st \<Longrightarrow> now \<le> t \<Longrightarrow> orderly t st"
  by (fastforce simp: orderly_def)

lemma orderly_evict: "orderly now st \<Longrightarrow> orderly now (evict_expired t st)"
proof -
  obtain old where old: "ms_data st = old @ evict_front t (ms_data st)"
    using evict_front_suffix by blast
  assume "orderly now st"
  then have "orderly now (st\<lparr>ms_data := old @ evict_front t (ms_data st)\<rparr>)" using old by simp
  then show ?thesis by (auto simp: orderly_def evict_expired_def sorted_append)
qed

lemma delete_filter: "AList.delete p d = filter (\<lambda>kv. fst kv \<noteq> p) d"
  by (induction d) auto

lemma orderly_delete: "orderly now st \<Longrightarrow> orderly now (mem_delete p st)"
proof -
  assume o: "orderly now st"
  let ?d = "filter (\<lambda>kv. fst kv \<noteq> p) (ms_data st)"
  have "distinct (map fst ?d)" using o by (simp add: orderly_def distinct_map_filter)
  moreover have "sorted (map (\<lambda>e. fst (snd e)) ?d)" using o by (simp add: orderly_def sorted_filter)
  moreover have "\<forall>e \<in> set ?d. fst (snd e) \<le> now + ms_ttl_seconds st" using o by (simp add: orderly_def)
  moreover have "int (length ?d) \<le> max 0 (ms_max_entries st)"
  proof -
    have "int (length (ms_data st)) \<le> max 0 (ms_max_entries st)" using o by (simp add: orderly_def)
    moreover have "length ?d \<le> length (ms_data st)" by (rule length_filter_le)
    ultimately show ?thesis by linarith
  qed
  ultimately show ?thesis by (simp add: orderly_def mem_delete_def delete_filter)
qed

text \<open>What a write does to the list: the key moves to the end with its new entry.\<close>

lemma store_entry_list:
  assumes "distinct (map fst (ms_data st))"
  shows "store_entry F now n p s st = (Inl capacity_error, st)
     \<and> \<not> has_key p st \<and> int (length (ms_data st)) \<ge> ms_max_entries st
   \<or> (\<exists>tok. store_entry F now n p s st
        = (Inr (), st\<lparr>ms_data := AList.delete p (ms_data st) @ [(p, (now + ms_ttl_seconds st, tok))]\<rparr>)
        \<and> (has_key p st \<or> int (length (ms_data st)) < ms_max_entries st))"
proof (cases "has_key p st \<or> int (length (ms_data st)) < ms_max_entries st")
  case True
  obtain tok where tok: "seal F n s = Inr tok" using seal_total by blast
  have upd: "AList.update p v d = d @ [(p, v)]" if "p \<notin> fst ` set d" for v and d :: "(pystr \<times> entry) list"
    using that by (induction d) auto
  have upd_end: "AList.update p v (AList.delete p d @ [(p, w)]) = AList.delete p d @ [(p, v)]"
    for v w and d :: "(pystr \<times> entry) list"
    by (induction d) auto
  show ?thesis
  proof (cases "has_key p st")
    case has: True
    then obtain e where "map_of (ms_data st) p = Some e" by (auto simp: has_key_def)
    with has tok True show ?thesis
      by (auto simp: store_entry_def move_to_end_def upd_end)
  next
    case False
    then have p: "p \<notin> fst ` set (ms_data st)" by (simp add: has_key_def map_of_eq_None_iff)
    then have "AList.delete p (ms_data st) = ms_data st" by simp
    with False tok True upd [OF p] show ?thesis by (auto simp: store_entry_def Let_def)
  qed
qed (auto simp: store_entry_def)

lemma length_delete_key:
  "distinct (map fst d) \<Longrightarrow> p \<in> fst ` set d \<Longrightarrow> length (AList.delete p d) < length d"
  by (induction d) auto

lemma orderly_store_entry:
  assumes o: "orderly t0 st" and t: "t0 \<le> now"
  shows "orderly now (snd (store_entry F now n p s st))"
proof -
  let ?d = "AList.delete p (ms_data st)"
  have del: "orderly now (mem_delete p st)" using orderly_delete orderly_later [OF o t] by blast
  have new: "orderly now (st\<lparr>ms_data := ?d @ [(p, (now + ms_ttl_seconds st, tok))]\<rparr>)"
    if room: "has_key p st \<or> int (length (ms_data st)) < ms_max_entries st" for tok
  proof -
    have "int (length ?d) + 1 \<le> max 0 (ms_max_entries st)"
    proof (cases "has_key p st")
      case True
      then have "length ?d < length (ms_data st)"
        using o length_delete_key [of "ms_data st" p]
        by (simp add: orderly_def has_key_def map_of_eq_None_iff)
      with o show ?thesis by (simp add: orderly_def)
    next
      case False
      with room have "int (length (ms_data st)) < ms_max_entries st" by simp
      then show ?thesis using length_delete_le [of p "ms_data st"] by linarith
    qed
    with del delete_notin_dom [of p "ms_data st"] show ?thesis
      by (auto simp: orderly_def mem_delete_def sorted_append)
  qed
  have "distinct (map fst (ms_data st))" using o by (simp add: orderly_def)
  from store_entry_list [OF this, of F now n p s] show ?thesis
    using new orderly_later [OF o t] by auto
qed

lemma orderly_save:
  assumes o: "orderly t0 st" and t: "t0 \<le> en_clock env 0" "env_ok env"
  shows "orderly (en_clock env 2) (snd (mem_save F env p s st))"
proof -
  have le: "t0 \<le> en_clock env 1" "en_clock env 1 \<le> en_clock env 2" using t by (auto simp: env_ok_def)
  from orderly_store_entry [OF orderly_evict [OF o] le(1)] show ?thesis
    unfolding mem_save_def using le(2) by (rule orderly_later)
qed

lemma orderly_begin:
  assumes o: "orderly t st"
  shows "orderly t (snd (trans_begin F env p st))"
  using orderly_evict [OF o] orderly_delete [OF orderly_evict [OF o]]
  by (simp add: trans_begin_def Let_def split: option.split prod.split)

lemma orderly_commit:
  assumes o: "orderly t st" and t: "t \<le> en_clock env 2"
  shows "orderly (en_clock env 2) (snd (trans_commit F env p new st))"
proof (cases new)
  case None
  then show ?thesis
    using orderly_later [OF orderly_delete [OF o] t] by (simp add: trans_commit_def)
next
  case (Some s)
  obtain r st' where r: "store_entry F (en_clock env 2) (en_nonce env) p s st = (r, st')" by fastforce
  with orderly_store_entry [OF o t, of F "en_nonce env" p s] have "orderly (en_clock env 2) st'" by simp
  then show ?thesis by (simp add: trans_commit_def Some r split: sum.split)
qed

lemma orderly_transition:
  assumes o: "orderly t0 st" and t: "t0 \<le> en_clock env 0" "env_ok env"
  shows "orderly (en_clock env 2) (snd (mem_transition F env p fn st))"
proof -
  have le: "t0 \<le> en_clock env 2" using t by (auto simp: env_ok_def)
  obtain r st' where b: "trans_begin F env p st = (r, st')" by fastforce
  with orderly_begin [OF o, of F env p] have o': "orderly t0 st'" by simp
  show ?thesis
    using orderly_later [OF o' le] orderly_commit [OF o' le, of F p]
    by (simp add: mem_transition_def b split: sum.split)
qed

lemma orderly_exec:
  assumes o: "orderly t0 st"
  shows "case op_env c of None \<Rightarrow> orderly t0 (mem_exec F c st)
     | Some env \<Rightarrow> t0 \<le> en_clock env 0 \<longrightarrow> env_ok env \<longrightarrow> orderly (en_clock env 2) (mem_exec F c st)"
proof (cases c)
  case (OpGet env p)
  have "snd (mem_get F env p st) = st \<or> snd (mem_get F env p st) = mem_delete p st"
    by (auto simp: mem_get_def mem_delete_def split: option.split)
  then have "orderly t0 (snd (mem_get F env p st))" using o orderly_delete by metis
  then show ?thesis using OpGet by (auto simp: env_ok_def intro: orderly_later)
next
  case (OpSave env p s)
  then show ?thesis using orderly_save [OF o] by simp
next
  case (OpDelete p)
  then show ?thesis using orderly_delete [OF o] by simp
next
  case (OpTransition env p fn)
  then show ?thesis using orderly_transition [OF o] by simp
qed

lemma orderly_run: "orderly t0 st \<Longrightarrow> clocked t0 ops t1 \<Longrightarrow> orderly t1 (mem_run F ops st)"
proof (induction ops arbitrary: t0 st)
  case Nil
  then show ?case by (auto simp: mem_run_def intro: orderly_later)
next
  case (Cons c ops)
  from orderly_exec [OF Cons.prems(1), where c = c and F = F] Cons.prems(2) show ?case
    using Cons.IH by (auto simp: mem_run_def split: option.splits)
qed

lemma store_entry_config:
  "ms_max_entries (snd (store_entry F now n p s st)) = ms_max_entries st"
  by (simp add: store_entry_def Let_def split: sum.split)

lemma mem_exec_config: "ms_max_entries (mem_exec F c st) = ms_max_entries st"
proof (cases c)
  case (OpTransition env p fn)
  have "ms_max_entries (snd (trans_commit F env p new st1)) = ms_max_entries st1" for new st1
    using store_entry_config [of F "en_clock env 2" "en_nonce env" p "the new" st1]
    by (auto simp: trans_commit_def mem_delete_def split: option.split sum.split prod.split)
  moreover have "ms_max_entries (snd (trans_begin F env p st)) = ms_max_entries st"
    by (simp add: trans_begin_def Let_def mem_delete_def evict_expired_def split: option.split prod.split)
  ultimately show ?thesis using OpTransition
    by (auto simp: mem_transition_def split: sum.split prod.split)
qed (auto simp: mem_get_def mem_save_def mem_delete_def evict_expired_def store_entry_config split: option.split)

lemma mem_run_config: "ms_max_entries (mem_run F ops st) = ms_max_entries st"
  unfolding mem_run_def by (induction ops arbitrary: st) (simp_all add: mem_exec_config)

lemma evict_front_sorted:
  "sorted (map (\<lambda>e. fst (snd e)) d) \<Longrightarrow> e \<in> set (evict_front now d) \<Longrightarrow> now < fst (snd e)"
proof (induction now d rule: evict_front.induct)
  case (2 now k x tok rest)
  show ?case
  proof (cases "now < x")
    case True
    with 2 have "x \<le> fst (snd e)" by auto
    with True show ?thesis by simp
  qed (use 2 in auto)
qed simp

lemma orderly_init: "orderly t (InMemoryRestorationStore ttl m)"
  by (simp add: orderly_def InMemoryRestorationStore_def)

section \<open>What a run keeps\<close>

lemma exec_other:
  assumes o: "orderly t0 st" and q: "op_key c \<noteq> q"
    and t: "case op_env c of None \<Rightarrow> True | Some env \<Rightarrow> en_clock env 0 \<le> t"
  shows "mem_look F (mem_exec F c st) q t = mem_look F st q t"
proof -
  have dist: "distinct (map fst (ms_data st))" using o by (simp add: orderly_def)
  have look: "mem_look F st1 q t = mem_look F st2 q t"
    if "map_of (ms_data st1) q = map_of (ms_data st2) q" for st1 st2
    using that by (simp add: mem_look_def)
  have del: "mem_look F (mem_delete p st1) q t = mem_look F st1 q t" if "p \<noteq> q" for p st1
    using that by (intro look) (simp add: mem_delete_def delete_conv')
  have entry: "mem_look F (snd (store_entry F now n p s st1)) q t = mem_look F st1 q t"
    if "p \<noteq> q" "distinct (map fst (ms_data st1))" for now n p s st1
    using store_entry_list [OF that(2), of F now n p s] that(1)
    by (auto intro!: look simp: delete_conv' map_add_def split: option.split)
  show ?thesis
  proof (cases c)
    case (OpGet env p)
    have "snd (mem_get F env p st) = st \<or> snd (mem_get F env p st) = mem_delete p st"
      by (auto simp: mem_get_def mem_delete_def split: option.split)
    with OpGet q del show ?thesis by auto
  next
    case (OpSave env p s)
    with q t dist orderly_evict [OF o, of "en_clock env 0"] show ?thesis
      by (simp add: mem_save_def entry evict_look orderly_def)
  next
    case (OpDelete p)
    with q del show ?thesis by simp
  next
    case (OpTransition env p fn)
    let ?st = "evict_expired (en_clock env 0) st"
    obtain r st' where b: "trans_begin F env p st = (r, st')" by fastforce
    have "st' = ?st \<or> st' = mem_delete p ?st"
      using b by (auto simp: trans_begin_def Let_def split: option.splits if_splits)
    with OpTransition q t dist del have look': "mem_look F st' q t = mem_look F st q t"
      by (auto simp: evict_look)
    have dist': "distinct (map fst (ms_data st'))"
      using orderly_begin [OF o, of F env p] b by (simp add: orderly_def)
    have "mem_look F (snd (trans_commit F env p new st')) q t = mem_look F st' q t" for new
    proof (cases new)
      case None
      with OpTransition q del show ?thesis by (simp add: trans_commit_def)
    next
      case (Some s)
      obtain r1 st1 where r1: "store_entry F (en_clock env 2) (en_nonce env) p s st' = (r1, st1)" by fastforce
      with entry [of p st' "en_clock env 2" "en_nonce env" s] dist' OpTransition q
      have "mem_look F st1 q t = mem_look F st' q t" by simp
      then show ?thesis by (simp add: trans_commit_def Some r1 split: sum.split)
    qed
    with OpTransition look' show ?thesis by (simp add: mem_transition_def b split: sum.split)
  qed
qed

lemma clocked_le: "clocked t0 ops t1 \<Longrightarrow> t0 \<le> t1"
proof (induction ops arbitrary: t0)
  case (Cons c ops)
  then show ?case by (force simp: env_ok_def split: option.splits)
qed simp

text \<open>
  C16: The bookkeeping of the in-memory store (invariant).  After any sequence of complete calls from
  the empty store, with a clock that does not go backwards, every key has one entry, the entries are
  in the order of their expiry, which is what the eviction from the front relies on, there are no
  more of them than \<open>max_entries\<close>, and an eviction therefore leaves no expired entry anywhere.
\<close>

theorem memory_run_orderly:
  assumes "clocked t0 ops t1" and "mem_run F ops (InMemoryRestorationStore ttl m) = st"
  shows "distinct (map fst (ms_data st)) \<and> sorted (map (\<lambda>e. fst (snd e)) (ms_data st))
    \<and> int (length (ms_data st)) \<le> max 0 m
    \<and> (\<forall>e \<in> set (ms_data (evict_expired now st)). now < fst (snd e))"
proof -
  have cfg: "ms_max_entries (mem_run F ops st0) = ms_max_entries st0" for st0
    by (rule mem_run_config)
  have o: "orderly t1 st" using orderly_run [OF orderly_init assms(1)] assms(2) by blast
  then have "e \<in> set (ms_data (evict_expired now st)) \<Longrightarrow> now < fst (snd e)" for e
    using evict_front_sorted [of "ms_data st" e now] by (simp add: orderly_def evict_expired_def)
  moreover have "ms_max_entries st = m"
    using cfg [of "InMemoryRestorationStore ttl m"] assms(2) by (simp add: InMemoryRestorationStore_def)
  ultimately show ?thesis using o by (auto simp: orderly_def)
qed

text \<open>
  C17: Live mappings are never sacrificed (safety).  However many calls for other keys follow, at
  capacity or not, the store shows for a key at any later time exactly what it would have shown
  without them.
\<close>

theorem memory_never_drops_live:
  assumes "orderly t0 st" and "clocked t0 ops t1" and "\<forall>c \<in> set ops. op_key c \<noteq> q" and "t1 \<le> t"
  shows "mem_look F (mem_run F ops st) q t = mem_look F st q t"
  using assms
proof (induction ops arbitrary: t0 st)
  case (Cons c ops)
  have step: "case op_env c of None \<Rightarrow> True | Some env \<Rightarrow> en_clock env 0 \<le> t"
  proof (cases "op_env c")
    case (Some env)
    with Cons.prems(2) have "env_ok env" "clocked (en_clock env 2) ops t1" by auto
    with clocked_le Cons.prems(4) show ?thesis using Some by (fastforce simp: env_ok_def)
  qed simp
  have "mem_look F (mem_run F ops (mem_exec F c st)) q t = mem_look F (mem_exec F c st) q t"
  proof (cases "op_env c")
    case None
    with Cons orderly_exec [OF Cons.prems(1), where c = c and F = F] show ?thesis by simp
  next
    case (Some env)
    with Cons orderly_exec [OF Cons.prems(1), where c = c and F = F] show ?thesis by simp
  qed
  with exec_other [OF Cons.prems(1) _ step, of q F] Cons.prems(3) show ?case by (simp add: mem_run_def)
qed (simp add: mem_run_def)

text \<open>A concrete run for the witnesses\<close>

definition at_time :: "rat \<Rightarrow> env" where
  "at_time t = \<lparr>en_clock = (\<lambda>_. t), en_nonce = 0\<rparr>"

definition sample_ops :: "mem_op list" where
  "sample_ops =
     [OpSave (at_time 1) (lit ''p'') (sample_state (lit ''p'')), OpGet (at_time 2) (lit ''q''),
      OpTransition (at_time 3) (lit ''p'') Inr, OpDelete (lit ''r'')]"

theorem memory_run_orderly_witness:
  "\<exists>st. mem_run clear_fernet sample_ops (InMemoryRestorationStore 10 5) = st
    \<and> distinct (map fst (ms_data st)) \<and> int (length (ms_data st)) \<le> 5"
proof -
  have c: "clocked 0 sample_ops 4" by (simp add: sample_ops_def at_time_def env_ok_def)
  show ?thesis using memory_run_orderly [OF c, of clear_fernet 10 5] by auto
qed

theorem memory_never_drops_live_witness:
  "\<exists>st. mem_look clear_fernet st (lit ''z'') 7 = Some (sample_state (lit ''z''))
    \<and> mem_look clear_fernet (mem_run clear_fernet sample_ops st) (lit ''z'') 7 = Some (sample_state (lit ''z''))"
proof -
  let ?p = "lit ''z''"
  let ?empty = "InMemoryRestorationStore 10 1"
  let ?st = "mem_run clear_fernet [OpSave (at_time 0) ?p (sample_state ?p)] ?empty"
  have inv: "mem_inv clear_fernet ?empty" by (simp add: mem_inv_def InMemoryRestorationStore_def)
  have "rs_payload_id (sample_state ?p) = ?p" by (simp add: sample_state_def)
  moreover have "int (length (ms_data ?empty)) < ms_max_entries ?empty"
    by (simp add: InMemoryRestorationStore_def)
  ultimately obtain tok st where
    "store_entry clear_fernet 0 0 ?p (sample_state ?p) ?empty = (Inr (), st)"
    "map_of (ms_data st) = (map_of (ms_data ?empty))(?p \<mapsto> (0 + ms_ttl_seconds ?empty, tok))"
    "unseal clear_fernet ?p tok = Inr (sample_state ?p)"
    using store_entry_ok [OF clear_fernet_ok inv sample_state_ok, of "lit ''z''" "lit ''z''" 0 0] by auto
  then have look: "mem_look clear_fernet ?st ?p 7 = Some (sample_state ?p)"
    by (simp add: mem_run_def mem_save_def at_time_def evict_expired_def InMemoryRestorationStore_def mem_look_def)
  have o: "orderly 0 ?st"
    by (rule orderly_run [OF orderly_init [of 0]]) (simp add: at_time_def env_ok_def)
  have c: "clocked 0 sample_ops 4" by (simp add: sample_ops_def at_time_def env_ok_def)
  have k: "\<forall>c \<in> set sample_ops. op_key c \<noteq> ?p" by (simp add: sample_ops_def lit_def)
  show ?thesis using memory_never_drops_live [OF o c k, of 7 clear_fernet] look by auto
qed

end
