(* ===== verification/MemoryConcurrency.thy ===== *)
theory MemoryConcurrency
  imports MemoryStore
begin

text \<open>
  Interleavings of the threads of \<open>InMemoryRestorationStore\<close>.  A call of \<open>transition\<close> takes the
  stripe of its key, reads under the data lock (\<open>trans_begin\<close>), runs its callback without the data
  lock, and writes under the data lock (\<open>trans_commit\<close>).  One step of the system is one critical
  section of one thread; calls of \<open>get\<close> come in between anywhere.  Python's \<open>hash\<close>, which differs
  from one process to the next, is the parameter \<open>h\<close>.
\<close>

section \<open>Definitions\<close>

definition STRIPE_COUNT :: int where
  "STRIPE_COUNT = 256"

definition stripe_of :: "(pystr \<Rightarrow> int) \<Rightarrow> pystr \<Rightarrow> nat" where
  "stripe_of h p = nat (h p mod STRIPE_COUNT)"

text \<open>Where a thread is in \<open>transition\<close>\<close>

datatype phase =
  Idle
| Holding pystr transition_fn
| Fetched pystr transition_fn "rstate option"

fun holds :: "phase \<Rightarrow> pystr option" where
  "holds Idle = None"
| "holds (Holding p fn) = Some p"
| "holds (Fetched p fn cur) = Some p"

record csys =
  cs_store :: mstore
  cs_stripes :: "nat \<Rightarrow> nat option"
  cs_phase :: "nat \<Rightarrow> phase"
  cs_now :: rat

definition cinit :: "rat \<Rightarrow> rat \<Rightarrow> int \<Rightarrow> csys" where
  "cinit now ttl m = \<lparr>cs_store = InMemoryRestorationStore ttl m, cs_stripes = (\<lambda>_. None),
     cs_phase = (\<lambda>_. Idle), cs_now = now\<rparr>"

text \<open>The callbacks of the service write well-formed states of their own key.\<close>

definition good_fn :: "pystr \<Rightarrow> transition_fn \<Rightarrow> bool" where
  "good_fn p fn \<longleftrightarrow> (\<forall>cur s. fn cur = Inr (Some s) \<longrightarrow> state_ok s \<and> rs_payload_id s = p)"

definition release :: "(pystr \<Rightarrow> int) \<Rightarrow> nat \<Rightarrow> pystr \<Rightarrow> csys \<Rightarrow> csys" where
  "release h i p s = s\<lparr>cs_stripes := (cs_stripes s)(stripe_of h p := None), cs_phase := (cs_phase s)(i := Idle)\<rparr>"

inductive cstep :: "fernet \<Rightarrow> (pystr \<Rightarrow> int) \<Rightarrow> csys \<Rightarrow> csys \<Rightarrow> bool" for F h where
  Acquire: "cs_phase s i = Idle \<Longrightarrow> cs_stripes s (stripe_of h p) = None \<Longrightarrow> good_fn p fn \<Longrightarrow>
    cstep F h s (s\<lparr>cs_stripes := (cs_stripes s)(stripe_of h p := Some i),
                   cs_phase := (cs_phase s)(i := Holding p fn)\<rparr>)"
| Fetch: "cs_phase s i = Holding p fn \<Longrightarrow> env_ok env \<Longrightarrow> cs_now s \<le> en_clock env 0 \<Longrightarrow>
    trans_begin F env p (cs_store s) = (Inr cur, st') \<Longrightarrow>
    cstep F h s (s\<lparr>cs_store := st', cs_phase := (cs_phase s)(i := Fetched p fn cur),
                   cs_now := en_clock env 1\<rparr>)"
| Fetch_error: "cs_phase s i = Holding p fn \<Longrightarrow> env_ok env \<Longrightarrow> cs_now s \<le> en_clock env 0 \<Longrightarrow>
    trans_begin F env p (cs_store s) = (Inl e, st') \<Longrightarrow>
    cstep F h s (release h i p (s\<lparr>cs_store := st', cs_now := en_clock env 1\<rparr>))"
| Raise: "cs_phase s i = Fetched p fn cur \<Longrightarrow> fn cur = Inl e \<Longrightarrow> cstep F h s (release h i p s)"
| Commit: "cs_phase s i = Fetched p fn cur \<Longrightarrow> fn cur = Inr new_state \<Longrightarrow> cs_now s \<le> en_clock env 2 \<Longrightarrow>
    trans_commit F env p new_state (cs_store s) = (r, st') \<Longrightarrow>
    cstep F h s (release h i p (s\<lparr>cs_store := st', cs_now := en_clock env 2\<rparr>))"
| Get: "cs_now s \<le> en_clock env 0 \<Longrightarrow> env_ok env \<Longrightarrow> mem_get F env p (cs_store s) = (r, st') \<Longrightarrow>
    cstep F h s (s\<lparr>cs_store := st', cs_now := en_clock env 0\<rparr>)"

inductive creach :: "fernet \<Rightarrow> (pystr \<Rightarrow> int) \<Rightarrow> csys \<Rightarrow> csys \<Rightarrow> bool" for F h s0 where
  Start: "creach F h s0 s0"
| Step: "creach F h s0 s \<Longrightarrow> cstep F h s s' \<Longrightarrow> creach F h s0 s'"

lemma creach_trans: "creach F h b c \<Longrightarrow> creach F h a b \<Longrightarrow> creach F h a c"
  by (induction rule: creach.induct) (auto intro: creach.Step)

section \<open>The invariant\<close>

text \<open>A stripe is taken exactly by the thread that works on a key of it.\<close>

definition locks :: "(pystr \<Rightarrow> int) \<Rightarrow> (nat \<Rightarrow> nat option) \<Rightarrow> (nat \<Rightarrow> pystr option) \<Rightarrow> bool" where
  "locks h l hp \<longleftrightarrow> (\<forall>k i. l k = Some i \<longleftrightarrow> (\<exists>p. hp i = Some p \<and> stripe_of h p = k)) \<and> finite {i. hp i \<noteq> None}"

definition locks_ok :: "(pystr \<Rightarrow> int) \<Rightarrow> csys \<Rightarrow> bool" where
  "locks_ok h s = locks h (cs_stripes s) (\<lambda>i. holds (cs_phase s i))"

text \<open>A key in flight shows what its thread has read, or has expired since.\<close>

definition reads_ok :: "fernet \<Rightarrow> csys \<Rightarrow> bool" where
  "reads_ok F s \<longleftrightarrow>
     (\<forall>i p fn cur t. cs_phase s i = Fetched p fn cur \<longrightarrow> cs_now s \<le> t \<longrightarrow>
        mem_look F (cs_store s) p t = cur \<or> mem_look F (cs_store s) p t = None)"

definition fns_ok :: "csys \<Rightarrow> bool" where
  "fns_ok s \<longleftrightarrow> (\<forall>i p fn cur. cs_phase s i = Holding p fn \<or> cs_phase s i = Fetched p fn cur \<longrightarrow> good_fn p fn)"

definition cinv :: "fernet \<Rightarrow> (pystr \<Rightarrow> int) \<Rightarrow> csys \<Rightarrow> bool" where
  "cinv F h s \<longleftrightarrow> mem_inv F (cs_store s) \<and> locks_ok h s \<and> reads_ok F s \<and> fns_ok s"

lemma cinv_init: "cinv F h (cinit now ttl m)"
  by (simp add: cinv_def cinit_def locks_ok_def locks_def reads_ok_def fns_ok_def mem_inv_def InMemoryRestorationStore_def)

lemma locksD: "locks h l hp \<Longrightarrow> l k = Some i \<longleftrightarrow> (\<exists>p. hp i = Some p \<and> stripe_of h p = k)"
  unfolding locks_def by blast

lemma locks_finite: "locks h l hp \<Longrightarrow> finite {i. hp i \<noteq> None}"
  unfolding locks_def by blast

lemma locks_release:
  assumes L: "locks h l hp" and p: "hp i = Some p"
  shows "locks h (l(stripe_of h p := None)) (hp(i := None))"
proof -
  have fin: "finite {j. (hp(i := None)) j \<noteq> None}"
    by (rule finite_subset [OF _ locks_finite [OF L]]) auto
  have taken: "l (stripe_of h p) = Some i" using locksD [OF L] p by blast
  have "(l(stripe_of h p := None)) k = Some j \<longleftrightarrow> (\<exists>q. (hp(i := None)) j = Some q \<and> stripe_of h q = k)" for k j
  proof (cases "j = i")
    case True
    then show ?thesis using locksD [OF L, of k i] p by simp
  next
    case False
    then show ?thesis using locksD [OF L, of k j] taken by (cases "k = stripe_of h p") auto
  qed
  with fin show ?thesis unfolding locks_def by blast
qed

lemma locks_acquire:
  assumes L: "locks h l hp" and i: "hp i = None" and free: "l (stripe_of h p) = None"
  shows "locks h (l(stripe_of h p := Some i)) (hp(i := Some p))"
proof -
  have fin: "finite {j. (hp(i := Some p)) j \<noteq> None}"
    by (rule finite_subset [OF _ finite.insertI [OF locks_finite [OF L], of i]]) auto
  have "(l(stripe_of h p := Some i)) k = Some j \<longleftrightarrow> (\<exists>q. (hp(i := Some p)) j = Some q \<and> stripe_of h q = k)" for k j
  proof (cases "j = i")
    case True
    then show ?thesis using locksD [OF L, of k i] i by auto
  next
    case False
    have "\<not> (\<exists>q. hp j = Some q \<and> stripe_of h q = stripe_of h p)"
      using locksD [OF L, of "stripe_of h p" j] free by simp
    with False show ?thesis using locksD [OF L, of k j] by auto
  qed
  with fin show ?thesis unfolding locks_def by blast
qed

text \<open>Two threads in flight work on different keys.\<close>

lemma holds_distinct:
  "locks_ok h s \<Longrightarrow> holds (cs_phase s i) = Some p \<Longrightarrow> holds (cs_phase s j) = Some q \<Longrightarrow> i \<noteq> j \<Longrightarrow> p \<noteq> q"
  unfolding locks_ok_def using locksD [of h "cs_stripes s" "\<lambda>i. holds (cs_phase s i)"]
  by (metis option.inject)

text \<open>What a step may do: replace the store, and change the phase of its own thread only.\<close>

lemma reads_step:
  assumes "reads_ok F s" and "cs_now s \<le> cs_now s'"
    and "\<And>j. j \<noteq> i \<Longrightarrow> cs_phase s' j = cs_phase s j"
    and "\<And>j p fn cur t. j \<noteq> i \<Longrightarrow> cs_phase s j = Fetched p fn cur \<Longrightarrow> cs_now s' \<le> t \<Longrightarrow>
       mem_look F (cs_store s') p t = mem_look F (cs_store s) p t"
    and "\<And>p fn cur t. cs_phase s' i = Fetched p fn cur \<Longrightarrow> cs_now s' \<le> t \<Longrightarrow>
       mem_look F (cs_store s') p t = cur \<or> mem_look F (cs_store s') p t = None"
  shows "reads_ok F s'"
  unfolding reads_ok_def
proof (intro allI impI)
  fix j p fn cur t assume j: "cs_phase s' j = Fetched p fn cur" "cs_now s' \<le> t"
  show "mem_look F (cs_store s') p t = cur \<or> mem_look F (cs_store s') p t = None"
  proof (cases "j = i")
    case False
    with assms(3) j(1) have "cs_phase s j = Fetched p fn cur" by simp
    with assms(1,2,4) False j(2) show ?thesis unfolding reads_ok_def by (metis order_trans)
  next
    case True
    with assms(5) j show ?thesis by metis
  qed
qed

section \<open>Every step keeps the invariant\<close>

lemma trans_commit_any:
  assumes F: "fernet_ok F" and inv: "mem_inv F st"
    and new: "\<And>s. new = Some s \<Longrightarrow> state_ok s \<and> rs_payload_id s = p"
    and run: "trans_commit F env p new st = (r, st')"
  shows "mem_inv F st' \<and> (\<forall>q t. q \<noteq> p \<longrightarrow> mem_look F st' q t = mem_look F st q t)"
proof (cases new)
  case None
  then have "st' = mem_delete p st" using run by (simp add: trans_commit_def)
  then show ?thesis using delete_inv [OF inv, of p] by (simp add: mem_look_def mem_delete_def delete_conv')
next
  case (Some s)
  with new have s: "state_ok s" "rs_payload_id s = p" by auto
  from trans_commit_law [OF F inv s, of env] run Some show ?thesis by auto
qed

lemma holds_fetched: "(\<lambda>j. holds (if j = i then ph else f j)) = (\<lambda>j. holds (f j))(i := holds ph)"
  by (auto simp: fun_eq_iff)

lemma fns_step:
  assumes "fns_ok s" and "\<And>j. j \<noteq> i \<Longrightarrow> cs_phase s' j = cs_phase s j"
    and "cs_phase s' i = Idle \<or> (\<exists>p fn. cs_phase s' i = Holding p fn \<and> good_fn p fn)
      \<or> (\<exists>p fn cur. cs_phase s' i = Fetched p fn cur \<and> cs_phase s i = Holding p fn)"
  shows "fns_ok s'"
  unfolding fns_ok_def
proof (intro allI impI)
  fix j p fn cur assume j: "cs_phase s' j = Holding p fn \<or> cs_phase s' j = Fetched p fn cur"
  show "good_fn p fn"
  proof (cases "j = i")
    case True
    with assms(1,3) j show ?thesis unfolding fns_ok_def by auto
  next
    case False
    with assms(1,2) j show ?thesis unfolding fns_ok_def by metis
  qed
qed

lemma cinv_release:
  assumes L: "locks_ok h s" "holds (cs_phase s i) = Some p" and R: "reads_ok F s" and fns: "fns_ok s"
    and inv: "mem_inv F st'" and t: "cs_now s \<le> t"
    and look: "\<And>q u. q \<noteq> p \<Longrightarrow> t \<le> u \<Longrightarrow> mem_look F st' q u = mem_look F (cs_store s) q u"
  shows "cinv F h (release h i p (s\<lparr>cs_store := st', cs_now := t\<rparr>))"
proof -
  let ?s = "release h i p (s\<lparr>cs_store := st', cs_now := t\<rparr>)"
  have "locks_ok h ?s"
    using locks_release [OF L(1) [unfolded locks_ok_def] L(2)]
    by (simp add: locks_ok_def release_def holds_fetched)
  moreover have "reads_ok F ?s"
  proof (rule reads_step [OF R, where i = i])
    fix j q fn cur u assume j: "j \<noteq> i" "cs_phase s j = Fetched q fn cur" "cs_now ?s \<le> u"
    then have "q \<noteq> p" using holds_distinct [OF L(1), of j q i p] L(2) by simp
    with look j(3) show "mem_look F (cs_store ?s) q u = mem_look F (cs_store s) q u"
      by (simp add: release_def)
  qed (use t in \<open>auto simp: release_def\<close>)
  moreover have "fns_ok ?s"
    by (rule fns_step [OF fns, where i = i]) (simp_all add: release_def)
  ultimately show ?thesis using inv by (simp add: cinv_def release_def)
qed

lemma cinv_acquire:
  assumes c: "cinv F h s" and "cs_phase s i = Idle" "cs_stripes s (stripe_of h p) = None" "good_fn p fn"
  shows "cinv F h (s\<lparr>cs_stripes := (cs_stripes s)(stripe_of h p := Some i),
                   cs_phase := (cs_phase s)(i := Holding p fn)\<rparr>)" (is "cinv F h ?s")
proof -
  have "locks_ok h ?s"
    using locks_acquire [of h "cs_stripes s" "\<lambda>i. holds (cs_phase s i)" i p] assms
    by (simp add: locks_ok_def cinv_def holds_fetched)
  moreover have "reads_ok F ?s"
    by (rule reads_step [where s = s and i = i]) (use c in \<open>auto simp: cinv_def\<close>)
  moreover have "fns_ok ?s"
    by (rule fns_step [where s = s and i = i]) (use assms in \<open>auto simp: cinv_def\<close>)
  ultimately show ?thesis using c by (simp add: cinv_def)
qed

lemma cinv_fetch:
  assumes c: "cinv F h s" and i: "cs_phase s i = Holding p fn" and env: "env_ok env" "cs_now s \<le> en_clock env 0"
    and run: "trans_begin F env p (cs_store s) = (Inr cur, st')"
  shows "cinv F h (s\<lparr>cs_store := st', cs_phase := (cs_phase s)(i := Fetched p fn cur),
                   cs_now := en_clock env 1\<rparr>)" (is "cinv F h ?s")
proof -
  have inv: "mem_inv F (cs_store s)" using c by (simp add: cinv_def)
  from trans_begin_law [OF inv env(1), of p] run have
    cur: "cur = mem_look F (cs_store s) p (en_clock env 1)" and st': "mem_inv F st'"
    and look: "\<forall>q t. en_clock env 1 \<le> t \<longrightarrow> mem_look F st' q t = mem_look F (cs_store s) q t" by auto
  have le: "cs_now s \<le> en_clock env 1" using env by (simp add: env_ok_def)
  have "locks_ok h ?s"
    using c i fun_upd_idem [of "\<lambda>j. holds (cs_phase s j)" i "Some p"]
    by (simp add: cinv_def locks_ok_def holds_fetched)
  moreover have "reads_ok F ?s"
  proof (rule reads_step [where s = s and i = i])
    fix p' fn' cur' t assume a: "cs_phase ?s i = Fetched p' fn' cur'" "cs_now ?s \<le> t"
    then have "mem_look F st' p t = mem_look F (cs_store s) p t" using look by simp
    moreover have "mem_look F (cs_store s) p t = cur \<or> mem_look F (cs_store s) p t = None"
      using a(2) cur by (auto simp: mem_look_def split: option.split sum.split prod.split)
    ultimately show "mem_look F (cs_store ?s) p' t = cur' \<or> mem_look F (cs_store ?s) p' t = None"
      using a(1) by simp
  qed (use c le look in \<open>auto simp: cinv_def\<close>)
  moreover have "fns_ok ?s"
    by (rule fns_step [where s = s and i = i]) (use c i in \<open>auto simp: cinv_def\<close>)
  ultimately show ?thesis using st' by (simp add: cinv_def)
qed

lemma cinv_step:
  assumes F: "fernet_ok F" and c: "cinv F h s" and step: "cstep F h s s'"
  shows "cinv F h s' \<and> cs_now s \<le> cs_now s'"
  using step
proof cases
  case (Acquire i p fn)
  with cinv_acquire [OF c] show ?thesis by simp
next
  case (Fetch i p fn env cur st')
  with cinv_fetch [OF c Fetch(2-5)] show ?thesis by (auto simp: env_ok_def)
next
  case (Fetch_error i p fn env e st')
  with trans_begin_law [of F "cs_store s" env p] c show ?thesis by (auto simp: cinv_def)
next
  case (Raise i p fn cur e)
  have "cinv F h (release h i p (s\<lparr>cs_store := cs_store s, cs_now := cs_now s\<rparr>))"
    by (rule cinv_release) (use c Raise in \<open>auto simp: cinv_def\<close>)
  with Raise show ?thesis by (simp add: release_def)
next
  case (Commit i p fn cur new env r st')
  have good: "good_fn p fn" using c Commit(2) unfolding cinv_def fns_ok_def by blast
  have "mem_inv F st' \<and> (\<forall>q t. q \<noteq> p \<longrightarrow> mem_look F st' q t = mem_look F (cs_store s) q t)"
    by (rule trans_commit_any [OF F _ _ Commit(5)]) (use c good Commit(3) in \<open>auto simp: cinv_def good_fn_def\<close>)
  then have "cinv F h (release h i p (s\<lparr>cs_store := st', cs_now := en_clock env 2\<rparr>))"
    by (intro cinv_release) (use c Commit in \<open>auto simp: cinv_def\<close>)
  with Commit show ?thesis by (simp add: release_def)
next
  case (Get env p r st')
  have "mem_inv F (cs_store s)" using c by (simp add: cinv_def)
  from mem_get_law [OF this, of env p] Get(4) have
    st': "mem_inv F st'" and look: "\<forall>q t. en_clock env 0 \<le> t \<longrightarrow> mem_look F st' q t = mem_look F (cs_store s) q t"
    by auto
  have "reads_ok F s'"
    unfolding reads_ok_def
  proof (intro allI impI)
    fix j q fn cur t assume "cs_phase s' j = Fetched q fn cur" "cs_now s' \<le> t"
    then have a: "cs_phase s j = Fetched q fn cur" "cs_now s \<le> t" "en_clock env 0 \<le> t" using Get by auto
    then have "mem_look F (cs_store s) q t = cur \<or> mem_look F (cs_store s) q t = None"
      using c unfolding cinv_def reads_ok_def by metis
    then show "mem_look F (cs_store s') q t = cur \<or> mem_look F (cs_store s') q t = None"
      using look a(3) Get(1) by simp
  qed
  with Get c st' show ?thesis by (simp add: cinv_def locks_ok_def fns_ok_def)
qed

lemma creach_inv: "creach F h s0 s \<Longrightarrow> fernet_ok F \<Longrightarrow> cinv F h s0 \<Longrightarrow> cinv F h s"
  by (induction rule: creach.induct) (use cinv_step in blast)+

section \<open>Properties\<close>


text \<open>A thread in flight can always finish on its own.\<close>

lemma finish_one:
  assumes F: "fernet_ok F" and c: "cinv F h s" and i: "cs_phase s i \<noteq> Idle"
  shows "\<exists>s'. creach F h s s' \<and> cs_phase s' = (cs_phase s)(i := Idle)"
proof -
  let ?env = "at_time (cs_now s)"
  have commit: "\<exists>s'. creach F h s1 s' \<and> cs_phase s' = (cs_phase s)(i := Idle)"
    if s1: "cs_phase s1 = (cs_phase s)(i := Fetched p fn cur)" for s1 p fn cur
  proof (cases "fn cur")
    case (Inl e)
    with s1 have "cstep F h s1 (release h i p s1)"
      by (intro cstep.Raise [where fn = fn and cur = cur and e = e]) auto
    then show ?thesis using s1 by (intro exI [of _ "release h i p s1"]) (auto intro: creach.intros simp: release_def)
  next
    case (Inr new)
    let ?env1 = "at_time (cs_now s1)"
    obtain r st' where "trans_commit F ?env1 p new (cs_store s1) = (r, st')" by fastforce
    with Inr s1 have "cstep F h s1 (release h i p (s1\<lparr>cs_store := st', cs_now := en_clock ?env1 2\<rparr>))"
      by (intro cstep.Commit [where fn = fn and cur = cur and new_state = new]) (auto simp: at_time_def)
    then show ?thesis using s1
      by (intro exI [of _ "release h i p (s1\<lparr>cs_store := st', cs_now := en_clock ?env1 2\<rparr>)"])
        (auto intro: creach.intros simp: release_def)
  qed
  show ?thesis
  proof (cases "cs_phase s i")
    case (Holding p fn)
    have "mem_inv F (cs_store s)" using c by (simp add: cinv_def)
    from trans_begin_law [OF this, of ?env p] obtain cur st' where
      "trans_begin F ?env p (cs_store s) = (Inr cur, st')" by (auto simp: at_time_def env_ok_def)
    with Holding have "cstep F h s (s\<lparr>cs_store := st', cs_phase := (cs_phase s)(i := Fetched p fn cur),
        cs_now := en_clock ?env 1\<rparr>)" (is "cstep F h s ?s1")
      by (intro cstep.Fetch) (auto simp: at_time_def env_ok_def)
    then have "creach F h s ?s1" by (blast intro: creach.intros)
    with commit [of ?s1 p fn cur] creach_trans show ?thesis by fastforce
  next
    case (Fetched p fn cur)
    then show ?thesis using commit [of s p fn cur] by (metis fun_upd_triv)
  qed (use i in simp)
qed

text \<open>
  C15: Nothing blocks for ever (liveness).  From every reachable state, however many transitions are
  in flight, there is a continuation in which every thread finishes and every stripe is free.
\<close>

theorem conc_drains:
  assumes "fernet_ok F" and "creach F h (cinit now ttl m) s"
  shows "\<exists>s'. creach F h s s' \<and> (\<forall>i. cs_phase s' i = Idle) \<and> (\<forall>k. cs_stripes s' k = None)"
proof -
  have c: "cinv F h s" using creach_inv [OF assms(2,1) cinv_init] .
  have "\<exists>s'. creach F h s s' \<and> (\<forall>i. cs_phase s' i = Idle)" if "cinv F h s" for s
    using that
  proof (induction "card {i. cs_phase s i \<noteq> Idle}" arbitrary: s rule: less_induct)
    case less
    have fin: "finite {i. cs_phase s i \<noteq> Idle}"
    proof (rule finite_subset)
      show "{i. cs_phase s i \<noteq> Idle} \<subseteq> {i. holds (cs_phase s i) \<noteq> None}"
      proof
        fix i assume "i \<in> {i. cs_phase s i \<noteq> Idle}"
        then show "i \<in> {i. holds (cs_phase s i) \<noteq> None}" by (cases "cs_phase s i") auto
      qed
      show "finite {i. holds (cs_phase s i) \<noteq> None}"
        using less.prems locks_finite by (fastforce simp: cinv_def locks_ok_def)
    qed
    show ?case
    proof (cases "\<exists>i. cs_phase s i \<noteq> Idle")
      case True
      then obtain i where i: "cs_phase s i \<noteq> Idle" by blast
      from finish_one [OF assms(1) less.prems i] obtain s1 where
        s1: "creach F h s s1" "cs_phase s1 = (cs_phase s)(i := Idle)" by blast
      then have "{j. cs_phase s1 j \<noteq> Idle} = {j. cs_phase s j \<noteq> Idle} - {i}" by auto
      moreover have "card ({j. cs_phase s j \<noteq> Idle} - {i}) < card {j. cs_phase s j \<noteq> Idle}"
        by (rule card_Diff1_less [OF fin]) (use i in simp)
      ultimately have "card {j. cs_phase s1 j \<noteq> Idle} < card {j. cs_phase s j \<noteq> Idle}" by simp
      from less.hyps [OF this creach_inv [OF s1(1) assms(1) less.prems]] s1(1) show ?thesis
        using creach_trans by blast
    qed (auto intro: creach.Start)
  qed
  from this [OF c] obtain s' where s': "creach F h s s'" "\<forall>i. cs_phase s' i = Idle" by blast
  have L: "locks_ok h s'" using creach_inv [OF s'(1) assms(1) c] by (simp add: cinv_def)
  have "cs_stripes s' k = None" for k
    using locksD [OF L [unfolded locks_ok_def], of k] s'(2) by (cases "cs_stripes s' k") auto
  with s' show ?thesis by blast
qed

text \<open>A run for the witnesses: one thread takes a key and reads it.\<close>

definition sample_sys :: csys where
  "sample_sys = (cinit 0 10 5)\<lparr>cs_stripes := (\<lambda>_. None)(0 := Some 7),
     cs_phase := (\<lambda>_. Idle)(7 := Fetched (lit ''p'') (\<lambda>_. Inr None) None)\<rparr>"

lemma sample_sys_reached: "creach clear_fernet (\<lambda>_. 0) (cinit 0 10 5) sample_sys"
proof -
  let ?s1 = "(cinit 0 10 5)\<lparr>cs_stripes := (cs_stripes (cinit 0 10 5))(stripe_of (\<lambda>_. 0) (lit ''p'') := Some 7),
     cs_phase := (cs_phase (cinit 0 10 5))(7 := Holding (lit ''p'') (\<lambda>_. Inr None))\<rparr>"
  have "cstep clear_fernet (\<lambda>_. 0) (cinit 0 10 5) ?s1"
    by (rule cstep.Acquire) (simp_all add: cinit_def good_fn_def)
  moreover have "cstep clear_fernet (\<lambda>_. 0) ?s1 (?s1\<lparr>cs_store := InMemoryRestorationStore 10 5,
      cs_phase := (cs_phase ?s1)(7 := Fetched (lit ''p'') (\<lambda>_. Inr None) None), cs_now := en_clock (at_time 0) 1\<rparr>)"
    by (rule cstep.Fetch)
      (simp_all add: cinit_def at_time_def env_ok_def trans_begin_def evict_expired_def InMemoryRestorationStore_def)
  moreover have "?s1\<lparr>cs_store := InMemoryRestorationStore 10 5,
      cs_phase := (cs_phase ?s1)(7 := Fetched (lit ''p'') (\<lambda>_. Inr None) None),
      cs_now := en_clock (at_time 0) 1\<rparr> = sample_sys"
    by (simp add: sample_sys_def cinit_def at_time_def stripe_of_def)
  ultimately show ?thesis using creach.Step [OF creach.Step [OF creach.Start]] by simp
qed


theorem conc_drains_witness:
  "\<exists>s'. creach clear_fernet (\<lambda>_. 0) sample_sys s' \<and> (\<forall>i. cs_phase s' i = Idle)"
  using conc_drains [OF clear_fernet_ok sample_sys_reached] by blast

end
