(* ===== verification/RedisStore.thy ===== *)
theory RedisStore
  imports RestorationStore
begin

text \<open>
  \<open>app/restoration/redis_store.py\<close>.  The Redis server, Fernet and HMAC are parameters.  A record
  \<open>redis\<close> holds the server's commands over a server state; \<open>redis_ok\<close> states what their documentation
  promises.  Other clients act between the commands of a call, as the functions of the call's
  environment say.
\<close>

section \<open>The server\<close>

text \<open>A reply is \<open>bytes\<close>, or \<open>str\<close> under \<open>decode_responses\<close>.\<close>

datatype reply = Bytes "byte list" | Text pystr

text \<open>
  \<open>r_get st k t\<close>: the reply to \<open>GET k\<close> at time \<open>t\<close>.  \<open>r_set t k v ex\<close>: \<open>SET k v EX ex\<close> at time \<open>t\<close>.
  \<open>r_version st k\<close>: how often \<open>k\<close> was modified; \<open>WATCH\<close> remembers it, and \<open>EXEC\<close> compares.
\<close>

record 's redis =
  r_get :: "'s \<Rightarrow> pystr \<Rightarrow> rat \<Rightarrow> reply option"
  r_set :: "rat \<Rightarrow> pystr \<Rightarrow> pystr \<Rightarrow> int \<Rightarrow> 's \<Rightarrow> 's"
  r_delete :: "pystr \<Rightarrow> 's \<Rightarrow> 's"
  r_version :: "'s \<Rightarrow> pystr \<Rightarrow> nat"

definition is_reply :: "pystr \<Rightarrow> reply \<Rightarrow> bool" where
  "is_reply v r = (case r of Text s \<Rightarrow> s = v | Bytes bs \<Rightarrow> utf8_encode v = Some bs)"

definition redis_ok :: "'s redis \<Rightarrow> bool" where
  "redis_ok R \<longleftrightarrow>
     (\<forall>st k t t'. t \<le> t' \<longrightarrow> r_get R st k t' = r_get R st k t \<or> r_get R st k t' = None)
     \<and> (\<forall>st k v ex now t. r_get R (r_set R now k v ex st) k t \<noteq> None \<longrightarrow> t < now + of_int ex)
     \<and> (\<forall>st k v ex now t. t < now + of_int ex \<longrightarrow>
          (\<exists>r. r_get R (r_set R now k v ex st) k t = Some r \<and> is_reply v r))
     \<and> (\<forall>st k v ex now q t. q \<noteq> k \<longrightarrow> r_get R (r_set R now k v ex st) q t = r_get R st q t)
     \<and> (\<forall>st k t. r_get R (r_delete R k st) k t = None)
     \<and> (\<forall>st k q t. q \<noteq> k \<longrightarrow> r_get R (r_delete R k st) q t = r_get R st q t)"

lemma redis_okD:
  assumes "redis_ok R"
  shows redis_mono: "t \<le> t' \<Longrightarrow> r_get R st k t' = r_get R st k t \<or> r_get R st k t' = None"
    and redis_gone: "r_get R (r_set R now k v ex st) k t \<noteq> None \<Longrightarrow> t < now + of_int ex"
    and redis_hit: "t < now + of_int ex \<Longrightarrow> \<exists>r. r_get R (r_set R now k v ex st) k t = Some r \<and> is_reply v r"
    and redis_other: "q \<noteq> k \<Longrightarrow> r_get R (r_set R now k v ex st) q t = r_get R st q t"
  using assms by (simp_all add: redis_ok_def)

text \<open>
  What other clients may do to the server: a key they did not modify keeps its version and shows
  what it showed, or has expired.
\<close>

definition fair :: "'s redis \<Rightarrow> ('s \<Rightarrow> 's) \<Rightarrow> bool" where
  "fair R g \<longleftrightarrow> (\<forall>st k. r_version R st k \<le> r_version R (g st) k
     \<and> (r_version R (g st) k = r_version R st k \<longrightarrow> (\<forall>t. r_get R (g st) k t = r_get R st k t)))"

section \<open>The store\<close>

definition KEY_PREFIX :: pystr where
  "KEY_PREFIX = lit ''pii:restore:''"

definition MAX_CAS_RETRIES :: nat where
  "MAX_CAS_RETRIES = 5"

text \<open>\<open>mac\<close> is HMAC-SHA-256 as a hexadecimal text.\<close>

record redis_store =
  rc_ttl_seconds :: int
  rc_fernet :: fernet
  rc_hmac_secret :: "byte list"
  rc_mac :: "byte list \<Rightarrow> byte list \<Rightarrow> pystr"

text \<open>The constructor: \<open>Fernet\<close> is the parameter \<open>fern\<close>, a function of the key.\<close>

definition RedisRestorationStore ::
    "(pystr \<Rightarrow> fernet) \<Rightarrow> (byte list \<Rightarrow> byte list \<Rightarrow> pystr) \<Rightarrow> int \<Rightarrow> pystr option \<Rightarrow> pystr option
      \<Rightarrow> pystr option \<Rightarrow> exn + redis_store" where
  "RedisRestorationStore fern mac ttl_seconds masking_key key_hmac_secret env_key =
     ebind (build_fernet_redis masking_key env_key) (\<lambda>src.
       let f = fern (case src of KeyGiven k \<Rightarrow> k | KeyGenerated \<Rightarrow> []);
           secret = (case or_str key_hmac_secret (or_str masking_key env_key) of None \<Rightarrow> [] | Some s \<Rightarrow> s)
       in case utf8_encode secret of
            None \<Rightarrow> Inl UnicodeEncodeError
          | Some bs \<Rightarrow>
              if bs = [] then Inl (RuntimeError (lit ''MASKING_KEY must be set when using the Redis restoration store''))
              else Inr \<lparr>rc_ttl_seconds = ttl_seconds, rc_fernet = f, rc_hmac_secret = bs, rc_mac = mac\<rparr>)"

definition redis_key :: "redis_store \<Rightarrow> pystr \<Rightarrow> exn + pystr" where
  "redis_key C payload_id =
     (case utf8_encode payload_id of
        None \<Rightarrow> Inl UnicodeEncodeError
      | Some bs \<Rightarrow> Inr (KEY_PREFIX @ rc_mac C (rc_hmac_secret C) bs))"

definition redis_decode :: "redis_store \<Rightarrow> pystr \<Rightarrow> reply \<Rightarrow> exn + rstate" where
  "redis_decode C payload_id raw =
     ebind (case raw of Text s \<Rightarrow> Inr s
              | Bytes bs \<Rightarrow> (case utf8_decode bs of None \<Rightarrow> Inl ValueError | Some s \<Rightarrow> Inr s))
       (\<lambda>s. case utf8_encode s of None \<Rightarrow> Inl UnicodeEncodeError
          | Some tok \<Rightarrow> unseal (rc_fernet C) payload_id tok)"

definition redis_encode :: "redis_store \<Rightarrow> nat \<Rightarrow> rstate \<Rightarrow> exn + pystr" where
  "redis_encode C nonce s =
     ebind (seal (rc_fernet C) nonce s)
       (\<lambda>tok. case utf8_decode tok of None \<Rightarrow> Inl ValueError | Some v \<Rightarrow> Inr v)"

text \<open>
  One call: the time of each \<open>GET\<close> and \<open>EXEC\<close>, the nonces, and what other clients do before each
  \<open>WATCH\<close>, between \<open>WATCH\<close> and \<open>GET\<close>, and between \<open>GET\<close> and \<open>EXEC\<close>.
\<close>

record 's renv =
  re_get :: "nat \<Rightarrow> rat"
  re_exec :: "nat \<Rightarrow> rat"
  re_nonce :: "nat \<Rightarrow> nat"
  re_before :: "nat \<Rightarrow> 's \<Rightarrow> 's"
  re_mid :: "nat \<Rightarrow> 's \<Rightarrow> 's"
  re_late :: "nat \<Rightarrow> 's \<Rightarrow> 's"

definition redis_read :: "'s redis \<Rightarrow> redis_store \<Rightarrow> pystr \<Rightarrow> pystr \<Rightarrow> rat \<Rightarrow> 's \<Rightarrow> exn + rstate option" where
  "redis_read R C payload_id key t st =
     (case r_get R st key t of
        None \<Rightarrow> Inr None
      | Some raw \<Rightarrow> ebind (redis_decode C payload_id raw) (\<lambda>s. Inr (Some s)))"

definition redis_get :: "'s redis \<Rightarrow> redis_store \<Rightarrow> 's renv \<Rightarrow> pystr \<Rightarrow> 's \<Rightarrow> (exn + rstate option) \<times> 's" where
  "redis_get R C env payload_id st0 =
     (let st = re_before env 0 st0 in
      (ebind (redis_key C payload_id) (\<lambda>key. redis_read R C payload_id key (re_get env 0) st), st))"

definition redis_save :: "'s redis \<Rightarrow> redis_store \<Rightarrow> 's renv \<Rightarrow> pystr \<Rightarrow> rstate \<Rightarrow> 's \<Rightarrow> (exn + unit) \<times> 's" where
  "redis_save R C env payload_id s st0 =
     (let st = re_before env 0 st0 in
      case ebind (redis_key C payload_id) (\<lambda>key. ebind (redis_encode C (re_nonce env 0) s) (\<lambda>v. Inr (key, v))) of
        Inl e \<Rightarrow> (Inl e, st)
      | Inr (key, v) \<Rightarrow> (Inr (), r_set R (re_exec env 0) key v (rc_ttl_seconds C) st))"

definition redis_delete :: "'s redis \<Rightarrow> redis_store \<Rightarrow> 's renv \<Rightarrow> pystr \<Rightarrow> 's \<Rightarrow> (exn + unit) \<times> 's" where
  "redis_delete R C env payload_id st0 =
     (let st = re_before env 0 st0 in
      case redis_key C payload_id of Inl e \<Rightarrow> (Inl e, st) | Inr key \<Rightarrow> (Inr (), r_delete R key st))"

definition cas_error :: exn where
  "cas_error = ServiceOverloadedError (lit ''concurrent modification of restoration state'') 1"

text \<open>The queued command: \<open>None\<close> deletes.\<close>

definition redis_command ::
    "'s redis \<Rightarrow> redis_store \<Rightarrow> rat \<Rightarrow> nat \<Rightarrow> pystr \<Rightarrow> rstate option \<Rightarrow> exn + ('s \<Rightarrow> 's)" where
  "redis_command R C t nonce key new_state =
     (case new_state of
        None \<Rightarrow> Inr (r_delete R key)
      | Some s \<Rightarrow> ebind (redis_encode C nonce s) (\<lambda>v. Inr (r_set R t key v (rc_ttl_seconds C))))"

text \<open>One turn of the loop: \<open>None\<close> is the \<open>WatchError\<close>.\<close>

definition cas_attempt ::
    "'s redis \<Rightarrow> redis_store \<Rightarrow> 's renv \<Rightarrow> pystr \<Rightarrow> pystr \<Rightarrow> transition_fn \<Rightarrow> nat \<Rightarrow> 's
      \<Rightarrow> (exn + rstate option) option \<times> 's" where
  "cas_attempt R C env payload_id key fn a st0 =
     (let watched = re_before env a st0;
          st = re_mid env a watched
      in case ebind (redis_read R C payload_id key (re_get env a) st) (\<lambda>current.
                ebind (fn current) (\<lambda>new_state.
                ebind (redis_command R C (re_exec env a) (re_nonce env a) key new_state) (\<lambda>cmd.
                  Inr (new_state, cmd)))) of
           Inl e \<Rightarrow> (Some (Inl e), st)
         | Inr (new_state, cmd) \<Rightarrow>
             let st' = re_late env a st
             in if r_version R st' key = r_version R watched key then (Some (Inr new_state), cmd st')
                else (None, st'))"

fun cas_loop ::
    "'s redis \<Rightarrow> redis_store \<Rightarrow> 's renv \<Rightarrow> pystr \<Rightarrow> pystr \<Rightarrow> transition_fn \<Rightarrow> nat \<Rightarrow> nat \<Rightarrow> 's
      \<Rightarrow> (exn + rstate option) \<times> 's" where
  "cas_loop R C env payload_id key fn a 0 st = (Inl cas_error, st)"
| "cas_loop R C env payload_id key fn a (Suc n) st =
     (case cas_attempt R C env payload_id key fn a st of
        (Some r, st') \<Rightarrow> (r, st')
      | (None, st') \<Rightarrow> cas_loop R C env payload_id key fn (Suc a) n st')"

definition redis_transition ::
    "'s redis \<Rightarrow> redis_store \<Rightarrow> 's renv \<Rightarrow> pystr \<Rightarrow> transition_fn \<Rightarrow> 's \<Rightarrow> (exn + rstate option) \<times> 's" where
  "redis_transition R C env payload_id fn st =
     (case redis_key C payload_id of
        Inl e \<Rightarrow> (Inl e, st)
      | Inr key \<Rightarrow> cas_loop R C env payload_id key fn 0 MAX_CAS_RETRIES st)"

section \<open>Other clients\<close>

text \<open>The server after \<open>n\<close> attempts from attempt \<open>a\<close> in which only the other clients acted\<close>

definition quiet_read :: "'s renv \<Rightarrow> nat \<Rightarrow> 's \<Rightarrow> 's" where
  "quiet_read env a st = re_mid env a (re_before env a st)"

fun others :: "'s renv \<Rightarrow> nat \<Rightarrow> nat \<Rightarrow> 's \<Rightarrow> 's" where
  "others env a 0 st = st"
| "others env a (Suc n) st = others env (Suc a) n (re_late env a (quiet_read env a st))"

definition fair_env :: "'s redis \<Rightarrow> 's renv \<Rightarrow> bool" where
  "fair_env R env \<longleftrightarrow> (\<forall>a. fair R (re_before env a) \<and> fair R (re_mid env a) \<and> fair R (re_late env a))"

lemma others_snoc: "others env a (Suc n) st = re_late env (a + n) (quiet_read env (a + n) (others env a n st))"
  by (induction n arbitrary: a st) (simp_all only: others.simps add_0_right add_Suc_right add_Suc)

text \<open>If the version is that of the \<open>WATCH\<close>, the key has shown the same in between.\<close>

lemma fair_two:
  assumes "fair R g" and "fair R h" and "r_version R (h (g st)) k = r_version R st k"
  shows "r_get R (g st) k t = r_get R st k t" and "r_get R (h (g st)) k t = r_get R (g st) k t"
proof -
  have g: "r_version R st k \<le> r_version R (g st) k"
    "r_version R (g st) k = r_version R st k \<Longrightarrow> r_get R (g st) k t = r_get R st k t"
    using assms(1) unfolding fair_def by blast+
  have h: "r_version R (g st) k \<le> r_version R (h (g st)) k"
    "r_version R (h (g st)) k = r_version R (g st) k \<Longrightarrow> r_get R (h (g st)) k t = r_get R (g st) k t"
    using assms(2) unfolding fair_def by blast+
  from g(1) h(1) assms(3) have "r_version R (g st) k = r_version R st k"
    "r_version R (h (g st)) k = r_version R (g st) k" by linarith+
  with g(2) h(2) show "r_get R (g st) k t = r_get R st k t" "r_get R (h (g st)) k t = r_get R (g st) k t"
    by blast+
qed

text \<open>The three ends of an attempt\<close>

lemma cas_attempt_cases:
  assumes fair: "fair_env R env"
  shows "(\<exists>e. cas_attempt R C env p key fn a st = (Some (Inl e), quiet_read env a st))
    \<or> cas_attempt R C env p key fn a st = (None, re_late env a (quiet_read env a st))
      \<and> r_version R (re_late env a (quiet_read env a st)) key \<noteq> r_version R (re_before env a st) key
    \<or> (\<exists>cur new cmd. redis_read R C p key (re_get env a) (re_late env a (quiet_read env a st)) = Inr cur
        \<and> fn cur = Inr new \<and> redis_command R C (re_exec env a) (re_nonce env a) key new = Inr cmd
        \<and> cas_attempt R C env p key fn a st = (Some (Inr new), cmd (re_late env a (quiet_read env a st))))"
proof -
  let ?st = "quiet_read env a st"
  let ?r = "ebind (redis_read R C p key (re_get env a) ?st) (\<lambda>current. ebind (fn current) (\<lambda>new_state.
      ebind (redis_command R C (re_exec env a) (re_nonce env a) key new_state) (\<lambda>cmd. Inr (new_state, cmd))))"
  show ?thesis
  proof (cases ?r)
    case (Inl e)
    then show ?thesis by (simp add: cas_attempt_def Let_def quiet_read_def)
  next
    case (Inr nc)
    obtain new cmd where nc: "nc = (new, cmd)" by (cases nc)
    from Inr obtain cur where cur: "redis_read R C p key (re_get env a) ?st = Inr cur" "fn cur = Inr new"
      "redis_command R C (re_exec env a) (re_nonce env a) key new = Inr cmd"
      by (auto simp: ebind_def nc split: sum.splits)
    show ?thesis
    proof (cases "r_version R (re_late env a ?st) key = r_version R (re_before env a st) key")
      case True
      have "r_get R (re_late env a ?st) key t = r_get R ?st key t" for t
        using fair_two(2) [of R "re_mid env a" "re_late env a" "re_before env a st" key t] fair True
        by (simp add: fair_env_def quiet_read_def)
      with cur have "redis_read R C p key (re_get env a) (re_late env a ?st) = Inr cur"
        by (simp add: redis_read_def)
      moreover have "cas_attempt R C env p key fn a st = (Some (Inr new), cmd (re_late env a ?st))"
        using Inr True by (simp add: cas_attempt_def Let_def quiet_read_def nc)
      ultimately show ?thesis using cur by blast
    next
      case False
      with Inr show ?thesis by (simp add: cas_attempt_def Let_def quiet_read_def nc)
    qed
  qed
qed

lemma cas_loop_cases:
  assumes fair: "fair_env R env" and run: "cas_loop R C env p key fn a n st = (r, st')"
  shows "(\<exists>m new cur cmd. m < n \<and> r = Inr new \<and> fn cur = Inr new
       \<and> redis_read R C p key (re_get env (a + m)) (others env a (Suc m) st) = Inr cur
       \<and> redis_command R C (re_exec env (a + m)) (re_nonce env (a + m)) key new = Inr cmd
       \<and> st' = cmd (others env a (Suc m) st))
    \<or> (\<exists>e m. r = Inl e \<and> m < n \<and> st' = quiet_read env (a + m) (others env a m st))
    \<or> r = Inl cas_error \<and> st' = others env a n st"
  using run
proof (induction n arbitrary: a st)
  case (Suc n)
  let ?next = "re_late env a (quiet_read env a st)"
  consider (error) e where "cas_attempt R C env p key fn a st = (Some (Inl e), quiet_read env a st)"
    | (retry) "cas_attempt R C env p key fn a st = (None, ?next)"
    | (done_) cur new cmd where "redis_read R C p key (re_get env a) ?next = Inr cur" "fn cur = Inr new"
        "redis_command R C (re_exec env a) (re_nonce env a) key new = Inr cmd"
        "cas_attempt R C env p key fn a st = (Some (Inr new), cmd ?next)"
    using cas_attempt_cases [OF fair, of C p key fn a st] by blast
  then show ?case
  proof cases
    case error
    with Suc.prems show ?thesis by (intro disjI2 disjI1 exI [of _ e] exI [of _ 0]) simp
  next
    case retry
    with Suc.prems have "cas_loop R C env p key fn (Suc a) n ?next = (r, st')" by simp
    from Suc.IH [OF this] show ?thesis
    proof (elim disjE exE conjE)
      fix m new cur cmd
      assume "m < n" "r = Inr new" "fn cur = Inr new"
        "redis_read R C p key (re_get env (Suc a + m)) (others env (Suc a) (Suc m) ?next) = Inr cur"
        "redis_command R C (re_exec env (Suc a + m)) (re_nonce env (Suc a + m)) key new = Inr cmd"
        "st' = cmd (others env (Suc a) (Suc m) ?next)"
      then show ?thesis
        by (intro disjI1 exI [of _ "Suc m"] exI [of _ new] exI [of _ cur] exI [of _ cmd]) simp
    next
      fix e m assume "r = Inl e" "m < n" "st' = quiet_read env (Suc a + m) (others env (Suc a) m ?next)"
      then show ?thesis by (intro disjI2 disjI1 exI [of _ e] exI [of _ "Suc m"]) simp
    qed simp
  next
    case done_
    with Suc.prems show ?thesis
      by (intro disjI1 exI [of _ 0] exI [of _ new] exI [of _ cur] exI [of _ cmd]) simp
  qed
qed simp

lemma cas_loop_undisturbed:
  assumes fair: "fair_env R env" and m: "m < n"
    and calm: "r_version R (others env a (Suc m) st) key
      = r_version R (re_before env (a + m) (others env a m st)) key"
  shows "\<exists>k r st'. k \<le> m \<and> cas_attempt R C env p key fn (a + k) (others env a k st) = (Some r, st')
    \<and> cas_loop R C env p key fn a n st = (r, st')"
  using m calm
proof (induction n arbitrary: a st m)
  case (Suc n)
  let ?next = "re_late env a (quiet_read env a st)"
  show ?case
  proof (cases "fst (cas_attempt R C env p key fn a st)")
    case (Some r)
    then show ?thesis
      by (intro exI [of _ 0] exI [of _ r] exI [of _ "snd (cas_attempt R C env p key fn a st)"])
        (simp add: prod_eq_iff split: prod.split)
  next
    case None
    then have retry: "cas_attempt R C env p key fn a st = (None, ?next)"
      and v: "r_version R ?next key \<noteq> r_version R (re_before env a st) key"
      using cas_attempt_cases [OF fair, of C p key fn a st] by auto
    from v Suc.prems(2) obtain m' where m': "m = Suc m'" by (cases m) auto
    with Suc.IH [of m' "Suc a" ?next] Suc.prems retry obtain k r st' where
      "k \<le> m'" "cas_attempt R C env p key fn (Suc a + k) (others env (Suc a) k ?next) = (Some r, st')"
      "cas_loop R C env p key fn (Suc a) n ?next = (r, st')" by auto
    with retry m' show ?thesis by (intro exI [of _ "Suc k"] exI [of _ r] exI [of _ st']) simp
  qed
qed simp

section \<open>The store without interference keeps the contract\<close>

text \<open>Distinct payload ids have distinct keys: HMAC does not collide on them.\<close>

definition keys_distinct :: "redis_store \<Rightarrow> bool" where
  "keys_distinct C \<longleftrightarrow> (\<forall>p q k. redis_key C p = Inr k \<longrightarrow> redis_key C q = Inr k \<longrightarrow> p = q)"

text \<open>Fernet tokens are URL-safe base64, thus ASCII.\<close>

definition fernet_text :: "fernet \<Rightarrow> bool" where
  "fernet_text F \<longleftrightarrow> (\<forall>n bs. \<forall>c \<in> set (f_encrypt F n bs). c < 128)"

definition redis_look :: "'s redis \<Rightarrow> redis_store \<Rightarrow> 's \<Rightarrow> pystr \<Rightarrow> rat \<Rightarrow> rstate option" where
  "redis_look R C st p t =
     (case redis_key C p of Inl e \<Rightarrow> None
      | Inr key \<Rightarrow> (case redis_read R C p key t st of Inl e \<Rightarrow> None | Inr cur \<Rightarrow> cur))"

definition redis_inv :: "'s redis \<Rightarrow> redis_store \<Rightarrow> 's \<Rightarrow> bool" where
  "redis_inv R C st \<longleftrightarrow> redis_ok R \<and> keys_distinct C \<and> fernet_ok (rc_fernet C) \<and> fernet_text (rc_fernet C)
     \<and> (\<forall>p key t raw. redis_key C p = Inr key \<longrightarrow> r_get R st key t = Some raw \<longrightarrow>
          (\<exists>s. redis_decode C p raw = Inr s \<and> state_ok s \<and> rs_payload_id s = p))"

definition undisturbed :: "'s renv \<Rightarrow> bool" where
  "undisturbed env \<longleftrightarrow> re_get env 0 \<le> re_exec env 0
     \<and> re_before env 0 = id \<and> re_mid env 0 = id \<and> re_late env 0 = id"

lemma redis_key_scalar: "list_all is_scalar p \<Longrightarrow> \<exists>k. redis_key C p = Inr k"
  using utf8_defined [of p] by (auto simp: redis_key_def list_all_iff)

lemma redis_read_look:
  assumes "redis_inv R C st" and "redis_key C p = Inr key"
  shows "redis_read R C p key t st = Inr (redis_look R C st p t)"
proof (cases "r_get R st key t")
  case None
  with assms(2) show ?thesis by (simp add: redis_read_def redis_look_def)
next
  case (Some raw)
  with assms obtain s where "redis_decode C p raw = Inr s" unfolding redis_inv_def by blast
  with Some assms(2) show ?thesis by (simp add: redis_read_def redis_look_def)
qed

lemma redis_encode_decode:
  assumes "fernet_ok (rc_fernet C)" "fernet_text (rc_fernet C)" "state_ok s" "rs_payload_id s = p"
  shows "\<exists>v. redis_encode C n s = Inr v \<and> (\<forall>r. is_reply v r \<longrightarrow> redis_decode C p r = Inr s)"
proof -
  from seal_unseal [OF assms(1,3), of n p] assms(4) obtain tok where
    tok: "seal (rc_fernet C) n s = Inr tok" "unseal (rc_fernet C) p tok = Inr s" by auto
  from tok(1) obtain bs where "tok = f_encrypt (rc_fernet C) n bs"
    by (auto simp: seal_def ebind_def split: sum.splits option.splits)
  with assms(2) have "\<forall>c \<in> set tok. c < 128" by (simp add: fernet_text_def)
  then have ascii: "utf8_encode tok = Some tok" "utf8_decode tok = Some tok" using utf8_ascii by auto
  have "redis_decode C p r = Inr s" if "is_reply tok r" for r
    using that tok(2) ascii by (cases r) (auto simp: is_reply_def redis_decode_def)
  moreover have "redis_encode C n s = Inr tok" using tok(1) ascii by (simp add: redis_encode_def)
  ultimately show ?thesis by blast
qed

lemma redis_undisturbed:
  assumes "undisturbed env" and "redis_inv R C st" and "redis_key C p = Inr key"
  shows "redis_transition R C env p fn st =
    (case ebind (fn (redis_look R C st p (re_get env 0))) (\<lambda>new.
        ebind (redis_command R C (re_exec env 0) (re_nonce env 0) key new) (\<lambda>cmd. Inr (new, cmd))) of
       Inl e \<Rightarrow> (Inl e, st) | Inr (new, cmd) \<Rightarrow> (Inr new, cmd st))"
  using assms redis_read_look [OF assms(2,3)]
  by (auto simp: redis_transition_def MAX_CAS_RETRIES_def eval_nat_numeral undisturbed_def cas_attempt_def
      Let_def split: sum.split)

lemma redis_set_look:
  fixes now :: rat
  assumes inv: "redis_inv R C st" and key: "redis_key C p = Inr key"
    and s: "state_ok s" "rs_payload_id s = p" and v: "redis_encode C n s = Inr v"
  defines "st' \<equiv> r_set R now key v (rc_ttl_seconds C) st"
  shows "redis_inv R C st'"
    and "q \<noteq> p \<Longrightarrow> redis_look R C st' q t = redis_look R C st q t"
    and "t < now + of_int (rc_ttl_seconds C) \<Longrightarrow> redis_look R C st' p t = Some s"
proof -
  have R: "redis_ok R" and kd: "keys_distinct C" and F: "fernet_ok (rc_fernet C)" "fernet_text (rc_fernet C)"
    using inv by (auto simp: redis_inv_def)
  have dec: "redis_decode C p r = Inr s" if "is_reply v r" for r
    using redis_encode_decode [OF F s, of n] v that by auto
  have hit: "\<exists>r. r_get R st' key t = Some r \<and> is_reply v r" if "t < now + of_int (rc_ttl_seconds C)" for t
    using redis_hit [OF R that] by (simp add: st'_def)
  have gone: "r_get R st' key t \<noteq> None \<Longrightarrow> t < now + of_int (rc_ttl_seconds C)" for t
    using redis_gone [OF R] by (simp add: st'_def)
  have other: "r_get R st' k t = r_get R st k t" if "k \<noteq> key" for k t
    using redis_other [OF R that] by (simp add: st'_def)
  have keys: "k \<noteq> key" if "redis_key C q = Inr k" "q \<noteq> p" for q k
    using kd key that unfolding keys_distinct_def by blast
  show "redis_inv R C st'"
    unfolding redis_inv_def
  proof (intro conjI allI impI R kd F)
    fix q k t raw assume q: "redis_key C q = Inr k" "r_get R st' k t = Some raw"
    show "\<exists>s. redis_decode C q raw = Inr s \<and> state_ok s \<and> rs_payload_id s = q"
    proof (cases "q = p")
      case True
      with q key have "k = key" by simp
      with q(2) gone [of t] hit [of t] have "is_reply v raw" by auto
      with dec s True show ?thesis by auto
    next
      case False
      with keys q(1) have "k \<noteq> key" by blast
      with other q inv show ?thesis unfolding redis_inv_def by metis
    qed
  qed
  show "redis_look R C st' q t = redis_look R C st q t" if "q \<noteq> p"
    using keys [of q] that other by (auto simp: redis_look_def redis_read_def split: sum.split)
  show "redis_look R C st' p t = Some s" if "t < now + of_int (rc_ttl_seconds C)"
    using hit [OF that] dec key by (auto simp: redis_look_def redis_read_def)
qed

interpretation rds: restoration_store
  "redis_get R C" "redis_transition R C" "redis_inv R C" "redis_look R C" undisturbed
  "\<lambda>env. re_get env 0" "\<lambda>env. re_get env 0" "\<lambda>env. re_exec env 0" "\<lambda>st. of_int (rc_ttl_seconds C)" for R C
proof (unfold_locales, goal_cases)
  case (1 st env p)
  then obtain key where "redis_key C p = Inr key" using redis_key_scalar by blast
  with 1 redis_read_look [of R C st p key] show ?case
    by (auto simp: redis_get_def undisturbed_def Let_def)
next
  case (2 st env p fn e)
  then obtain key where "redis_key C p = Inr key" using redis_key_scalar by blast
  with 2 redis_undisturbed [of env R C st p key fn] show ?case by simp
next
  case (3 st env fn p s)
  then obtain key where key: "redis_key C p = Inr key"
    using redis_key_scalar [of p C] by (auto simp: state_ok_def)
  from 3 redis_encode_decode [of C s p "re_nonce env 0"] obtain v where
    v: "redis_encode C (re_nonce env 0) s = Inr v" by (auto simp: redis_inv_def)
  have "redis_transition R C env p fn st =
      (Inr (Some s), r_set R (re_exec env 0) key v (rc_ttl_seconds C) st)"
    using redis_undisturbed [of env R C st p key fn] 3 key v by (simp add: redis_command_def)
  with redis_set_look [OF 3(1) key 3(4,5) v] show ?case by blast
next
  case (4 env)
  then show ?case by (simp add: undisturbed_def)
next
  case (5 st p t s)
  then obtain key where key: "redis_key C p = Inr key" by (auto simp: redis_look_def split: sum.splits)
  with 5 redis_read_look [of R C st p key t] obtain raw where
    "r_get R st key t = Some raw" "redis_decode C p raw = Inr s"
    by (auto simp: redis_read_def ebind_def split: option.splits sum.splits)
  with 5(1) key show ?case unfolding redis_inv_def by fastforce
next
  case (6 st p t t')
  show ?case
  proof (cases "redis_key C p")
    case (Inr key)
    have "r_get R st key t' = r_get R st key t \<or> r_get R st key t' = None"
      using 6 redis_mono [of R t t' st key] by (simp add: redis_inv_def)
    with 6 Inr show ?thesis by (auto simp: redis_look_def redis_read_def)
  qed (simp add: redis_look_def)
qed

section \<open>Properties\<close>

text \<open>
  C18: The compare-and-set of the Redis store is atomic whatever other clients do (refinement).  A
  transition that returns a state has applied its function to exactly what the key holds at the
  moment of \<open>EXEC\<close> and replaced it by the result, with at most five attempts; one that raises has
  written nothing: the server is as the other clients alone have left it.
\<close>

theorem redis_transition_atomic:
  assumes "fair_env R env" and "redis_key C p = Inr key" and "redis_transition R C env p fn st = (r, st')"
  shows "(\<exists>m new cur cmd. m < 5 \<and> r = Inr new \<and> fn cur = Inr new
       \<and> redis_read R C p key (re_get env m) (others env 0 (Suc m) st) = Inr cur
       \<and> redis_command R C (re_exec env m) (re_nonce env m) key new = Inr cmd
       \<and> st' = cmd (others env 0 (Suc m) st))
    \<or> (\<exists>e m. r = Inl e \<and> m < 5 \<and> st' = quiet_read env m (others env 0 m st))
    \<or> r = Inl cas_error \<and> st' = others env 0 5 st"
  using cas_loop_cases [OF assms(1), of C p key fn 0 5 st r st'] assms(2,3)
  by (simp add: redis_transition_def MAX_CAS_RETRIES_def del: others.simps)


section \<open>A server\<close>

text \<open>A reference server that meets \<open>redis_ok\<close>, for the witnesses\<close>

record server =
  sv_data :: "pystr \<Rightarrow> (pystr \<times> rat) option"
  sv_version :: "pystr \<Rightarrow> nat"

definition empty_server :: server where
  "empty_server = \<lparr>sv_data = (\<lambda>_. None), sv_version = (\<lambda>_. 0)\<rparr>"

definition touch :: "pystr \<Rightarrow> server \<Rightarrow> server" where
  "touch k st = st\<lparr>sv_version := (sv_version st)(k := Suc (sv_version st k))\<rparr>"

definition reference_redis :: "server redis" where
  "reference_redis =
     \<lparr>r_get = (\<lambda>st k t. case sv_data st k of None \<Rightarrow> None
                | Some (v, x) \<Rightarrow> if t < x then Some (Text v) else None),
      r_set = (\<lambda>t k v ex st. touch k (st\<lparr>sv_data := (sv_data st)(k := Some (v, t + of_int ex))\<rparr>)),
      r_delete = (\<lambda>k st. touch k (st\<lparr>sv_data := (sv_data st)(k := None)\<rparr>)),
      r_version = sv_version\<rparr>"

lemma reference_redis_ok: "redis_ok reference_redis"
  by (auto simp: redis_ok_def reference_redis_def touch_def is_reply_def split: option.split)

text \<open>One other client modifies the key between \<open>GET\<close> and \<open>EXEC\<close> of the first attempt.\<close>

definition busy_env :: "pystr \<Rightarrow> server renv" where
  "busy_env k = \<lparr>re_get = of_nat, re_exec = of_nat, re_nonce = id, re_before = (\<lambda>_. id), re_mid = (\<lambda>_. id),
     re_late = (\<lambda>a. if a = 0 then r_set reference_redis 0 k (lit ''x'') 0 else id)\<rparr>"

definition sample_redis :: redis_store where
  "sample_redis = \<lparr>rc_ttl_seconds = 60, rc_fernet = clear_fernet, rc_hmac_secret = [1],
     rc_mac = (\<lambda>_ bs. bs)\<rparr>"

lemma busy_fair: "fair_env reference_redis (busy_env k)"
  by (auto simp: fair_env_def fair_def busy_env_def reference_redis_def touch_def)

lemma sample_key: "redis_key sample_redis [] = Inr KEY_PREFIX"
  by (simp add: redis_key_def sample_redis_def)

theorem redis_transition_atomic_witness:
  "\<exists>r st'. redis_transition reference_redis sample_redis (busy_env KEY_PREFIX) [] Inr empty_server = (r, st')
    \<and> ((\<exists>m new cmd. m < 5 \<and> r = Inr new \<and> st' = cmd (others (busy_env KEY_PREFIX) 0 (Suc m) empty_server))
      \<or> (\<exists>e m. r = Inl e \<and> m < 5
          \<and> st' = quiet_read (busy_env KEY_PREFIX) m (others (busy_env KEY_PREFIX) 0 m empty_server))
      \<or> r = Inl cas_error \<and> st' = others (busy_env KEY_PREFIX) 0 5 empty_server)"
proof -
  obtain r st' where
    run: "redis_transition reference_redis sample_redis (busy_env KEY_PREFIX) [] Inr empty_server = (r, st')"
    by fastforce
  from redis_transition_atomic [OF busy_fair sample_key run] run show ?thesis by metis
qed


end
