(* ===== verification/Regex.thy ===== *)
theory Regex
  imports PyStr
begin

text \<open>
  The part of Python's \<open>re\<close> module that the detector's patterns use: a backtracking matcher with
  ordered alternatives, greedy and lazy bounded repetition, one capturing group, one-character
  look-around, word boundaries and \<open>$\<close>.  \<open>matches r t s\<close> lists the ways \<open>r\<close> can match from state
  \<open>s\<close> in the order in which the engine tries them; the engine takes the first one with which the
  rest of the pattern succeeds, so a match is the head of the list for the whole pattern.
\<close>

section \<open>Definitions\<close>

datatype rx =
  Eps
| Cls "codepoint \<Rightarrow> bool"
| Seq rx rx
| Alt rx rx
| Rep nat "nat option" bool rx
| Grp rx
| NotBehind "codepoint \<Rightarrow> bool"
| NotAhead "codepoint \<Rightarrow> bool"
| WordB "codepoint \<Rightarrow> bool"
| EndA

text \<open>A position in the text and the span of the group, if it took part in the match\<close>

type_synonym rx_state = "nat \<times> (nat \<times> nat) option"

text \<open>
  \<open>reps f greedy lo extra\<close>: at least \<open>lo\<close> and at most \<open>lo + extra\<close> rounds of \<open>f\<close>; an optional
  round that consumes nothing is not taken.
\<close>

fun reps :: "(rx_state \<Rightarrow> rx_state list) \<Rightarrow> bool \<Rightarrow> nat \<Rightarrow> nat \<Rightarrow> rx_state \<Rightarrow> rx_state list" where
  "reps f greedy (Suc lo) extra s = concat (map (reps f greedy lo extra) (f s))"
| "reps f greedy 0 0 s = [s]"
| "reps f greedy 0 (Suc extra) s =
     (let more = concat (map (\<lambda>s'. if fst s' = fst s then [] else reps f greedy 0 extra s') (f s))
      in if greedy then more @ [s] else s # more)"

primrec matches :: "rx \<Rightarrow> pystr \<Rightarrow> rx_state \<Rightarrow> rx_state list" where
  "matches Eps t s = [s]"
| "matches (Cls P) t s =
     (if fst s < length t \<and> P (t ! fst s) then [(Suc (fst s), snd s)] else [])"
| "matches (Seq a b) t s = concat (map (matches b t) (matches a t s))"
| "matches (Alt a b) t s = matches a t s @ matches b t s"
| "matches (Rep lo hi greedy a) t s =
     reps (matches a t) greedy lo (case hi of None \<Rightarrow> length t | Some h \<Rightarrow> h - lo) s"
| "matches (Grp a) t s = map (\<lambda>s'. (fst s', Some (fst s, fst s'))) (matches a t s)"
| "matches (NotBehind P) t s = (if fst s > 0 \<and> P (t ! (fst s - 1)) then [] else [s])"
| "matches (NotAhead P) t s = (if fst s < length t \<and> P (t ! fst s) then [] else [s])"
| "matches (WordB W) t s =
     (if (fst s > 0 \<and> W (t ! (fst s - 1))) \<noteq> (fst s < length t \<and> W (t ! fst s)) then [s] else [])"
| "matches EndA t s =
     (if fst s = length t \<or> Suc (fst s) = length t \<and> t ! fst s = 10 then [s] else [])"

text \<open>A match object: the span of the match and of the group\<close>

type_synonym rx_match = "nat \<times> nat \<times> (nat \<times> nat) option"

definition match_at :: "rx \<Rightarrow> pystr \<Rightarrow> nat \<Rightarrow> rx_match option" where
  "match_at r t i = (case matches r t (i, None) of [] \<Rightarrow> None | (j, g) # _ \<Rightarrow> Some (i, j, g))"

text \<open>\<open>re.match\<close>, \<open>re.fullmatch\<close> and \<open>re.search\<close>\<close>

definition re_match :: "rx \<Rightarrow> pystr \<Rightarrow> bool" where
  "re_match r t = (match_at r t 0 \<noteq> None)"

definition re_fullmatch :: "rx \<Rightarrow> pystr \<Rightarrow> bool" where
  "re_fullmatch r t = list_ex (\<lambda>s. fst s = length t) (matches r t (0, None))"

function search_from :: "rx \<Rightarrow> pystr \<Rightarrow> nat \<Rightarrow> rx_match option" where
  "search_from r t i =
     (if i > length t then None
      else case match_at r t i of None \<Rightarrow> search_from r t (Suc i) | Some m \<Rightarrow> Some m)"
  by pat_completeness auto
termination by (relation "measure (\<lambda>(r, t, i). Suc (length t) - i)") auto

declare search_from.simps [simp del]

definition re_search :: "rx \<Rightarrow> pystr \<Rightarrow> rx_match option" where
  "re_search r t = search_from r t 0"

lemma search_from_SomeD:
  "search_from r t i = Some m \<Longrightarrow>
   \<exists>a. i \<le> a \<and> a \<le> length t \<and> match_at r t a = Some m \<and> (\<forall>k. i \<le> k \<longrightarrow> k < a \<longrightarrow> match_at r t k = None)"
proof (induction r t i rule: search_from.induct)
  case (1 r t i)
  show ?case
  proof (cases "match_at r t i")
    case None
    with 1 obtain a where "Suc i \<le> a" "a \<le> length t" "match_at r t a = Some m"
      "\<forall>k. Suc i \<le> k \<longrightarrow> k < a \<longrightarrow> match_at r t k = None"
      by (auto simp: search_from.simps [of r t i] split: if_splits)
    moreover from this None have "\<forall>k. i \<le> k \<longrightarrow> k < a \<longrightarrow> match_at r t k = None"
      by (metis le_eq_less_or_eq Suc_leI)
    ultimately show ?thesis by (intro exI [of _ a]) simp
  next
    case (Some m')
    with 1(2) show ?thesis
      by (intro exI [of _ i]) (auto simp: search_from.simps [of r t i] split: if_splits)
  qed
qed

lemma search_from_None:
  "search_from r t i = None \<Longrightarrow> i \<le> k \<Longrightarrow> k \<le> length t \<Longrightarrow> match_at r t k = None"
proof (induction r t i rule: search_from.induct)
  case (1 r t i)
  show ?case
  proof (cases "k = i")
    case True
    with 1(2-) show ?thesis
      by (auto simp: search_from.simps [of r t i] split: option.splits)
  next
    case False
    with 1 show ?thesis
      by (auto simp: search_from.simps [of r t i] split: option.splits)
  qed
qed

lemma match_at_start: "match_at r t i = Some (a, b, g) \<Longrightarrow> a = i"
  by (auto simp: match_at_def split: list.splits)

text \<open>
  \<open>finditer\<close>: the next search starts where the match ended.  (After an empty match it would start
  one further; the patterns here have no empty match.)
\<close>

function finditer_from :: "rx \<Rightarrow> pystr \<Rightarrow> nat \<Rightarrow> rx_match list" where
  "finditer_from r t i =
     (case search_from r t i of None \<Rightarrow> []
      | Some (a, b, g) \<Rightarrow> (a, b, g) # finditer_from r t (max b (Suc a)))"
  by pat_completeness auto
termination
  by (relation "measure (\<lambda>(r, t, i). Suc (length t) - i)")
    (auto dest!: search_from_SomeD dest: match_at_start)

declare finditer_from.simps [simp del]

definition finditer :: "rx \<Rightarrow> pystr \<Rightarrow> rx_match list" where
  "finditer r t = finditer_from r t 0"

subsection \<open>Pattern notation\<close>

fun seqs :: "rx list \<Rightarrow> rx" where
  "seqs [] = Eps"
| "seqs [r] = r"
| "seqs (r # s # rs) = Seq r (seqs (s # rs))"

fun alts :: "rx list \<Rightarrow> rx" where
  "alts [] = Cls (\<lambda>_. False)"
| "alts [r] = r"
| "alts (r # s # rs) = Alt r (alts (s # rs))"

abbreviation opt :: "rx \<Rightarrow> rx" where "opt r \<equiv> Rep 0 (Some 1) True r"
abbreviation star :: "rx \<Rightarrow> rx" where "star r \<equiv> Rep 0 None True r"
abbreviation plus1 :: "rx \<Rightarrow> rx" where "plus1 r \<equiv> Rep 1 None True r"
abbreviation times_rx :: "nat \<Rightarrow> rx \<Rightarrow> rx" where "times_rx n r \<equiv> Rep n (Some n) True r"
abbreviation between :: "nat \<Rightarrow> nat \<Rightarrow> rx \<Rightarrow> rx" where "between a b r \<equiv> Rep a (Some b) True r"
abbreviation lazy :: "nat \<Rightarrow> nat \<Rightarrow> rx \<Rightarrow> rx" where "lazy a b r \<equiv> Rep a (Some b) False r"

definition one_of :: "pystr \<Rightarrow> rx" where
  "one_of cs = Cls (\<lambda>c. c \<in> set cs)"

definition word_rx :: "pystr \<Rightarrow> rx" where
  "word_rx s = seqs (map (\<lambda>c. one_of [c]) s)"

text \<open>
  A literal under \<open>(?i: )\<close>: the engine compares simple lower-case forms, with the few extra
  equivalences of its table (\<open>extra_cases\<close> gives those of the letters that occur).
\<close>

definition extra_cases :: "codepoint \<Rightarrow> codepoint list" where
  "extra_cases c =
     (if c = 105 then [305] else if c = 115 then [383] else if c = 1074 then [7296]
      else if c = 1076 then [7297] else if c = 1086 then [7298] else if c = 1089 then [7299]
      else if c = 1090 then [7300, 7301] else if c = 1098 then [7302] else [])"

definition lower1 :: "ucd \<Rightarrow> codepoint \<Rightarrow> codepoint" where
  "lower1 U c = (if c < 128 then ascii_lower c else u_tolower U c)"

definition ci_char :: "ucd \<Rightarrow> codepoint \<Rightarrow> rx" where
  "ci_char U p = Cls (\<lambda>c. lower1 U c = p \<or> lower1 U c \<in> set (extra_cases p))"

text \<open>The pattern characters are lower case where they have a case.\<close>

definition ci_word :: "ucd \<Rightarrow> pystr \<Rightarrow> rx" where
  "ci_word U s = seqs (map (ci_char U) s)"

definition digit :: "ucd \<Rightarrow> rx" where
  "digit U = Cls (is_decimal U)"

definition space :: "ucd \<Rightarrow> rx" where
  "space U = Cls (is_space U)"

section \<open>What a match consumes\<close>

text \<open>
  Static facts about a pattern: every consumed character satisfies \<open>P\<close>; it always consumes a
  first character that satisfies \<open>P\<close>; it has no group.
\<close>

primrec chars_in :: "(codepoint \<Rightarrow> bool) \<Rightarrow> rx \<Rightarrow> bool" where
  "chars_in P Eps = True"
| "chars_in P (Cls Q) = (\<forall>c. Q c \<longrightarrow> P c)"
| "chars_in P (Seq a b) = (chars_in P a \<and> chars_in P b)"
| "chars_in P (Alt a b) = (chars_in P a \<and> chars_in P b)"
| "chars_in P (Rep lo hi gr a) = chars_in P a"
| "chars_in P (Grp a) = chars_in P a"
| "chars_in P (NotBehind Q) = True"
| "chars_in P (NotAhead Q) = True"
| "chars_in P (WordB W) = True"
| "chars_in P EndA = True"

text \<open>Look-around consumes nothing\<close>

primrec silent :: "rx \<Rightarrow> bool" where
  "silent Eps = True"
| "silent (Cls Q) = False"
| "silent (Seq a b) = (silent a \<and> silent b)"
| "silent (Alt a b) = (silent a \<and> silent b)"
| "silent (Rep lo hi gr a) = False"
| "silent (Grp a) = False"
| "silent (NotBehind Q) = True"
| "silent (NotAhead Q) = True"
| "silent (WordB W) = True"
| "silent EndA = True"

primrec nogrp :: "rx \<Rightarrow> bool" where
  "nogrp Eps = True"
| "nogrp (Cls Q) = True"
| "nogrp (Seq a b) = (nogrp a \<and> nogrp b)"
| "nogrp (Alt a b) = (nogrp a \<and> nogrp b)"
| "nogrp (Rep lo hi gr a) = nogrp a"
| "nogrp (Grp a) = False"
| "nogrp (NotBehind Q) = True"
| "nogrp (NotAhead Q) = True"
| "nogrp (WordB W) = True"
| "nogrp EndA = True"

primrec starts :: "(codepoint \<Rightarrow> bool) \<Rightarrow> rx \<Rightarrow> bool" where
  "starts P Eps = False"
| "starts P (Cls Q) = (\<forall>c. Q c \<longrightarrow> P c)"
| "starts P (Seq a b) = (starts P a \<or> silent a \<and> starts P b)"
| "starts P (Alt a b) = (starts P a \<and> starts P b)"
| "starts P (Rep lo hi gr a) = (lo > 0 \<and> starts P a)"
| "starts P (Grp a) = starts P a"
| "starts P (NotBehind Q) = False"
| "starts P (NotAhead Q) = False"
| "starts P (WordB W) = False"
| "starts P EndA = False"

text \<open>A reflexive and transitive relation that every round respects holds across a repetition.\<close>

lemma reps_rel:
  assumes refl: "\<And>x. R x x" and trans: "\<And>x y z. R x y \<Longrightarrow> R y z \<Longrightarrow> R x z"
  shows "(\<And>x y. y \<in> set (f x) \<Longrightarrow> R x y) \<Longrightarrow> s' \<in> set (reps f gr lo ex s) \<Longrightarrow> R s s'"
proof (induction f gr lo ex s rule: reps.induct)
  case (1 f greedy lo extra s)
  then obtain y where "y \<in> set (f s)" "s' \<in> set (reps f greedy lo extra y)" by auto
  with 1 show ?case by (blast intro: trans)
next
  case (2 f greedy s)
  then show ?case by (simp add: refl)
next
  case (3 f greedy extra s)
  show ?case
  proof (cases "s' = s")
    case False
    with 3(3) obtain y where "y \<in> set (f s)" "fst y \<noteq> fst s" "s' \<in> set (reps f greedy 0 extra y)"
      by (auto simp: Let_def split: if_splits)
    with 3 show ?thesis by (blast intro: trans)
  qed (simp add: refl)
qed

lemma matches_rep_rel:
  assumes "s' \<in> set (matches (Rep lo hi gr a) t s)" and "\<And>x. R x x"
    and "\<And>x y z. R x y \<Longrightarrow> R y z \<Longrightarrow> R x z" and "\<And>x y. y \<in> set (matches a t x) \<Longrightarrow> R x y"
  shows "R s s'"
  using assms(1) reps_rel [of R "matches a t", OF assms(2,3,4)] by auto

definition moves :: "(codepoint \<Rightarrow> bool) \<Rightarrow> pystr \<Rightarrow> rx_state \<Rightarrow> rx_state \<Rightarrow> bool" where
  "moves P t s s' \<longleftrightarrow> fst s \<le> fst s' \<and> (\<forall>i. fst s \<le> i \<longrightarrow> i < fst s' \<longrightarrow> i < length t \<and> P (t ! i))"

lemma moves_refl: "moves P t s s"
  by (simp add: moves_def)

lemma moves_trans: "moves P t x y \<Longrightarrow> moves P t y z \<Longrightarrow> moves P t x z"
  unfolding moves_def by (metis le_trans not_le)

lemma matches_SeqE:
  assumes "s' \<in> set (matches (Seq a b) t s)"
  obtains y where "y \<in> set (matches a t s)" and "s' \<in> set (matches b t y)"
  using assms by auto

lemma matches_moves: "chars_in P r \<Longrightarrow> s' \<in> set (matches r t s) \<Longrightarrow> moves P t s s'"
proof (induction r arbitrary: s s')
  case (Seq a b)
  from Seq.prems(2) obtain y where "y \<in> set (matches a t s)" "s' \<in> set (matches b t y)"
    by (rule matches_SeqE)
  with Seq show ?case by (metis moves_trans chars_in.simps(3))
next
  case (Rep lo hi gr a)
  show ?case
    by (rule matches_rep_rel [OF Rep.prems(2), of "moves P t"])
      (use Rep in \<open>auto intro: moves_refl moves_trans\<close>)
next
  case (Grp a)
  from Grp.prems(2) obtain y where y: "y \<in> set (matches a t s)" and s': "fst s' = fst y" by auto
  from Grp.IH [OF _ y] Grp.prems(1) have "moves P t s y" by simp
  then show ?case unfolding moves_def s' .
qed (auto simp: moves_def less_Suc_eq split: if_splits)

lemma chars_in_True: "chars_in (\<lambda>_. True) r"
  by (induction r) auto

lemma matches_mono: "s' \<in> set (matches r t s) \<Longrightarrow> fst s \<le> fst s'"
  using matches_moves [OF chars_in_True] by (fastforce simp: moves_def)

lemma matches_bound:
  assumes "s' \<in> set (matches r t s)" and "fst s \<le> length t"
  shows "fst s' \<le> length t"
proof (cases "fst s' = fst s")
  case False
  with matches_mono [OF assms(1)] have "fst s \<le> fst s' - 1" "fst s' - 1 < fst s'" by auto
  with matches_moves [OF chars_in_True assms(1)] have "fst s' - 1 < length t"
    unfolding moves_def by blast
  then show ?thesis by simp
qed (use assms in simp)

lemma matches_nogrp: "nogrp r \<Longrightarrow> s' \<in> set (matches r t s) \<Longrightarrow> snd s' = snd s"
proof (induction r arbitrary: s s')
  case (Seq a b)
  from Seq.prems(2) obtain y where "y \<in> set (matches a t s)" "s' \<in> set (matches b t y)"
    by (rule matches_SeqE)
  with Seq show ?case by (metis nogrp.simps(3))
next
  case (Rep lo hi gr a)
  have "(\<lambda>x y. snd y = snd x) s s'"
    by (rule matches_rep_rel [OF Rep.prems(2)]) (use Rep in auto)
  then show ?case by simp
qed (auto split: if_splits)

lemma matches_silent: "silent r \<Longrightarrow> s' \<in> set (matches r t s) \<Longrightarrow> fst s' = fst s"
proof (induction r arbitrary: s s')
  case (Seq a b)
  from Seq.prems(2) obtain y where "y \<in> set (matches a t s)" "s' \<in> set (matches b t y)"
    by (rule matches_SeqE)
  with Seq show ?case by (metis silent.simps(3))
qed (auto split: if_splits)

lemma matches_starts:
  "starts P r \<Longrightarrow> s' \<in> set (matches r t s) \<Longrightarrow>
   fst s < fst s' \<and> fst s < length t \<and> P (t ! fst s)"
proof (induction r arbitrary: s s')
  case (Seq a b)
  from Seq.prems(2) obtain y where y: "y \<in> set (matches a t s)" "s' \<in> set (matches b t y)" by auto
  show ?case
  proof (cases "starts P a")
    case True
    with Seq.IH(1) [OF True y(1)] matches_mono [OF y(2)] show ?thesis by auto
  next
    case False
    with Seq.prems(1) have "silent a" "starts P b" by auto
    with Seq.IH(2) [OF _ y(2)] matches_silent [OF _ y(1)] show ?thesis by auto
  qed
next
  case (Rep lo hi gr a)
  then obtain n where lo: "lo = Suc n" and st: "starts P a" by (cases lo) auto
  from Rep.prems(2) obtain y ex where y: "y \<in> set (matches a t s)"
    and s': "s' \<in> set (reps (matches a t) gr n ex y)"
    by (auto simp: lo)
  have "fst y \<le> fst s'"
    using reps_rel [of "\<lambda>x y. fst x \<le> fst y", OF _ _ _ s'] matches_mono by fastforce
  with Rep.IH [OF st y] show ?case by auto
qed (fastforce split: if_splits)+

text \<open>Patterns whose group is the last thing they match\<close>

lemma matches_grouped:
  assumes "(j, g) \<in> set (matches (Seq pre (Grp body)) t (i, g0))"
  shows "\<exists>k h h'. i \<le> k \<and> g = Some (k, j) \<and> (j, h') \<in> set (matches body t (k, h))"
proof -
  from assms obtain k h h' where "(k, h) \<in> set (matches pre t (i, g0))"
    "(j, h') \<in> set (matches body t (k, h))" "g = Some (k, j)"
    by auto
  moreover from this(1) have "i \<le> k" using matches_mono by fastforce
  ultimately show ?thesis by blast
qed

text \<open>Literals\<close>

lemma chars_in_seqs: "chars_in P (seqs rs) \<longleftrightarrow> (\<forall>r \<in> set rs. chars_in P r)"
  by (induction rs rule: seqs.induct) auto

lemma chars_in_word [simp]: "chars_in P (word_rx s) \<longleftrightarrow> (\<forall>c \<in> set s. P c)"
  by (auto simp: word_rx_def chars_in_seqs one_of_def)

lemma starts_word [simp]: "starts P (word_rx (c # s)) \<longleftrightarrow> P c"
  by (cases s) (auto simp: word_rx_def one_of_def)

section \<open>Match objects\<close>

lemma match_at_SomeD: "match_at r t i = Some (a, b, g) \<Longrightarrow> a = i \<and> (b, g) \<in> set (matches r t (i, None))"
  by (auto simp: match_at_def split: list.splits)

lemma finditer_from_sound:
  "(a, b, g) \<in> set (finditer_from r t i) \<Longrightarrow>
   i \<le> a \<and> a \<le> length t \<and> match_at r t a = Some (a, b, g)"
proof (induction r t i rule: finditer_from.induct)
  case (1 r t i)
  then obtain m where m: "search_from r t i = Some m"
    by (cases "search_from r t i") (auto simp: finditer_from.simps [of r t i])
  obtain a' b' g' where m': "m = (a', b', g')" by (cases m)
  from search_from_SomeD [OF m] m' have a': "i \<le> a'" "a' \<le> length t" "match_at r t a' = Some m"
    by (auto dest: match_at_start)
  from 1(2) have "(a, b, g) = m \<or> (a, b, g) \<in> set (finditer_from r t (max b' (Suc a')))"
    by (simp add: finditer_from.simps [of r t i] m m')
  then show ?case
  proof
    assume "(a, b, g) = m"
    with a' m' show ?thesis by auto
  next
    assume "(a, b, g) \<in> set (finditer_from r t (max b' (Suc a')))"
    from 1(1) [OF m m' [symmetric] refl this] a'(1) show ?thesis by auto
  qed
qed

lemma finditer_sound:
  "(a, b, g) \<in> set (finditer r t) \<Longrightarrow> a \<le> length t \<and> (b, g) \<in> set (matches r t (a, None))"
  unfolding finditer_def using finditer_from_sound match_at_SomeD by blast

text \<open>Every position at which the pattern matches is inside a reported match.\<close>

lemma finditer_from_complete:
  "match_at r t k \<noteq> None \<Longrightarrow> i \<le> k \<Longrightarrow> k \<le> length t \<Longrightarrow>
   \<exists>(a, b, g) \<in> set (finditer_from r t i). a \<le> k \<and> k < max b (Suc a)"
proof (induction r t i rule: finditer_from.induct)
  case (1 r t i)
  from search_from_None [of r t i k] 1(2-) obtain a b g where m: "search_from r t i = Some (a, b, g)"
    by (cases "search_from r t i") auto
  from search_from_SomeD [OF m] have a: "\<forall>j. i \<le> j \<longrightarrow> j < a \<longrightarrow> match_at r t j = None"
    by (auto dest: match_at_start)
  with 1(2,3) have ak: "a \<le> k" by (metis not_le)
  have fi: "set (finditer_from r t i) = insert (a, b, g) (set (finditer_from r t (max b (Suc a))))"
    by (simp add: finditer_from.simps [of r t i] m)
  show ?case
  proof (cases "k < max b (Suc a)")
    case True
    with ak fi show ?thesis by auto
  next
    case False
    then have "max b (Suc a) \<le> k" by linarith
    from 1(1) [OF m refl refl 1(2) this 1(4)] show ?thesis unfolding fi by blast
  qed
qed

end
