(* ===== verification/Strategies.thy ===== *)
theory Strategies
  imports Domain
begin

text \<open>
  \<open>app/masking/strategies/impl.py\<close>: the replacement text of one entity.  The two placeholder
  strategies draw a random token; the \<open>k\<close>-th draw of a run is \<open>rnd k\<close>, the eight random bytes
  read as a number.
\<close>

section \<open>Definitions\<close>

definition FULL_MASK_CHAR :: codepoint where
  "FULL_MASK_CHAR = 42"

definition NUMERIC_VISIBLE_EDGE :: nat where
  "NUMERIC_VISIBLE_EDGE = 2"

definition NUMERIC_MIN_DIGITS :: nat where
  "NUMERIC_MIN_DIGITS = 4"

definition INITIALS_TYPES :: "pii_type list" where
  "INITIALS_TYPES = [PERSON_NAME, CARDHOLDER_NAME]"

definition NUMERIC_EDGE_TYPES :: "pii_type list" where
  "NUMERIC_EDGE_TYPES = [PASSPORT_NUMBER, BANK_CARD, INN, DRIVER_LICENSE, PHONE]"

definition DIGITS_ONLY_TYPES :: "pii_type list" where
  "DIGITS_ONLY_TYPES = [PASSPORT_DIVISION_CODE]"

definition EMAIL_TYPES :: "pii_type list" where
  "EMAIL_TYPES = [EMAIL]"

definition mask_all_alnum :: "ucd \<Rightarrow> pystr \<Rightarrow> pystr" where
  "mask_all_alnum U value = map (\<lambda>c. if is_alnum U c then FULL_MASK_CHAR else c) value"

definition mask_digits :: "ucd \<Rightarrow> pystr \<Rightarrow> pystr" where
  "mask_digits U value = map (\<lambda>c. if is_decimal U c then FULL_MASK_CHAR else c) value"

text \<open>
  The loop of \<open>_mask_numeric_edges\<close>.  \<open>digits\<close> are the characters that match \<open>\d\<close>, but the
  loop counts the characters for which \<open>isdigit\<close> holds, a larger class: the index can run past
  the end of \<open>digits\<close>.
\<close>

fun edges_loop :: "ucd \<Rightarrow> pystr \<Rightarrow> nat \<Rightarrow> pystr \<Rightarrow> exn + pystr" where
  "edges_loop U digits digit_index [] = Inr []"
| "edges_loop U digits digit_index (ch # rest) =
     (if is_digit U ch then
        ebind
          (if digit_index < NUMERIC_VISIBLE_EDGE
              \<or> int digit_index \<ge> int (length digits) - int NUMERIC_VISIBLE_EDGE
           then (if digit_index < length digits then Inr (digits ! digit_index)
                 else Inl IndexError)
           else Inr FULL_MASK_CHAR)
          (\<lambda>x. ebind (edges_loop U digits (Suc digit_index) rest) (\<lambda>r. Inr (x # r)))
      else ebind (edges_loop U digits digit_index rest) (\<lambda>r. Inr (ch # r)))"

definition mask_numeric_edges :: "ucd \<Rightarrow> pystr \<Rightarrow> exn + pystr" where
  "mask_numeric_edges U value =
     (let digits = filter (is_decimal U) value
      in if length digits \<le> NUMERIC_MIN_DIGITS then Inr (mask_digits U value)
         else edges_loop U digits 0 value)"

definition mask_initials :: "ucd \<Rightarrow> pystr \<Rightarrow> pystr" where
  "mask_initials U value =
     (let words = runs (is_word U) value
      in if words = [] then value
         else str_join (lit '' '') (map (\<lambda>word. [hd word] @ lit ''.'') words))"

definition mask_email :: "ucd \<Rightarrow> pystr \<Rightarrow> pystr" where
  "mask_email U value =
     (if 64 \<notin> set value then mask_all_alnum U value
      else let (login, sep, domain) = str_partition 64 value
           in if login = [] then [FULL_MASK_CHAR] @ lit ''@'' @ domain
              else [hd login] @ replicate 3 FULL_MASK_CHAR @ lit ''@'' @ domain)"

definition full_mask :: "ucd \<Rightarrow> pii_entity \<Rightarrow> pystr" where
  "full_mask U e = mask_all_alnum U (e_value e)"

definition partial_mask :: "ucd \<Rightarrow> pii_entity \<Rightarrow> exn + pystr" where
  "partial_mask U e =
     (let t = e_type e; value = e_value e in
      if t \<in> set INITIALS_TYPES then Inr (mask_initials U value)
      else if t \<in> set NUMERIC_EDGE_TYPES then mask_numeric_edges U value
      else if t \<in> set DIGITS_ONLY_TYPES then Inr (mask_digits U value)
      else if t \<in> set EMAIL_TYPES then Inr (mask_email U value)
      else Inr (mask_all_alnum U value))"

text \<open>\<open>secrets.token_hex(8)\<close>: sixteen hexadecimal digits of the eight random bytes\<close>

definition hex_digit :: "nat \<Rightarrow> codepoint" where
  "hex_digit d = (if d < 10 then 48 + d else 87 + d)"

definition token_hex8 :: "nat \<Rightarrow> pystr" where
  "token_hex8 n = map (\<lambda>i. hex_digit (n div 16 ^ (15 - i) mod 16)) [0..<16]"

definition tokenize_mask :: "nat \<Rightarrow> pii_entity \<Rightarrow> pystr" where
  "tokenize_mask r e =
     lit ''<TOKEN:'' @ pii_value (e_type e) @ lit '':'' @ token_hex8 r @ lit ''>''"

definition synthetic_mask :: "nat \<Rightarrow> pii_entity \<Rightarrow> pystr" where
  "synthetic_mask r e =
     lit ''<SYNTHETIC:'' @ pii_value (e_type e) @ lit '':'' @ token_hex8 r @ lit ''>''"

text \<open>
  \<open>DefaultMaskingStrategyFactory.get_strategy(m).mask(e)\<close>: the factory's dictionary has an entry
  for every member of the enum.
\<close>

fun strategy_mask :: "ucd \<Rightarrow> nat \<Rightarrow> masking_strategy \<Rightarrow> pii_entity \<Rightarrow> exn + pystr" where
  "strategy_mask U r FULL_MASK e = Inr (full_mask U e)"
| "strategy_mask U r PARTIAL_MASK e = partial_mask U e"
| "strategy_mask U r TOKENIZE e = Inr (tokenize_mask r e)"
| "strategy_mask U r SYNTHETIC e = Inr (synthetic_mask r e)"

section \<open>Masks that keep the shape\<close>

text \<open>
  A mask keeps the shape of a value when it only replaces characters by asterisks; it hides the
  value when, besides, none of its letters and digits survive.
\<close>

definition shape_of :: "pystr \<Rightarrow> pystr \<Rightarrow> bool" where
  "shape_of v r \<longleftrightarrow> list_all2 (\<lambda>c d. d = c \<or> d = FULL_MASK_CHAR) v r"

lemma shape_of_length: "shape_of v r \<Longrightarrow> length r = length v"
  by (simp add: shape_of_def list_all2_lengthD)

lemma shape_of_map: "(\<And>c. f c = c \<or> f c = FULL_MASK_CHAR) \<Longrightarrow> shape_of v (map f v)"
  by (auto simp: shape_of_def list_all2_conv_all_nth)

lemma shape_mask_all_alnum: "shape_of v (mask_all_alnum U v)"
  unfolding mask_all_alnum_def by (rule shape_of_map) simp

lemma shape_mask_digits: "shape_of v (mask_digits U v)"
  unfolding mask_digits_def by (rule shape_of_map) simp

lemma mask_all_alnum_hides: "c \<in> set (mask_all_alnum U v) \<Longrightarrow> \<not> is_alnum U c"
  by (auto simp: mask_all_alnum_def FULL_MASK_CHAR_def)

lemma mask_digits_hides: "c \<in> set (mask_digits U v) \<Longrightarrow> \<not> is_decimal U c"
  by (auto simp: mask_digits_def FULL_MASK_CHAR_def)

lemma mask_all_alnum_nth:
  "i < length v \<Longrightarrow> mask_all_alnum U v ! i = (if is_alnum U (v ! i) then 42 else v ! i)"
  by (simp add: mask_all_alnum_def FULL_MASK_CHAR_def)

lemma length_mask_all_alnum [simp]: "length (mask_all_alnum U v) = length v"
  by (simp add: mask_all_alnum_def)

section \<open>The numeric edges\<close>

text \<open>
  The reference description: the character at position \<open>i\<close> is kept when it is no digit, or when
  fewer than two digits precede it, or fewer than two follow it.
\<close>

definition edge_spec :: "ucd \<Rightarrow> nat \<Rightarrow> nat \<Rightarrow> codepoint \<Rightarrow> codepoint" where
  "edge_spec U n k c =
     (if is_digit U c \<and> 2 \<le> k \<and> k + 2 < n then FULL_MASK_CHAR else c)"

fun edges_ref :: "ucd \<Rightarrow> nat \<Rightarrow> nat \<Rightarrow> pystr \<Rightarrow> pystr" where
  "edges_ref U n k [] = []"
| "edges_ref U n k (c # cs) =
     edge_spec U n k c # edges_ref U n (if is_digit U c then Suc k else k) cs"

lemma edges_loop_ref:
  assumes "digits = pre @ filter (is_digit U) v" and "k = length pre" and "5 \<le> length digits"
  shows "edges_loop U digits k v = Inr (edges_ref U (length digits) k v)"
  using assms
proof (induction v arbitrary: k pre)
  case Nil
  then show ?case by simp
next
  case (Cons c cs)
  show ?case
  proof (cases "is_digit U c")
    case True
    then have "edges_loop U digits (Suc k) cs = Inr (edges_ref U (length digits) (Suc k) cs)"
      using Cons.prems by (intro Cons.IH [of "pre @ [c]"]) auto
    moreover have "k < length digits" "digits ! k = c" using Cons.prems True by auto
    ultimately show ?thesis
      using True by (auto simp: edge_spec_def NUMERIC_VISIBLE_EDGE_def)
  next
    case False
    then show ?thesis using Cons by (simp add: edge_spec_def)
  qed
qed

lemma mask_numeric_edges_plain:
  assumes "plain_digits U v"
  shows "mask_numeric_edges U v =
    Inr (let n = length (filter (is_digit U) v)
         in if n \<le> 4 then mask_digits U v else edges_ref U n 0 v)"
  using assms edges_loop_ref [of "filter (is_digit U) v" "[]" U v 0]
  by (simp add: mask_numeric_edges_def plain_filter NUMERIC_MIN_DIGITS_def Let_def)

lemma shape_edges_ref: "shape_of v (edges_ref U n k v)"
  by (induction v arbitrary: k) (auto simp: shape_of_def edge_spec_def)

lemma length_edges_ref [simp]: "length (edges_ref U n k v) = length v"
  using shape_edges_ref shape_of_length by blast

text \<open>How many digits stay readable\<close>

lemma edges_ref_visible:
  "length (filter (is_digit U) v) + k = n \<Longrightarrow> 5 \<le> n \<Longrightarrow>
   length (filter (is_digit U) (edges_ref U n k v)) = (2 - k) + min (n - k) 2"
proof (induction v arbitrary: k)
  case Nil
  then show ?case by simp
next
  case (Cons c cs)
  show ?case
  proof (cases "is_digit U c")
    case True
    with Cons.prems have n: "length (filter (is_digit U) cs) + Suc k = n" by simp
    have IH: "length (filter (is_digit U) (edges_ref U n (Suc k) cs)) = (2 - Suc k) + min (n - Suc k) 2"
      using Cons.IH [OF n Cons.prems(2)] .
    show ?thesis
    proof (cases "2 \<le> k \<and> k + 2 < n")
      case inner: True
      then have "\<not> is_digit U (edge_spec U n k c)"
        using True by (simp add: edge_spec_def FULL_MASK_CHAR_def)
      moreover have "min (n - Suc k) 2 = 2" "min (n - k) 2 = 2" using inner by auto
      ultimately show ?thesis using IH True inner by simp
    next
      case edge: False
      then have "edge_spec U n k c = c" by (auto simp: edge_spec_def)
      with IH True edge n Cons.prems(2) show ?thesis by simp arith
    qed
  next
    case False
    with Cons.prems Cons.IH [of k] show ?thesis by (simp add: edge_spec_def)
  qed
qed

lemma shape_partial_numeric:
  assumes "e_type e \<in> set NUMERIC_EDGE_TYPES" and "plain_digits U (e_value e)"
  shows "\<exists>r. partial_mask U e = Inr r \<and> shape_of (e_value e) r"
proof -
  have "e_type e \<notin> set INITIALS_TYPES"
    using assms(1) by (auto simp: NUMERIC_EDGE_TYPES_def INITIALS_TYPES_def)
  then have "partial_mask U e = mask_numeric_edges U (e_value e)"
    using assms(1) by (simp add: partial_mask_def Let_def)
  then show ?thesis
    using mask_numeric_edges_plain [OF assms(2)] shape_mask_digits shape_edges_ref
    by (simp add: Let_def)
qed

text \<open>The partial mask raises only in the numeric-edge loop, and only on a digit that is not decimal.\<close>

definition maskable :: "ucd \<Rightarrow> pii_entity \<Rightarrow> bool" where
  "maskable U e = (if e_type e \<in> set NUMERIC_EDGE_TYPES then plain_digits U (e_value e) else True)"

lemma partial_mask_total:
  "maskable U e \<Longrightarrow> \<exists>r. partial_mask U e = Inr r"
  by (simp add: partial_mask_def maskable_def Let_def mask_numeric_edges_plain)

lemma strategy_mask_total:
  "maskable U e \<Longrightarrow> \<exists>r. strategy_mask U n m e = Inr r"
  by (cases m) (simp_all add: partial_mask_total)

section \<open>A locale for shape-keeping maskers\<close>

text \<open>
  The interface of a masking strategy that only puts asterisks over characters, and of one that
  hides every letter and digit.  The masking engine's length and secrecy lemmas are proved
  against it.
\<close>

locale shape_masker =
  fixes mask :: "pii_entity \<Rightarrow> exn + pystr"
  assumes mask_total: "\<exists>r. mask e = Inr r"
    and mask_shape: "mask e = Inr r \<Longrightarrow> shape_of (e_value e) r"
begin

lemma mask_length: "mask e = Inr r \<Longrightarrow> length r = length (e_value e)"
  using mask_shape shape_of_length by blast

lemma mask_nth: "mask e = Inr r \<Longrightarrow> i < length r \<Longrightarrow> r ! i = e_value e ! i \<or> r ! i = FULL_MASK_CHAR"
  using mask_shape by (auto simp: shape_of_def list_all2_conv_all_nth)

end

locale hiding_masker = shape_masker +
  fixes secret :: "codepoint \<Rightarrow> bool"
  assumes mask_hides: "mask e = Inr r \<Longrightarrow> c \<in> set r \<Longrightarrow> \<not> secret c"
begin

lemma mask_secret_nth:
  "mask e = Inr r \<Longrightarrow> i < length (e_value e) \<Longrightarrow> secret (e_value e ! i) \<Longrightarrow> r ! i = FULL_MASK_CHAR"
  by (metis mask_hides mask_length mask_nth nth_mem)

end

interpretation fullm: hiding_masker "\<lambda>e. Inr (full_mask U e)" "is_alnum U" for U
  by unfold_locales (auto simp: full_mask_def shape_mask_all_alnum dest: mask_all_alnum_hides)

interpretation digitsm: hiding_masker "\<lambda>e. Inr (mask_digits U (e_value e))" "is_decimal U" for U
  by unfold_locales (auto simp: shape_mask_digits dest: mask_digits_hides)

section \<open>Properties\<close>

text \<open>
  The full mask keeps the length of the value and every character that is neither a letter
  nor a digit, replaces every letter and digit by an asterisk, and is the same for all values of
  the same shape: it reveals nothing but which positions hold letters or digits.
\<close>

theorem full_mask_exact:
  "length (full_mask U e) = length (e_value e)
   \<and> (\<forall>i. i < length (e_value e) \<longrightarrow>
        full_mask U e ! i = (if is_alnum U (e_value e ! i) then 42 else e_value e ! i))
   \<and> (\<forall>f. list_all2 (\<lambda>c d. is_alnum U c = is_alnum U d \<and> (is_alnum U c \<or> c = d))
           (e_value e) (e_value f) \<longrightarrow> full_mask U f = full_mask U e)"
proof (intro conjI allI impI)
  fix f :: pii_entity
  assume "list_all2 (\<lambda>c d. is_alnum U c = is_alnum U d \<and> (is_alnum U c \<or> c = d))
      (e_value e) (e_value f)"
  then show "full_mask U f = full_mask U e"
    unfolding full_mask_def mask_all_alnum_def
    by (auto simp: list_all2_conv_all_nth intro!: nth_equalityI)
qed (auto simp: full_mask_def mask_all_alnum_nth)

theorem full_mask_exact_witness:
  "full_mask ucd_ru (PIIEntity PIN (lit ''12-34'') 0 5 1 (lit ''regex''))
     = full_mask ucd_ru (PIIEntity PIN (lit ''ab-98'') 0 5 1 (lit ''regex''))"
proof -
  have "list_all2 (\<lambda>c d. is_alnum ucd_ru c = is_alnum ucd_ru d \<and> (is_alnum ucd_ru c \<or> c = d))
      (lit ''ab-98'') (lit ''12-34'')"
    by (simp add: lit_def char_class_defs class_of_def ascii_class_def)
  then show ?thesis
    using full_mask_exact [of ucd_ru "PIIEntity PIN (lit ''ab-98'') 0 5 1 (lit ''regex'')"] by simp
qed

text \<open>
  C9: The numeric format of the partial mask.  On a value whose digits are decimal digits the
  mask never raises and keeps the length and all separators; with at most four digits every
  digit is masked, with five or more exactly four digits, the first two and the last two, stay
  readable.
\<close>

theorem mask_numeric_edges_correct:
  assumes "plain_digits U v"
  shows "\<exists>r. mask_numeric_edges U v = Inr r \<and> shape_of v r
     \<and> (let n = length (filter (is_digit U) v) in
          (n \<le> 4 \<longrightarrow> filter (is_digit U) r = []) \<and>
          (5 \<le> n \<longrightarrow> length (filter (is_digit U) r) = 4 \<and> r = edges_ref U n 0 v))"
proof -
  let ?n = "length (filter (is_digit U) v)"
  have none: "filter (is_digit U) (mask_digits U v) = []"
    using assms by (auto simp: mask_digits_def filter_empty_conv plain_digits_def FULL_MASK_CHAR_def)
  show ?thesis
  proof (cases "?n \<le> 4")
    case True
    with none mask_numeric_edges_plain [OF assms] shape_mask_digits show ?thesis
      by (simp add: Let_def)
  next
    case False
    then have "length (filter (is_digit U) (edges_ref U ?n 0 v)) = 4"
      using edges_ref_visible [of U v 0 ?n] by simp
    with False mask_numeric_edges_plain [OF assms] shape_edges_ref show ?thesis
      by (simp add: Let_def)
  qed
qed

theorem mask_numeric_edges_correct_witness:
  "\<exists>r. mask_numeric_edges ucd_ru (lit ''4509 123456'') = Inr r
     \<and> shape_of (lit ''4509 123456'') r"
proof -
  have "plain_digits ucd_ru (lit ''4509 123456'')"
    by (simp add: plain_digits_def lit_def char_class_defs class_of_def ascii_class_def)
  from mask_numeric_edges_correct [OF this] show ?thesis by blast
qed

text \<open>
  A digit that is not decimal breaks the numeric format: on the value \<open>12345\<close> followed by a
  superscript two the code reads its digit list past the end and raises \<open>IndexError\<close>.
\<close>

theorem mask_numeric_edges_index_error:
  "mask_numeric_edges ucd_ru (lit ''12345'' @ [178]) = Inl IndexError"
  by (simp add: mask_numeric_edges_def lit_def char_class_defs class_of_def ascii_class_def
      ucd_ru_def ru_class_def NUMERIC_MIN_DIGITS_def NUMERIC_VISIBLE_EDGE_def)

text \<open>
  The e-mail mask depends only on the first character of the login and on the domain, so the
  rest of the login, its length included, is hidden; and the domain is kept.
\<close>

theorem mask_email_hides_login:
  assumes "64 \<notin> set (c # login)"
  shows "mask_email U ((c # login) @ [64] @ domain) = [c, 42, 42, 42, 64] @ domain"
  using str_partition_hit [OF assms, of domain]
  by (simp add: mask_email_def FULL_MASK_CHAR_def lit_def numeral_3_eq_3)

theorem mask_email_hides_login_witness:
  "mask_email ucd_ru (lit ''test'' @ [64] @ lit ''example.com'') = lit ''t***'' @ [64] @ lit ''example.com''"
  using mask_email_hides_login [of 116 "[101, 115, 116]" ucd_ru "lit ''example.com''"]
  by (simp add: lit_def)

text \<open>The initials mask keeps one character of each word, followed by a dot.\<close>

theorem mask_initials_only_initials:
  assumes "runs (is_word U) v \<noteq> []"
  shows "set (mask_initials U v) \<subseteq> {32, 46} \<union> hd ` set (runs (is_word U) v)
     \<and> length (mask_initials U v) + 1 = 3 * length (runs (is_word U) v)"
proof -
  have set_join: "set (str_join (lit '' '') (map (\<lambda>w. [hd w] @ lit ''.'') ws)) \<subseteq> {32, 46} \<union> hd ` set ws" for ws
    by (induction ws rule: induct_list012) (auto simp: lit_def)
  have len_join: "ws \<noteq> [] \<Longrightarrow>
      length (str_join (lit '' '') (map (\<lambda>w. [hd w] @ lit ''.'') ws)) + 1 = 3 * length ws" for ws
    by (induction ws rule: induct_list012) (auto simp: lit_def)
  from assms set_join len_join show ?thesis by (auto simp: mask_initials_def Let_def)
qed

theorem mask_initials_only_initials_witness:
  "set (mask_initials ucd_ru (lit ''Ivan Petrov'')) \<subseteq> {32, 46, 73, 80}"
proof -
  have r: "runs (is_word ucd_ru) (lit ''Ivan Petrov'') = [lit ''Ivan'', lit ''Petrov'']"
    by (simp add: runs_def lit_def char_class_defs class_of_def ascii_class_def)
  then have "runs (is_word ucd_ru) (lit ''Ivan Petrov'') \<noteq> []" by simp
  from mask_initials_only_initials [OF this] r show ?thesis by (auto simp: lit_def)
qed

end
