(* ===== verification/Detector.thy ===== *)
theory Detector
  imports Regex Validators Strategies
begin

text \<open>
  \<open>app/detection/regex/detector.py\<close>: the patterns, the marker and context rules and the detector.
  A pattern is a function of the Unicode database \<open>U\<close> because \<open>\d\<close>, \<open>\s\<close> and \<open>\w\<close> are; \<open>today\<close>
  is \<open>date.today()\<close>, which the birth-date validator reads.
\<close>

section \<open>Character classes\<close>

definition cyr_upper :: "codepoint \<Rightarrow> bool" where
  "cyr_upper c = (1040 \<le> c \<and> c \<le> 1071 \<or> c = 1025)"

definition cyr_lower :: "codepoint \<Rightarrow> bool" where
  "cyr_lower c = (1072 \<le> c \<and> c \<le> 1103 \<or> c = 1105)"

definition cyr_letter :: "codepoint \<Rightarrow> bool" where
  "cyr_letter c = (cyr_upper c \<or> cyr_lower c)"

definition latin_upper :: "codepoint \<Rightarrow> bool" where
  "latin_upper c = (65 \<le> c \<and> c \<le> 90)"

definition latin_letter :: "codepoint \<Rightarrow> bool" where
  "latin_letter c = (65 \<le> c \<and> c \<le> 90 \<or> 97 \<le> c \<and> c \<le> 122)"

definition ascii_digit_char :: "codepoint \<Rightarrow> bool" where
  "ascii_digit_char c = (48 \<le> c \<and> c \<le> 57)"

text \<open>\<open>[\s\-]?\<close>, \<open>(?<!\d)\<close>, \<open>(?!\d)\<close> and \<open>\s*:?\s*\<close>\<close>

definition sep_opt :: "ucd \<Rightarrow> rx" where
  "sep_opt U = opt (Cls (\<lambda>c. is_space U c \<or> c = 45))"

definition no_digit_before :: "ucd \<Rightarrow> rx" where
  "no_digit_before U = NotBehind (is_decimal U)"

definition no_digit_after :: "ucd \<Rightarrow> rx" where
  "no_digit_after U = NotAhead (is_decimal U)"

definition colon_gap :: "ucd \<Rightarrow> rx" where
  "colon_gap U = seqs [star (space U), opt (one_of (lit '':'')), star (space U)]"

text \<open>A capitalised Russian word \<open>[A-YA][a-ya]+\<close>, and the two numeric date forms\<close>

definition cap_word :: rx where
  "cap_word = Seq (Cls cyr_upper) (plus1 (Cls cyr_lower))"

definition dmy_date :: "ucd \<Rightarrow> rx" where
  "dmy_date U = seqs [times_rx 2 (digit U), one_of (lit ''./''), times_rx 2 (digit U),
     one_of (lit ''./''), times_rx 4 (digit U)]"

definition ymd_date :: "ucd \<Rightarrow> rx" where
  "ymd_date U = seqs [times_rx 4 (digit U), one_of (lit ''-''), times_rx 2 (digit U),
     one_of (lit ''-''), times_rx 2 (digit U)]"

section \<open>Patterns\<close>

definition EMAIL_RE :: "ucd \<Rightarrow> rx" where
  "EMAIL_RE U = seqs
     [plus1 (Cls (\<lambda>c. latin_letter c \<or> ascii_digit_char c \<or> c \<in> set (lit ''._%+-''))),
      one_of (lit ''@''),
      plus1 (Cls (\<lambda>c. latin_letter c \<or> ascii_digit_char c \<or> c \<in> set (lit ''.-''))),
      one_of (lit ''.''), Rep 2 None True (Cls latin_letter)]"

definition PHONE_RE :: "ucd \<Rightarrow> rx" where
  "PHONE_RE U = seqs
     [no_digit_before U, alts [word_rx (lit ''+7''), one_of (lit ''8'')], sep_opt U,
      alts [seqs [one_of (lit ''(''), times_rx 3 (digit U), one_of (lit '')'')], times_rx 3 (digit U)],
      sep_opt U, times_rx 3 (digit U), sep_opt U, times_rx 2 (digit U), sep_opt U,
      times_rx 2 (digit U), no_digit_after U]"

definition BANK_CARD_RE :: "ucd \<Rightarrow> rx" where
  "BANK_CARD_RE U = seqs
     [no_digit_before U, between 12 18 (Seq (digit U) (sep_opt U)), digit U, no_digit_after U]"

definition INN_RE :: "ucd \<Rightarrow> rx" where
  "INN_RE U = Alt
     (seqs [no_digit_before U, times_rx 10 (digit U), no_digit_after U])
     (seqs [no_digit_before U, times_rx 12 (digit U), no_digit_after U])"

definition PASSPORT_NUMBER_RE :: "ucd \<Rightarrow> rx" where
  "PASSPORT_NUMBER_RE U = seqs
     [no_digit_before U, times_rx 4 (digit U), opt (space U), times_rx 6 (digit U), no_digit_after U]"

definition PASSPORT_DIVISION_CODE_RE :: "ucd \<Rightarrow> rx" where
  "PASSPORT_DIVISION_CODE_RE U = seqs
     [no_digit_before U, times_rx 3 (digit U), one_of (lit ''-''), times_rx 3 (digit U),
      no_digit_after U]"

definition BIRTH_DATE_RE :: "ucd \<Rightarrow> rx" where
  "BIRTH_DATE_RE U = seqs
     [no_digit_before U,
      alts [dmy_date U, ymd_date U,
            seqs [between 1 2 (digit U), plus1 (space U), plus1 (Cls (is_word U)), plus1 (space U),
                  times_rx 4 (digit U)]],
      no_digit_after U]"

definition CVV_RE :: "ucd \<Rightarrow> rx" where
  "CVV_RE U = seqs [no_digit_before U, between 3 4 (digit U), no_digit_after U]"

definition PIN_RE :: "ucd \<Rightarrow> rx" where
  "PIN_RE U = seqs [no_digit_before U, times_rx 4 (digit U), no_digit_after U]"

definition PERSON_NAME_RE :: "ucd \<Rightarrow> rx" where
  "PERSON_NAME_RE U = Seq
     (Seq (alts [ci_word U (ru ''klient''), ci_word U (ru ''gravdanin''),
        ci_word U (ru ''gravdanka''), ci_word U (ru ''zaqwitelx''),
        ci_word U (ru ''pacient''), ci_word U (ru ''sotrudnik''),
        ci_word U (ru ''menedver''), ci_word U (ru ''direktor''),
        ci_word U (ru ''dervatelx''), ci_word U (ru ''wladelec''),
        ci_word U (ru ''predstawitelx''), ci_word U (ru ''pokupatelx''),
        ci_word U (ru ''abonent''), ci_word U (ru ''polxzowatelx''),
        ci_word U (ru ''polu^atelx''), ci_word U (ru ''otprawitelx'')])
        (plus1 (space U)))
     (Grp (Seq cap_word (between 0 2 (Seq (plus1 (space U)) cap_word))))"

text \<open>A place name with its hyphenated parts\<close>

definition place_word :: rx where
  "place_word = Seq cap_word
     (star (Alt (seqs [one_of (lit ''-''), plus1 (Cls cyr_lower), one_of (lit ''-''), cap_word])
                (Seq (one_of (lit ''-'')) cap_word)))"

definition BIRTH_PLACE_RE :: "ucd \<Rightarrow> rx" where
  "BIRTH_PLACE_RE U = Seq
     (seqs
       [alts [ci_word U (ru ''mesto rovdeniq''), ci_word U (ru ''rodilsq w''),
        ci_word U (ru ''rodilasx w''), ci_word U (ru ''urovenec''),
        ci_word U (ru ''urovenka''), ci_word U (ru ''rodom iz'')],
        colon_gap U, opt (one_of [8212, 8211, 45]), star (space U),
        opt (alts
          [Seq (word_rx (ru ''g.'')) (star (space U)),
           Seq (word_rx (ru ''gorode'')) (plus1 (space U)),
           Seq (word_rx (ru ''goroda'')) (plus1 (space U)),
           Seq (word_rx (ru ''gorod'')) (plus1 (space U)),
           Seq (word_rx (ru ''selo'')) (plus1 (space U)),
           Seq (word_rx (ru ''sela'')) (plus1 (space U)),
           Seq (word_rx (ru ''s.'')) (star (space U)),
           Seq (word_rx (ru ''derewnq'')) (plus1 (space U)),
           Seq (word_rx (ru ''derewni'')) (plus1 (space U)),
           Seq (word_rx (ru ''d.'')) (star (space U))])])
     (Grp (seqs
       [place_word,
        between 0 1 (Seq (plus1 (space U)) place_word),
        opt (seqs
          [plus1 (space U), cap_word,
           alts (map word_rx
             [ru ''skoj'', ru ''skogo'', ru ''skij'', ru ''ogo'', ru ''aq'', ru ''oe'']),
           plus1 (space U),
           alts (map word_rx
             [ru ''oblasti'', ru ''oblastx'', ru ''obl.'', ru ''rajona'', ru ''rajon'',
             ru ''kraq'', ru ''kraj''])])]))"

definition CITIZENSHIP_RE :: "ucd \<Rightarrow> rx" where
  "CITIZENSHIP_RE U =
     (let word = Seq (Cls cyr_upper) (star (Cls cyr_letter)) in
      Seq (Seq (alts [ci_word U (ru ''gravdanstwo''), ci_word U (ru ''gravdanin''),
        ci_word U (ru ''gravdanka'')])
             (colon_gap U))
          (Grp (Seq word (between 0 2 (Seq (plus1 (space U)) word)))))"

definition PASSPORT_ISSUER_RE :: "ucd \<Rightarrow> rx" where
  "PASSPORT_ISSUER_RE U =
     (let item = Seq (plus1 (Cls (\<lambda>c. cyr_letter c \<or> ascii_digit_char c \<or> c = 8470 \<or> c = 45)))
                   (opt (one_of (lit ''.''))) in
      Seq (Seq (alts
             [ci_word U (ru ''kem wydan''), Seq (ci_word U (ru ''wydan'')) (WordB (is_word U)),
              Seq (ci_word U (ru ''wydano'')) (WordB (is_word U)),
              ci_word U (ru ''organ, wydaw[ij'')])
             (colon_gap U))
          (Grp (Seq item (star (Seq (plus1 (space U)) item)))))"

definition PASSPORT_ISSUE_DATE_RE :: "ucd \<Rightarrow> rx" where
  "PASSPORT_ISSUE_DATE_RE U = Seq
     (Seq (alts [ci_word U (ru ''data wyda^i''), ci_word U (ru ''wydan''), ci_word U (ru ''wydano'')])
        (lazy 0 80 (Cls (\<lambda>c. \<not> ascii_digit_char c))))
     (Grp (Alt (dmy_date U) (ymd_date U)))"

definition DRIVER_LICENSE_RE :: "ucd \<Rightarrow> rx" where
  "DRIVER_LICENSE_RE U = Seq
     (Seq (alts [ci_word U (ru ''woditelxskoe udostowerenie''),
        ci_word U (ru ''woditelxskie prawa''), ci_word U (ru ''prawa''),
        ci_word U (ru ''w.u.''), ci_word U (ru ''wu'')])
        (colon_gap U))
     (Grp (alts
        [seqs [times_rx 2 (digit U), opt (space U), times_rx 2 (Cls cyr_upper), opt (space U),
               times_rx 6 (digit U)],
         seqs [times_rx 2 (digit U), opt (space U), times_rx 2 (digit U), opt (space U),
               times_rx 6 (digit U)],
         times_rx 10 (digit U)]))"

definition ADDRESS_RE :: "ucd \<Rightarrow> rx" where
  "ADDRESS_RE U = Seq
     (seqs
       [alts [ci_word U (ru ''adres registracii''), ci_word U (ru ''adres proviwaniq''),
        ci_word U (ru ''adres''), ci_word U (ru ''mesto vitelxstwa''),
        ci_word U (ru ''mesto registracii''), ci_word U (ru ''proviwaet''),
        ci_word U (ru ''viwet''), ci_word U (ru ''viw#t''),
        ci_word U (ru ''zaregistrirowan''), ci_word U (ru ''zaregistrirowana''),
        ci_word U (ru ''propisan''), ci_word U (ru ''propisana'')],
        opt (seqs [plus1 (space U), word_rx (ru ''po''), plus1 (space U), word_rx (ru ''adresu'')]),
        colon_gap U])
     (Grp (between 2 10 (seqs
        [plus1 (Cls (\<lambda>c. cyr_letter c \<or> ascii_digit_char c \<or> c = 45)), opt (one_of (lit ''.'')),
         star (space U), opt (one_of (lit '',.'')), star (space U)])))"

definition COUNTRY_RE :: "ucd \<Rightarrow> rx" where
  "COUNTRY_RE U = Seq (Seq (alts [ci_word U (ru ''strana'')]) (colon_gap U))
     (Grp (Seq cap_word (opt (Seq (plus1 (space U)) cap_word))))"

definition POSTAL_CODE_RE :: "ucd \<Rightarrow> rx" where
  "POSTAL_CODE_RE U = Seq (Seq (alts [ci_word U (ru ''indeks''), ci_word U (ru ''po^towyj indeks'')]) (colon_gap U))
     (Grp (times_rx 6 (digit U)))"

definition CITY_RE :: "ucd \<Rightarrow> rx" where
  "CITY_RE U = Seq (Seq (alts [ci_word U (ru ''gorod''), ci_word U (ru ''g.'')]) (colon_gap U))
     (Grp (Seq cap_word (opt (Seq (one_of (lit ''-'')) cap_word))))"

definition STREET_RE :: "ucd \<Rightarrow> rx" where
  "STREET_RE U = Seq (Seq (alts [ci_word U (ru ''ulica''), ci_word U (ru ''ul.''), ci_word U (ru ''prospekt''),
        ci_word U (ru ''pr-t''), ci_word U (ru ''pereulok''), ci_word U (ru ''per.'')]) (colon_gap U))
     (Grp (Seq cap_word (opt (Seq (plus1 (space U)) cap_word))))"

definition HOUSE_RE :: "ucd \<Rightarrow> rx" where
  "HOUSE_RE U = Seq (Seq (alts [ci_word U (ru ''dom''), ci_word U (ru ''d.'')]) (colon_gap U))
     (Grp (Seq (between 1 4 (digit U)) (opt (Cls cyr_letter))))"

definition APARTMENT_RE :: "ucd \<Rightarrow> rx" where
  "APARTMENT_RE U = Seq (Seq (alts [ci_word U (ru ''kwartira''), ci_word U (ru ''kw.'')]) (colon_gap U))
     (Grp (between 1 4 (digit U)))"

definition CARDHOLDER_NAME_RE :: "ucd \<Rightarrow> rx" where
  "CARDHOLDER_NAME_RE U =
     (let word = Seq (Cls (\<lambda>c. latin_upper c \<or> cyr_upper c))
                   (plus1 (Cls (\<lambda>c. latin_letter c \<or> cyr_letter c))) in
      Seq (Seq (alts [ci_word U (ru ''dervatelx karty''), ci_word U (lit ''cardholder''),
        ci_word U (ru ''imq na karte''), ci_word U (ru ''wladelec karty'')])
             (colon_gap U))
          (Grp (Seq word (opt (Seq (plus1 (space U)) word)))))"

section \<open>Tables\<close>

definition VALIDATORS :: "ucd \<Rightarrow> date \<Rightarrow> (pii_type \<times> (pystr \<Rightarrow> exn + bool)) list" where
  "VALIDATORS U today =
     [(BANK_CARD, luhn U), (INN, inn_checksum U), (BIRTH_DATE, is_birth_date U today)]"

definition RULES :: "ucd \<Rightarrow> (pii_type \<times> rx) list" where
  "RULES U =
    [(EMAIL, EMAIL_RE U), (PHONE, PHONE_RE U), (BANK_CARD, BANK_CARD_RE U), (INN, INN_RE U),
     (PASSPORT_NUMBER, PASSPORT_NUMBER_RE U),
     (PASSPORT_DIVISION_CODE, PASSPORT_DIVISION_CODE_RE U), (BIRTH_DATE, BIRTH_DATE_RE U),
     (CVV, CVV_RE U), (PIN, PIN_RE U), (PERSON_NAME, PERSON_NAME_RE U),
     (BIRTH_PLACE, BIRTH_PLACE_RE U), (CITIZENSHIP, CITIZENSHIP_RE U),
     (PASSPORT_ISSUER, PASSPORT_ISSUER_RE U), (PASSPORT_ISSUE_DATE, PASSPORT_ISSUE_DATE_RE U),
     (DRIVER_LICENSE, DRIVER_LICENSE_RE U), (ADDRESS, ADDRESS_RE U), (COUNTRY, COUNTRY_RE U),
     (POSTAL_CODE, POSTAL_CODE_RE U), (CITY, CITY_RE U), (STREET, STREET_RE U),
     (HOUSE, HOUSE_RE U), (APARTMENT, APARTMENT_RE U), (CARDHOLDER_NAME, CARDHOLDER_NAME_RE U)]"

definition GROUPED_TYPES :: "pii_type list" where
  "GROUPED_TYPES =
    [PERSON_NAME, BIRTH_PLACE, CITIZENSHIP, PASSPORT_ISSUER, PASSPORT_ISSUE_DATE, DRIVER_LICENSE,
     ADDRESS, COUNTRY, POSTAL_CODE, CITY, STREET, HOUSE, APARTMENT, CARDHOLDER_NAME]"

definition MARKER_WINDOW :: int where
  "MARKER_WINDOW = 40"

definition MARKER_TYPES :: "(pii_type \<times> pystr list) list" where
  "MARKER_TYPES =
    [(CVV, [lit ''cvv'', lit ''cvc'', ru ''kod prowerki'']),
     (PIN, [lit ''pin'', ru ''pin'']),
     (BIRTH_DATE,
      [ru ''g.r.'', ru ''data rovd'', ru ''data rovdeniq'', ru ''rod.'', ru ''rodilsq'',
      ru ''rodilasx'']),
     (PASSPORT_NUMBER, [ru ''pasport'', ru ''seriq'', ru ''wydan''])]"

definition COUNTRY_NAMES :: "pystr list" where
  "COUNTRY_NAMES =
     [ru ''rossijskaq federaciq'', ru ''rossijskoj federacii'', ru ''rf'', ru ''rossiq'',
      ru ''rossii'', ru ''respublika belarusx'', ru ''respubliki belarusx'',
      ru ''belarusx'', ru ''belarusi'', ru ''kazahstan'', ru ''kazahstana'',
      ru ''respublika kazahstan'', ru ''respubliki kazahstan'', ru ''ukraina'',
      ru ''ukrainy'', ru ''uzbekistan'', ru ''uzbekistana'', ru ''armeniq'',
      ru ''armenii'', ru ''gruziq'', ru ''gruzii'', ru ''tadvikistan'',
      ru ''tadvikistana'', ru ''kirgiziq'', ru ''kirgizii'', ru ''moldowa'',
      ru ''moldowy'', ru ''turkmenistan'', ru ''turkmenistana'', ru ''azerbajdvan'',
      ru ''azerbajdvana'', ru ''litwa'', ru ''litwy'', ru ''latwiq'', ru ''latwii'',
      ru ''&stoniq'', ru ''&stonii'']"

definition ADDRESS_COMPONENT_TYPES :: "pii_type list" where
  "ADDRESS_COMPONENT_TYPES = [ADDRESS, CITY, STREET, HOUSE, APARTMENT, POSTAL_CODE, PHONE]"

definition PERSONAL :: "pystr list" where
  "PERSONAL =
     [ru ''li^nyj'', ru ''li^nogo'', ru ''li^nomu'', ru ''moj'', ru ''moq'', ru ''moego'',
      ru ''ego'', ru ''e#'', ru ''ee'', ru ''klienta'', ru ''klient'', ru ''zaqwitelq'',
      ru ''pacienta'', ru ''sotrudnika'']"

section \<open>The detector\<close>

definition has_marker :: "ucd \<Rightarrow> pystr \<Rightarrow> int \<Rightarrow> int \<Rightarrow> pystr list \<Rightarrow> bool" where
  "has_marker U txt start fin markers =
     (let window = str_lower U (py_slice txt (max 0 (start - MARKER_WINDOW)) (fin + MARKER_WINDOW))
      in list_ex (\<lambda>marker. str_in marker window) markers)"

definition is_bank_context :: "ucd \<Rightarrow> pystr \<Rightarrow> int \<Rightarrow> bool" where
  "is_bank_context U txt start =
     (let window = str_lower U (py_slice txt (max 0 (start - 80)) (start + 20))
      in if \<not> str_in (ru ''bank'') window \<and> \<not> str_in (ru ''otdelenie'') window then False
         else \<not> list_ex (\<lambda>indicator. str_in indicator window) PERSONAL)"

definition is_full_address :: "ucd \<Rightarrow> pystr \<Rightarrow> bool" where
  "is_full_address U value =
     (if re_search (Alt (times_rx 6 (digit U)) (alts (map word_rx
           [ru ''ul.'', ru ''ulica'', ru ''d.'', ru ''dom'', ru ''kw.'', ru ''kwartira'',
           ru ''g.'', ru ''gorod'']))) value \<noteq> None
      then True
      else length (str_split U value) \<ge> 3)"

text \<open>\<open>value.isdigit()\<close>\<close>

definition str_isdigit :: "ucd \<Rightarrow> pystr \<Rightarrow> bool" where
  "str_isdigit U s = (s \<noteq> [] \<and> list_all (is_digit U) s)"

definition clean_issuer :: "ucd \<Rightarrow> pystr \<Rightarrow> pystr \<Rightarrow> int \<Rightarrow> int \<Rightarrow> pystr \<times> int \<times> int" where
  "clean_issuer U txt value start fin =
     (let tail = py_slice txt fin (fin + 12);
          date_match = re_match (Alt (Seq (star (space U)) (dmy_date U))
                                     (Seq (star (space U)) (ymd_date U))) tail;
          value1 = (if date_match then str_rstrip U value else value);
          end1 = (if date_match then start + int (length value1) else fin);
          frag = re_search (seqs [plus1 (space U), between 1 2 (digit U), EndA]) value1;
          value2 = (case frag of None \<Rightarrow> value1
                    | Some (a, _, _) \<Rightarrow> str_rstrip U (py_slice value1 0 (int a)));
          end2 = (case frag of None \<Rightarrow> end1 | Some _ \<Rightarrow> start + int (length value2))
      in if value2 = [] \<or> str_isdigit U value2 then ([], start, start)
         else if re_fullmatch (seqs [word_rx (ru ''w''), plus1 (space U), times_rx 4 (digit U),
                                     plus1 (space U), word_rx (ru ''godu'')]) value2
         then ([], start, start)
         else (value2, start, end2))"

text \<open>The loop that strips trailing punctuation; \<open>value[-1]\<close> of an empty value raises.\<close>

definition TRAILING :: pystr where
  "TRAILING = lit ''.,;!? ''"

function trim_tail :: "pystr \<Rightarrow> int \<Rightarrow> int \<Rightarrow> exn + (pystr \<times> int)" where
  "trim_tail value start fin =
     (if fin > start
      then (if value = [] then Inl IndexError
            else if last value \<in> set TRAILING then trim_tail (butlast value) start (fin - 1)
            else Inr (value, fin))
      else Inr (value, fin))"
  by pat_completeness auto
termination by (relation "measure (\<lambda>(value, start, fin). nat (fin - start))") auto

declare trim_tail.simps [simp del]

text \<open>
  The value and span of a match: \<open>Inr None\<close> is the \<open>continue\<close> of an issuer that was cleaned away.
  A group that took no part in the match would make \<open>match.group(1)\<close> \<open>None\<close>; the grouped
  patterns here always set it.
\<close>

definition match_span :: "ucd \<Rightarrow> pystr \<Rightarrow> pii_type \<Rightarrow> rx_match \<Rightarrow> exn + (pystr \<times> int \<times> int) option" where
  "match_span U txt t m =
     (case m of (a, b, g) \<Rightarrow>
        if t \<in> set GROUPED_TYPES then
          (case g of None \<Rightarrow> Inl TypeError
           | Some (i, j) \<Rightarrow>
               ebind (trim_tail (py_slice txt (int i) (int j)) (int i) (int j)) (\<lambda>(value, fin).
                 if t = PASSPORT_ISSUER then
                   (case clean_issuer U txt value (int i) fin of (value', start', end') \<Rightarrow>
                      if value' = [] then Inr None else Inr (Some (value', start', end')))
                 else Inr (Some (value, int i, fin))))
        else Inr (Some (py_slice txt (int a) (int b), int a, int b)))"

text \<open>The filters after the value is known: \<open>Inr False\<close> is \<open>continue\<close>.\<close>

definition keep_value :: "ucd \<Rightarrow> date \<Rightarrow> pystr \<Rightarrow> pii_type \<Rightarrow> pystr \<Rightarrow> int \<Rightarrow> int \<Rightarrow> exn + bool" where
  "keep_value U today txt t value start fin =
     ebind (case map_of (VALIDATORS U today) t of None \<Rightarrow> Inr True | Some validator \<Rightarrow> validator value)
       (\<lambda>ok. Inr
         (if \<not> ok then False
          else if t = PERSON_NAME \<and> str_lower U value \<in> set COUNTRY_NAMES then False
          else if t = CITIZENSHIP \<and> str_lower U value \<notin> set COUNTRY_NAMES then False
          else if t = ADDRESS \<and> \<not> is_full_address U value then False
          else if t \<in> set ADDRESS_COMPONENT_TYPES \<and> is_bank_context U txt start then False
          else (case map_of MARKER_TYPES t of None \<Rightarrow> True
                | Some markers \<Rightarrow> has_marker U txt start fin markers)))"

definition detect_match :: "ucd \<Rightarrow> date \<Rightarrow> pystr \<Rightarrow> pii_type \<Rightarrow> rx_match \<Rightarrow> exn + pii_entity option" where
  "detect_match U today txt t m =
     ebind (match_span U txt t m) (\<lambda>sp.
       case sp of None \<Rightarrow> Inr None
       | Some (value, start, fin) \<Rightarrow>
           ebind (keep_value U today txt t value start fin) (\<lambda>keep.
             Inr (if keep then Some (PIIEntity t value start fin 1 (lit ''regex'')) else None)))"

definition detect_rule ::
    "ucd \<Rightarrow> date \<Rightarrow> pystr \<Rightarrow> pii_entity list \<Rightarrow> pii_type \<times> rx \<Rightarrow> exn + pii_entity list" where
  "detect_rule U today txt entities rule =
     (case rule of (t, pattern) \<Rightarrow>
        efold (\<lambda>es m. ebind (detect_match U today txt t m) (\<lambda>r.
                 Inr (case r of None \<Rightarrow> es | Some e \<Rightarrow> es @ [e])))
          entities (finditer pattern txt))"

definition regex_detect :: "ucd \<Rightarrow> date \<Rightarrow> pystr \<Rightarrow> exn + pii_entity list" where
  "regex_detect U today txt = efold (detect_rule U today txt) [] (RULES U)"

section \<open>Facts about the patterns\<close>

lemmas pattern_defs =
  EMAIL_RE_def PHONE_RE_def BANK_CARD_RE_def INN_RE_def PASSPORT_NUMBER_RE_def
  PASSPORT_DIVISION_CODE_RE_def BIRTH_DATE_RE_def CVV_RE_def PIN_RE_def PERSON_NAME_RE_def
  BIRTH_PLACE_RE_def CITIZENSHIP_RE_def PASSPORT_ISSUER_RE_def PASSPORT_ISSUE_DATE_RE_def
  DRIVER_LICENSE_RE_def ADDRESS_RE_def COUNTRY_RE_def POSTAL_CODE_RE_def CITY_RE_def STREET_RE_def
  HOUSE_RE_def APARTMENT_RE_def CARDHOLDER_NAME_RE_def

lemmas piece_defs =
  sep_opt_def no_digit_before_def no_digit_after_def colon_gap_def cap_word_def place_word_def
  dmy_date_def ymd_date_def one_of_def digit_def space_def Let_def

lemma TRAILING_cases: "c \<in> set TRAILING \<longleftrightarrow> c \<in> {46, 44, 59, 33, 63, 32}"
  by (auto simp: TRAILING_def lit_def)

lemma not_trailing [simp]:
  "cyr_upper c \<Longrightarrow> c \<notin> set TRAILING" "cyr_lower c \<Longrightarrow> c \<notin> set TRAILING"
  "cyr_letter c \<Longrightarrow> c \<notin> set TRAILING" "ascii_digit_char c \<Longrightarrow> c \<notin> set TRAILING"
  "latin_upper c \<Longrightarrow> c \<notin> set TRAILING" "is_decimal U c \<Longrightarrow> c \<notin> set TRAILING"
  "8470 \<notin> set TRAILING" "45 \<notin> set TRAILING"
  unfolding TRAILING_cases
  by (auto simp: cyr_upper_def cyr_lower_def cyr_letter_def ascii_digit_char_def latin_upper_def
      is_decimal_def class_of_def ascii_class_def)

text \<open>
  A rule fits its type: a grouped rule ends with its group, whose first character is not
  stripped as trailing punctuation; the match of any other rule is not empty.
\<close>

definition rule_fits :: "pii_type \<times> rx \<Rightarrow> bool" where
  "rule_fits rule \<longleftrightarrow>
     (case rule of (t, r) \<Rightarrow>
        if t \<in> set GROUPED_TYPES
        then \<exists>pre body. r = Seq pre (Grp body) \<and> starts (\<lambda>c. c \<notin> set TRAILING) body
        else starts (\<lambda>_. True) r)"

lemma rules_fit: "rule \<in> set (RULES U) \<Longrightarrow> rule_fits rule"
  by (auto simp: RULES_def rule_fits_def GROUPED_TYPES_def pattern_defs piece_defs lit_def)

section \<open>Spans of the entities\<close>

lemma slice_snoc:
  assumes "i \<le> k" "k < length txt"
  shows "py_slice txt (int i) (int (Suc k)) = py_slice txt (int i) (int k) @ [txt ! k]"
  using assms by (simp add: py_slice_map del: of_nat_Suc)

lemma slice_empty: "py_slice txt (int i) (int i) = []"
  by (simp add: py_slice_def)

text \<open>The stripping loop stops inside the group when the group's first character is kept.\<close>

lemma trim_tail_slice:
  assumes "i < j" and "j \<le> length txt" and "txt ! i \<notin> set TRAILING"
  shows "\<exists>k. i < k \<and> k \<le> j \<and>
    trim_tail (py_slice txt (int i) (int j)) (int i) (int j) = Inr (py_slice txt (int i) (int k), int k)"
  using assms(1,2)
proof (induction j)
  case (Suc j)
  then have sl: "py_slice txt (int i) (int (Suc j)) = py_slice txt (int i) (int j) @ [txt ! j]"
    by (intro slice_snoc) auto
  show ?case
  proof (cases "txt ! j \<in> set TRAILING")
    case True
    with Suc.prems assms(3) have "i < j" by (metis less_SucE)
    with Suc obtain k where k: "i < k" "k \<le> j"
      "trim_tail (py_slice txt (int i) (int j)) (int i) (int j) = Inr (py_slice txt (int i) (int k), int k)"
      by auto
    have "trim_tail (py_slice txt (int i) (int (Suc j))) (int i) (int (Suc j))
        = trim_tail (py_slice txt (int i) (int j)) (int i) (int j)"
      using True Suc.prems unfolding sl by (subst trim_tail.simps) simp
    with k show ?thesis by (metis le_SucI)
  next
    case False
    with Suc.prems have "trim_tail (py_slice txt (int i) (int (Suc j))) (int i) (int (Suc j))
        = Inr (py_slice txt (int i) (int (Suc j)), int (Suc j))"
      unfolding sl by (subst trim_tail.simps) simp
    with Suc.prems show ?thesis by blast
  qed
qed simp

text \<open>The issuer's cleaning keeps a prefix of the value.\<close>

lemma prefix_py_slice_0: "prefix (py_slice xs 0 b) xs"
  by (simp add: py_slice_def clamp_ix_def take_is_prefix Let_def)

lemma clean_issuer_prefix:
  assumes "clean_issuer U txt value start fin = (v, s, e)" and "v \<noteq> []"
    and "fin = start + int (length value)"
  shows "prefix v value \<and> s = start \<and> e = start + int (length v)"
proof -
  have "prefix (str_rstrip U x) value" if "prefix x value" for x
    using that prefix_str_rstrip prefix_order.order_trans by blast
  moreover from this have "prefix (str_rstrip U (py_slice x 0 b)) value" if "prefix x value" for x b
    using that prefix_py_slice_0 prefix_order.order_trans by blast
  ultimately show ?thesis
    using assms by (auto simp: clean_issuer_def Let_def split: if_splits option.splits)
qed

lemma prefix_slice:
  assumes "prefix v (py_slice txt (int i) (int j))" and "i \<le> j" and "j \<le> length txt"
  shows "v = py_slice txt (int i) (int i + int (length v)) \<and> i + length v \<le> j"
proof -
  from assms have len: "length v \<le> j - i"
    using prefix_length_le length_py_slice [of "int i" "int j" "txt"] by fastforce
  from assms(1) have "v = take (length v) (py_slice txt (int i) (int j))"
    by (metis append_eq_conv_conj prefix_def)
  also have "\<dots> = take (length v) (drop i txt)"
    using assms len by (simp add: slice_simps min_def)
  finally show ?thesis using assms len by (simp add: slice_simps nat_add_distrib)
qed

lemma match_span_grouped:
  assumes t: "t \<in> set GROUPED_TYPES" and i: "i < j" "j \<le> length txt" "txt ! i \<notin> set TRAILING"
  shows "\<exists>sp. match_span U txt t (a, b, Some (i, j)) = Inr sp \<and>
     (\<forall>v s e. sp = Some (v, s, e) \<longrightarrow>
        s = int i \<and> int i < e \<and> e \<le> int j \<and> v = py_slice txt (int i) e)"
proof -
  from trim_tail_slice [OF i] obtain k where k: "i < k" "k \<le> j"
    "trim_tail (py_slice txt (int i) (int j)) (int i) (int j) = Inr (py_slice txt (int i) (int k), int k)"
    by blast
  let ?v = "py_slice txt (int i) (int k)"
  have len: "int k = int i + int (length ?v)"
    using k i by (simp add: length_py_slice)
  have "s = int i \<and> int i < e \<and> e \<le> int j \<and> v = py_slice txt (int i) e"
    if "clean_issuer U txt ?v (int i) (int k) = (v, s, e)" "v \<noteq> []" for v s e
  proof -
    from clean_issuer_prefix [OF that len] have p: "prefix v ?v" "s = int i" "e = int i + int (length v)"
      by auto
    with prefix_slice [OF p(1)] k i that(2) show ?thesis by auto
  qed
  with t k show ?thesis by (auto simp: match_span_def split: prod.splits)
qed

lemma match_span_valid:
  assumes rule: "(t, r) \<in> set (RULES U)" and m: "m \<in> set (finditer r txt)"
  shows "\<exists>sp. match_span U txt t m = Inr sp \<and>
     (\<forall>v s e. sp = Some (v, s, e) \<longrightarrow>
        0 \<le> s \<and> s < e \<and> e \<le> int (length txt) \<and> v = py_slice txt s e)"
proof -
  obtain a b g where abg: "m = (a, b, g)" by (cases m)
  from m have a: "a \<le> length txt" "(b, g) \<in> set (matches r txt (a, None))"
    unfolding abg using finditer_sound by blast+
  from matches_bound [OF a(2)] a(1) have b: "b \<le> length txt" by simp
  from rules_fit [OF rule] have fit: "rule_fits (t, r)" .
  show ?thesis
  proof (cases "t \<in> set GROUPED_TYPES")
    case True
    with fit obtain pre body where r: "r = Seq pre (Grp body)"
      and st: "starts (\<lambda>c. c \<notin> set TRAILING) body" by (auto simp: rule_fits_def)
    from matches_grouped [OF a(2) [unfolded r]] obtain k h h' where
      k: "g = Some (k, b)" "(b, h') \<in> set (matches body txt (k, h))" by blast
    from matches_starts [OF st k(2)] have "k < b" "txt ! k \<notin> set TRAILING" by auto
    from match_span_grouped [OF True this(1) b this(2)] obtain sp where
      sp: "match_span U txt t m = Inr sp" and
      ok: "\<And>v s e. sp = Some (v, s, e) \<Longrightarrow>
             s = int k \<and> int k < e \<and> e \<le> int b \<and> v = py_slice txt (int k) e"
      unfolding abg k(1) by blast
    have "0 \<le> s \<and> s < e \<and> e \<le> int (length txt) \<and> v = py_slice txt s e"
      if "sp = Some (v, s, e)" for v s e
      using ok [OF that] b by auto
    with sp show ?thesis by blast
  next
    case False
    with fit have "starts (\<lambda>_. True) r" by (auto simp: rule_fits_def)
    from matches_starts [OF this a(2)] b False show ?thesis
      by (simp add: match_span_def abg)
  qed
qed

section \<open>What the detector returns\<close>

lemma detect_rule_origin:
  assumes "detect_rule U today txt es (t, r) = Inr es'" and "e \<in> set es'"
  shows "e \<in> set es \<or> (\<exists>m \<in> set (finditer r txt). detect_match U today txt t m = Inr (Some e))"
proof -
  let ?I = "\<lambda>xs. set xs \<subseteq> set es \<union> {e. \<exists>m \<in> set (finditer r txt). detect_match U today txt t m = Inr (Some e)}"
  have "?I es'"
    by (rule efold_invariant [OF assms(1) [unfolded detect_rule_def prod.case], of ?I])
      (auto simp: ebind_eq_Inr split: option.splits)
  with assms(2) show ?thesis by blast
qed

lemma regex_detect_origin:
  assumes "regex_detect U today txt = Inr es" and "e \<in> set es"
  shows "\<exists>t r. (t, r) \<in> set (RULES U) \<and>
     (\<exists>m \<in> set (finditer r txt). detect_match U today txt t m = Inr (Some e))"
proof -
  let ?I = "\<lambda>xs. \<forall>e \<in> set xs. \<exists>t r. (t, r) \<in> set (RULES U) \<and>
     (\<exists>m \<in> set (finditer r txt). detect_match U today txt t m = Inr (Some e))"
  have "?I es"
  proof (rule efold_invariant [OF assms(1) [unfolded regex_detect_def]])
    fix xs rule xs'
    assume "rule \<in> set (RULES U)" "?I xs" "detect_rule U today txt xs rule = Inr xs'"
    then show "?I xs'" using detect_rule_origin by (metis surj_pair)
  qed simp
  with assms(2) show ?thesis by blast
qed

text \<open>What every entity of the detector satisfies\<close>

definition detected_ok :: "ucd \<Rightarrow> date \<Rightarrow> pystr \<Rightarrow> pii_entity \<Rightarrow> bool" where
  "detected_ok U today txt e \<longleftrightarrow>
     valid_span txt e \<and> e_confidence e = 1 \<and> e_detector e = lit ''regex''
     \<and> keep_value U today txt (e_type e) (e_value e) (e_start e) (e_end e) = Inr True"

lemma detect_match_ok:
  assumes "(t, r) \<in> set (RULES U)" and "m \<in> set (finditer r txt)"
    and "detect_match U today txt t m = Inr (Some e)"
  shows "e_type e = t \<and> detected_ok U today txt e"
proof -
  from assms(3) obtain v s f where sp: "match_span U txt t m = Inr (Some (v, s, f))"
    and k: "keep_value U today txt t v s f = Inr True" and e: "e = PIIEntity t v s f 1 (lit ''regex'')"
    by (auto simp: detect_match_def ebind_eq_Inr split: option.splits if_splits)
  from match_span_valid [OF assms(1,2)] sp have
    "0 \<le> s \<and> s < f \<and> f \<le> int (length txt) \<and> v = py_slice txt s f" by auto
  with k show ?thesis by (simp add: e detected_ok_def valid_span_def)
qed

lemma regex_detect_ok:
  assumes "regex_detect U today txt = Inr es" and "e \<in> set es"
  shows "detected_ok U today txt e"
  using regex_detect_origin [OF assms] detect_match_ok by blast

section \<open>The validators never raise on detected values\<close>

lemma set_py_slice_nth:
  assumes "c \<in> set (py_slice txt s e)" and "0 \<le> s" "s \<le> e" "e \<le> int (length txt)"
  shows "\<exists>i. nat s \<le> i \<and> i < nat e \<and> c = txt ! i"
  using assms by (auto simp: py_slice_map)

text \<open>The characters of a value are among those its pattern consumes.\<close>

lemma match_span_chars:
  assumes rule: "(t, r) \<in> set (RULES U)" and m: "m \<in> set (finditer r txt)"
    and sp: "match_span U txt t m = Inr (Some (v, s, e))"
    and cl: "if t \<in> set GROUPED_TYPES then \<forall>pre body. r = Seq pre (Grp body) \<longrightarrow> chars_in P body
             else chars_in P r"
  shows "\<forall>c \<in> set v. P c"
proof -
  obtain a b g where abg: "m = (a, b, g)" by (cases m)
  from m have a: "a \<le> length txt" "(b, g) \<in> set (matches r txt (a, None))"
    unfolding abg using finditer_sound by blast+
  from matches_bound [OF a(2)] a(1) have b: "b \<le> length txt" by simp
  from rules_fit [OF rule] have fit: "rule_fits (t, r)" .
  have "\<exists>k. int k \<le> s \<and> s \<le> e \<and> e \<le> int b \<and> v = py_slice txt s e \<and>
      (\<forall>i. k \<le> i \<longrightarrow> i < b \<longrightarrow> P (txt ! i))"
  proof (cases "t \<in> set GROUPED_TYPES")
    case True
    with fit obtain pre body where r: "r = Seq pre (Grp body)"
      and st: "starts (\<lambda>c. c \<notin> set TRAILING) body" by (auto simp: rule_fits_def)
    from matches_grouped [OF a(2) [unfolded r]] obtain k h h' where
      k: "g = Some (k, b)" "(b, h') \<in> set (matches body txt (k, h))" by blast
    from matches_starts [OF st k(2)] have kb: "k < b" "txt ! k \<notin> set TRAILING" by auto
    from match_span_grouped [OF True kb(1) b kb(2)] obtain sp' where
      "match_span U txt t m = Inr sp'" and
      ok: "\<And>v s e. sp' = Some (v, s, e) \<Longrightarrow>
             s = int k \<and> int k < e \<and> e \<le> int b \<and> v = py_slice txt (int k) e"
      unfolding abg k(1) by blast
    with sp ok [of v s e] have "s = int k" "int k < e" "e \<le> int b" "v = py_slice txt (int k) e" by auto
    moreover have "chars_in P body" using cl True r by simp
    from matches_moves [OF this k(2)] have "\<forall>i. k \<le> i \<longrightarrow> i < b \<longrightarrow> P (txt ! i)"
      by (simp add: moves_def)
    ultimately show ?thesis by (intro exI [of _ k]) simp
  next
    case False
    with cl have "chars_in P r" by simp
    from matches_moves [OF this a(2)] have "a \<le> b" "\<forall>i. a \<le> i \<longrightarrow> i < b \<longrightarrow> P (txt ! i)"
      by (simp_all add: moves_def)
    moreover from sp False have "s = int a" "e = int b" "v = py_slice txt s e"
      by (auto simp: match_span_def abg)
    ultimately show ?thesis by (intro exI [of _ a]) simp
  qed
  then show ?thesis using b set_py_slice_nth [of _ "txt" s e] by fastforce
qed

text \<open>The Unicode database does not class the Russian capitals as digits.\<close>

definition letters_no_digits :: "ucd \<Rightarrow> bool" where
  "letters_no_digits U \<longleftrightarrow> (\<forall>c. cyr_upper c \<longrightarrow> \<not> is_digit U c)"

abbreviation plain_char :: "ucd \<Rightarrow> codepoint \<Rightarrow> bool" where
  "plain_char U c \<equiv> is_digit U c \<longrightarrow> is_decimal U c"

lemma ascii_plain [simp]: "c < 128 \<Longrightarrow> is_digit U c \<longleftrightarrow> is_decimal U c"
  by (simp add: char_class_defs class_of_def ascii_class_def)

lemma numeric_rules_plain:
  assumes "(t, r) \<in> set (RULES U)" and "t \<in> {PASSPORT_NUMBER, BANK_CARD, INN, PHONE}"
  shows "chars_in (plain_char U) r"
  using assms digit_not_space
  by (auto simp: RULES_def pattern_defs piece_defs lit_def)

lemma driver_rule_plain:
  assumes "letters_no_digits U" and "(DRIVER_LICENSE, Seq pre (Grp body)) \<in> set (RULES U)"
  shows "chars_in (plain_char U) body"
  using assms digit_not_space
  by (auto simp: RULES_def DRIVER_LICENSE_RE_def piece_defs letters_no_digits_def)

lemma numeric_value_plain:
  assumes "(t, r) \<in> set (RULES U)" and "m \<in> set (finditer r txt)"
    and "match_span U txt t m = Inr (Some (v, s, e))"
    and "t \<in> {PASSPORT_NUMBER, BANK_CARD, INN, PHONE} \<or> t = DRIVER_LICENSE \<and> letters_no_digits U"
  shows "plain_digits U v"
proof -
  have "if t \<in> set GROUPED_TYPES then \<forall>pre body. r = Seq pre (Grp body) \<longrightarrow> chars_in (plain_char U) body
        else chars_in (plain_char U) r"
    using assms(1,4) numeric_rules_plain driver_rule_plain
    by (auto simp: GROUPED_TYPES_def)
  from match_span_chars [OF assms(1,2,3) this] show ?thesis by (auto simp: plain_digits_def)
qed

lemma luhn_total: "plain_digits U v \<Longrightarrow> \<exists>b. luhn U v = Inr b"
  by (auto simp: luhn_Inr plain_digits_def digits_def)

lemma int_char_total: "is_decimal U c \<Longrightarrow> \<exists>d. int_char U c = Inr d"
  using int_char_Inr by blast

lemma weighted_check_total:
  assumes "\<forall>c \<in> set num. is_decimal U c"
  shows "\<exists>x. weighted_check U ws num = Inr x"
proof -
  let ?f = "\<lambda>acc (w, ch). ebind (int_char U ch) (\<lambda>d. Inr (acc + d * w))"
  have "\<exists>x. efold ?f acc (zip ws num) = Inr x" for acc
    using assms
  proof (induction ws num arbitrary: acc rule: list_induct2')
    case (4 w ws c num)
    then obtain d where "int_char U c = Inr d" using int_char_total by fastforce
    with 4 show ?case by auto
  qed simp_all
  then show ?thesis by (metis ebind_Inr weighted_check_def)
qed

lemma inn_total:
  assumes "plain_digits U v"
  shows "\<exists>b. inn_checksum U v = Inr b"
proof -
  let ?num = "digits U v"
  have dec: "\<forall>c \<in> set ?num. is_decimal U c" using assms by (auto simp: plain_digits_def digits_def)
  have nth: "\<exists>d. int_char U (?num ! i) = Inr d" if "i < length ?num" for i
    using int_char_total dec that by simp
  have w: "\<exists>x. weighted_check U ws ?num = Inr x" for ws using weighted_check_total [OF dec] .
  consider "length ?num = 10" | "length ?num = 12" | "length ?num \<noteq> 10" "length ?num \<noteq> 12" by blast
  then show ?thesis
  proof cases
    case 1
    with nth [of 9] obtain d where "int_char U (?num ! 9) = Inr d" by auto
    moreover obtain x where "weighted_check U [2, 4, 10, 3, 5, 9, 4, 6, 8] ?num = Inr x" using w by blast
    ultimately show ?thesis using 1 by (simp add: inn_checksum_def Let_def)
  next
    case 2
    with nth [of 10] nth [of 11] obtain d1 d2 where
      "int_char U (?num ! 10) = Inr d1" "int_char U (?num ! 11) = Inr d2" by auto
    moreover obtain x where "weighted_check U [7, 2, 4, 10, 3, 5, 9, 4, 6, 8] ?num = Inr x" using w by blast
    moreover obtain y where "weighted_check U [3, 7, 2, 4, 10, 3, 5, 9, 4, 6, 8] ?num = Inr y" using w by blast
    ultimately show ?thesis using 2 by (auto simp: inn_checksum_def Let_def)
  next
    case 3
    then show ?thesis by (auto simp: inn_checksum_def Let_def)
  qed
qed

subsection \<open>Birth dates\<close>

lemma runs_from_in: "\<forall>c \<in> set xs. P c \<Longrightarrow> runs_from P cur (xs @ ys) = runs_from P (cur @ xs) ys"
  by (induction xs arbitrary: cur) auto

lemma runs_from_out: "\<forall>c \<in> set xs. \<not> P c \<Longrightarrow> runs_from P [] (xs @ ys) = runs_from P [] ys"
  by (induction xs) auto

lemma runs_from_end:
  assumes "xs \<noteq> []" "\<forall>c \<in> set xs. \<not> P c" "cur \<noteq> []"
  shows "runs_from P cur (xs @ ys) = cur # runs_from P [] ys"
  using assms runs_from_out [of "tl xs" P ys] by (cases xs) auto

text \<open>The value is one word, or a day of at most two and a year of at most four digits around a word.\<close>

definition one_word :: "ucd \<Rightarrow> pystr \<Rightarrow> bool" where
  "one_word U v \<longleftrightarrow> v \<noteq> [] \<and> (\<forall>c \<in> set v. \<not> is_space U c)"

definition blank :: "ucd \<Rightarrow> pystr \<Rightarrow> bool" where
  "blank U v \<longleftrightarrow> v \<noteq> [] \<and> (\<forall>c \<in> set v. is_space U c)"

definition date_words :: "ucd \<Rightarrow> pystr \<Rightarrow> bool" where
  "date_words U v \<longleftrightarrow>
     (\<exists>d g1 w g2 y. v = d @ g1 @ w @ g2 @ y \<and> one_word U d \<and> length d \<le> 2 \<and> blank U g1 \<and> one_word U w
        \<and> blank U g2 \<and> one_word U y \<and> length y \<le> 4)"

lemma split_one_word: "one_word U v \<Longrightarrow> str_split U v = [v]"
  using runs_from_in [of v "\<lambda>c. \<not> is_space U c" "[]" "[]"]
  by (simp add: one_word_def str_split_def runs_def)

lemma split_date_words:
  assumes "one_word U d" "blank U g1" "one_word U w" "blank U g2" "one_word U y"
  shows "str_split U (d @ g1 @ w @ g2 @ y) = [d, w, y]"
  using assms runs_from_in [of y "\<lambda>c. \<not> is_space U c" "[]" "[]"]
  by (simp add: str_split_def runs_def one_word_def blank_def runs_from_in runs_from_end)

lemma strip_words:
  assumes "v \<noteq> []" "\<not> is_space U (hd v)" "\<not> is_space U (last v)"
  shows "str_strip U v = v"
proof -
  have "dropWhile (is_space U) v = v" using assms(1,2) by (cases v) auto
  moreover have "rev (dropWhile (is_space U) (rev v)) = v"
    using assms(1,3) by (cases v rule: rev_cases) auto
  ultimately show ?thesis by (simp add: str_strip_def rstrip_by_def)
qed

lemma int_digits_length: "int_digits U s = Some ds \<Longrightarrow> length ds \<le> length s \<and> (\<forall>d \<in> set ds. d < 10)"
  by (induction U s arbitrary: ds rule: int_digits.induct)
    (fastforce dest: digit_value_less split: option.splits if_splits)+

lemma foldl_digits:
  "\<forall>d \<in> set ds. d < (10 :: nat) \<Longrightarrow> 0 \<le> n \<Longrightarrow>
   0 \<le> foldl (\<lambda>n d. 10 * n + int d) n ds \<and> foldl (\<lambda>n d. 10 * n + int d) n ds < (n + 1) * 10 ^ length ds"
proof (induction ds arbitrary: n)
  case (Cons d ds)
  let ?m = "10 * n + int d"
  have "(?m + 1) * 10 ^ length ds \<le> (10 * (n + 1)) * 10 ^ length ds"
    using Cons.prems by (intro mult_right_mono) auto
  moreover from Cons.IH [of ?m] Cons.prems
  have "0 \<le> foldl (\<lambda>n d. 10 * n + int d) ?m ds"
    "foldl (\<lambda>n d. 10 * n + int d) ?m ds < (?m + 1) * 10 ^ length ds" by auto
  moreover have "(10 * (n + 1)) * 10 ^ length ds = (n + 1) * 10 ^ length (d # ds)" by simp
  ultimately show ?case unfolding foldl.simps by linarith
qed simp

lemma int_word_small:
  assumes "int_word U s = Some n" and "length s \<le> 9"
  shows "fits_c_int n"
proof -
  have main: "fits_c_int (foldl (\<lambda>n d. 10 * n + int d) 0 ds) \<and>
      fits_c_int (- foldl (\<lambda>n d. 10 * n + int d) 0 ds)"
    if b: "int_digits U body = Some ds" "length body \<le> 9" for body ds
  proof -
    from int_digits_length [OF b(1)] b(2) have ds: "length ds \<le> 9" "\<forall>d \<in> set ds. d < 10" by auto
    have "(10 :: int) ^ length ds \<le> 10 ^ 9" using ds(1) by (intro power_increasing) auto
    with foldl_digits [OF ds(2), of 0] show ?thesis by (auto simp: fits_c_int_def)
  qed
  from assms show ?thesis
    by (auto simp: int_word_def Let_def main split: list.splits option.splits if_splits)
qed

lemma parse_date_total:
  assumes "one_word U v \<or> date_words U v"
  shows "\<exists>p. parse_date U v = Inr p"
  using assms
proof
  assume "one_word U v"
  then have "str_strip U v = v" by (intro strip_words) (auto simp: one_word_def)
  then show ?thesis
    using split_one_word [OF \<open>one_word U v\<close>] by (auto simp: parse_date_def Let_def split: sum.splits)
next
  assume "date_words U v"
  then obtain d g1 w g2 y where v: "v = d @ g1 @ w @ g2 @ y" and d: "one_word U d" "length d \<le> 2"
    and g: "blank U g1" "one_word U w" "blank U g2" and y: "one_word U y" "length y \<le> 4"
    by (auto simp: date_words_def)
  have "str_strip U v = v"
    using d y by (intro strip_words) (auto simp: v one_word_def)
  moreover have "str_split U v = [d, w, y]"
    unfolding v by (rule split_date_words) (use d g y in auto)
  moreover have "make_date n m k \<noteq> Inl OverflowError"
    if "int_word U y = Some n" "int_word U d = Some k" "map_of months x = Some m" for n m k x
  proof -
    have "(x, m) \<in> set months" using that(3) by (rule map_of_SomeD)
    then have "fits_c_int m" by (auto simp: months_def fits_c_int_def)
    with that d y int_word_small [of U y n] int_word_small [of U d k]
    show ?thesis by (auto simp: make_date_def)
  qed
  moreover have "make_date n m k \<noteq> Inl e" if "e \<noteq> OverflowError" "e \<noteq> ValueError" for n m k e
    using that by (auto simp: make_date_def)
  ultimately show ?thesis
    unfolding parse_date_def Let_def
    by (auto split: sum.splits option.splits exn.splits)
qed

text \<open>The part of the text between two states of the matcher\<close>

definition seg :: "pystr \<Rightarrow> rx_state \<Rightarrow> rx_state \<Rightarrow> pystr" where
  "seg txt x y = map ((!) txt) [fst x..<fst y]"

lemma seg_append: "fst x \<le> fst y \<Longrightarrow> fst y \<le> fst z \<Longrightarrow> seg txt x z = seg txt x y @ seg txt y z"
  by (simp add: seg_def flip: map_append upt_split)

lemma seg_chars: "moves P txt x y \<Longrightarrow> \<forall>c \<in> set (seg txt x y). P c"
  by (auto simp: seg_def moves_def)

lemma seg_of_slice: "a \<le> b \<Longrightarrow> b \<le> length txt \<Longrightarrow> py_slice txt (int a) (int b) = seg txt (a, g) (b, h)"
  by (simp add: seg_def py_slice_map)

lemma reps_cls_length:
  "y \<in> set (reps (matches (Cls P) txt) gr lo ex x) \<Longrightarrow> fst y \<le> fst x + lo + ex"
proof (induction "matches (Cls P) txt" gr lo ex x rule: reps.induct)
  case (1 greedy lo extra s)
  then obtain z where z: "z \<in> set (matches (Cls P) txt s)"
    "y \<in> set (reps (matches (Cls P) txt) greedy lo extra z)" by auto
  with 1(1) [of z] show ?case by (auto split: if_splits)
next
  case (3 greedy extra s)
  show ?case
  proof (cases "y = s")
    case False
    with 3(2) obtain z where z: "z \<in> set (matches (Cls P) txt s)" "fst z \<noteq> fst s"
      "y \<in> set (reps (matches (Cls P) txt) greedy 0 extra z)"
      by (auto simp: Let_def split: if_splits)
    with 3(1) [of z] show ?thesis by (auto split: if_splits)
  qed simp
qed simp

lemma repeat_cls_seg:
  assumes y: "y \<in> set (matches (Rep lo hi gr (Cls P)) txt x)" and "lo > 0"
  shows "seg txt x y \<noteq> []" and "\<forall>c \<in> set (seg txt x y). P c" and "fst x \<le> fst y"
    and "hi = Some h \<Longrightarrow> lo \<le> h \<Longrightarrow> length (seg txt x y) \<le> h"
proof -
  have "fst x < fst y" using matches_starts [of "\<lambda>_. True", OF _ y] assms(2) by simp
  then show "seg txt x y \<noteq> []" "fst x \<le> fst y" by (auto simp: seg_def)
  have "moves P txt x y" using matches_moves [OF _ y] by simp
  then show "\<forall>c \<in> set (seg txt x y). P c" by (rule seg_chars)
  show "length (seg txt x y) \<le> h" if "hi = Some h" "lo \<le> h"
    using reps_cls_length [of y P "txt" gr lo "h - lo" x] y that by (simp add: seg_def)
qed

lemma word_not_space: "is_word U c \<Longrightarrow> \<not> is_space U c"
  using alnum_not_space [of U c] by (auto simp: is_word_def is_space_def class_of_def ascii_class_def)

lemma matches_alts3:
  "y \<in> set (matches (alts [p, q, r]) txt x) \<longleftrightarrow>
   y \<in> set (matches (Alt p q) txt x) \<or> y \<in> set (matches r txt x)"
  by auto

lemma birth_words_shape:
  assumes "z \<in> set (matches (seqs [between 1 2 (digit U), plus1 (space U), plus1 (Cls (is_word U)),
      plus1 (space U), times_rx 4 (digit U)]) txt x)"
  shows "date_words U (seg txt x z)"
proof -
  let ?d = "between 1 2 (Cls (is_decimal U))" and ?g = "plus1 (Cls (is_space U))"
  let ?w = "plus1 (Cls (is_word U))" and ?y = "times_rx 4 (Cls (is_decimal U))"
  from assms have z: "z \<in> set (matches (Seq ?d (Seq ?g (Seq ?w (Seq ?g ?y)))) txt x)"
    by (simp only: seqs.simps digit_def space_def)
  from z obtain a where a: "a \<in> set (matches ?d txt x)" "z \<in> set (matches (Seq ?g (Seq ?w (Seq ?g ?y))) txt a)"
    by (rule matches_SeqE)
  from a(2) obtain b where b: "b \<in> set (matches ?g txt a)" "z \<in> set (matches (Seq ?w (Seq ?g ?y)) txt b)"
    by (rule matches_SeqE)
  from b(2) obtain c where c: "c \<in> set (matches ?w txt b)" "z \<in> set (matches (Seq ?g ?y) txt c)"
    by (rule matches_SeqE)
  from c(2) obtain e where e: "e \<in> set (matches ?g txt c)" "z \<in> set (matches ?y txt e)"
    by (rule matches_SeqE)
  note d = repeat_cls_seg [OF a(1)] and g1 = repeat_cls_seg [OF b(1)] and w = repeat_cls_seg [OF c(1)]
    and g2 = repeat_cls_seg [OF e(1)] and y = repeat_cls_seg [OF e(2)]
  have "one_word U (seg txt x a)" "length (seg txt x a) \<le> 2"
    using d(1,2) d(4) [OF _ refl] decimal_not_space by (auto simp: one_word_def)
  moreover have "blank U (seg txt a b)" "blank U (seg txt c e)"
    using g1(1,2) g2(1,2) by (auto simp: blank_def)
  moreover have "one_word U (seg txt b c)" using w(1,2) word_not_space by (auto simp: one_word_def)
  moreover have "one_word U (seg txt e z)" "length (seg txt e z) \<le> 4"
    using y(1,2) y(4) [OF _ refl] decimal_not_space by (auto simp: one_word_def)
  moreover have "seg txt x z = seg txt x a @ seg txt a b @ seg txt b c @ seg txt c e @ seg txt e z"
    using d(3) g1(3) w(3) g2(3) y(3) by (simp add: seg_append [of x a z] seg_append [of a b z]
        seg_append [of b c z] seg_append [of c e z])
  ultimately show ?thesis unfolding date_words_def by blast
qed

lemma birth_value_shape:
  assumes "m \<in> set (finditer (BIRTH_DATE_RE U) txt)"
    and "match_span U txt BIRTH_DATE m = Inr (Some (v, s, e))"
  shows "one_word U v \<or> date_words U v"
proof -
  obtain a b g where abg: "m = (a, b, g)" by (cases m)
  from assms(1) have a: "a \<le> length txt" "(b, g) \<in> set (matches (BIRTH_DATE_RE U) txt (a, None))"
    unfolding abg using finditer_sound by blast+
  from matches_bound [OF a(2)] a(1) have b: "b \<le> length txt" by simp
  from matches_starts [of "\<lambda>_. True", OF _ a(2)] have ab: "a < b"
    by (simp add: BIRTH_DATE_RE_def piece_defs)
  from assms(2) have v: "v = py_slice txt (int a) (int b)"
    by (auto simp: match_span_def abg GROUPED_TYPES_def)
  let ?w = "seqs [between 1 2 (digit U), plus1 (space U), plus1 (Cls (is_word U)), plus1 (space U),
      times_rx 4 (digit U)]"
  from a(2) have "(b, g) \<in> set (matches (alts [dmy_date U, ymd_date U, ?w]) txt (a, None))"
    unfolding BIRTH_DATE_RE_def seqs.simps(3) seqs.simps(2) no_digit_before_def no_digit_after_def
    by (auto split: if_splits simp del: alts.simps seqs.simps)
  then consider "(b, g) \<in> set (matches (Alt (dmy_date U) (ymd_date U)) txt (a, None))"
    | "(b, g) \<in> set (matches ?w txt (a, None))"
    unfolding matches_alts3 by blast
  then show ?thesis
  proof cases
    case 1
    have "chars_in (\<lambda>c. \<not> is_space U c) (Alt (dmy_date U) (ymd_date U))"
      using decimal_not_space
      by (auto simp: piece_defs lit_def is_space_def class_of_def ascii_class_def is_decimal_def)
    from matches_moves [OF this 1] have "\<forall>c \<in> set (seg txt (a, None) (b, g)). \<not> is_space U c"
      by (rule seg_chars)
    then show ?thesis
      using ab b seg_of_slice [of a b "txt" None g] by (auto simp: one_word_def v seg_def)
  next
    case 2
    from birth_words_shape [OF this] show ?thesis
      using ab b seg_of_slice [of a b "txt" None g] by (simp add: v)
  qed
qed

section \<open>Totality\<close>

lemma keep_value_total:
  assumes rule: "(t, r) \<in> set (RULES U)" and m: "m \<in> set (finditer r txt)"
    and sp: "match_span U txt t m = Inr (Some (v, s, e))"
  shows "\<exists>k. keep_value U today txt t v s e = Inr k"
proof -
  have "\<exists>ok. f v = Inr ok" if f: "map_of (VALIDATORS U today) t = Some f" for f
  proof -
    from f consider "t = BANK_CARD" "f = luhn U" | "t = INN" "f = inn_checksum U"
      | "t = BIRTH_DATE" "f = is_birth_date U today"
      by (auto simp: VALIDATORS_def split: if_splits)
    then show ?thesis
    proof cases
      case 1
      then show ?thesis using numeric_value_plain [OF rule m sp] luhn_total by simp
    next
      case 2
      then show ?thesis using numeric_value_plain [OF rule m sp] inn_total by simp
    next
      case 3
      have "r = BIRTH_DATE_RE U" using rule 3(1) by (auto simp: RULES_def)
      with birth_value_shape [of m U "txt" v s e] m sp 3(1) have "\<exists>p. parse_date U v = Inr p"
        using parse_date_total by blast
      then show ?thesis
        unfolding 3(2) by (auto simp: is_birth_date_def split: option.splits prod.splits)
    qed
  qed
  then obtain ok where "(case map_of (VALIDATORS U today) t of None \<Rightarrow> Inr True
      | Some validator \<Rightarrow> validator v) = Inr ok"
    by (cases "map_of (VALIDATORS U today) t") auto
  then show ?thesis unfolding keep_value_def by simp
qed

lemma detect_match_total:
  assumes "(t, r) \<in> set (RULES U)" and "m \<in> set (finditer r txt)"
  shows "\<exists>x. detect_match U today txt t m = Inr x"
proof -
  from match_span_valid [OF assms] obtain sp where sp: "match_span U txt t m = Inr sp" by blast
  show ?thesis
  proof (cases sp)
    case (Some x)
    obtain v s e where x: "x = (v, s, e)" by (cases x)
    with sp Some have "match_span U txt t m = Inr (Some (v, s, e))" by simp
    from keep_value_total [OF assms this, of today] this show ?thesis
      by (auto simp: detect_match_def)
  qed (simp add: detect_match_def sp)
qed

lemma efold_total:
  "(\<And>s x. x \<in> set xs \<Longrightarrow> \<exists>s'. f s x = Inr s') \<Longrightarrow> \<exists>s'. efold f s xs = Inr s'"
proof (induction xs arbitrary: s)
  case (Cons x xs)
  then obtain s' where "f s x = Inr s'" by fastforce
  with Cons show ?case by auto
qed simp

lemma regex_detect_returns: "\<exists>es. regex_detect U today txt = Inr es"
  unfolding regex_detect_def
proof (rule efold_total)
  fix es rule
  assume r: "rule \<in> set (RULES U)"
  obtain t pattern where rule: "rule = (t, pattern)" by (cases rule)
  have "\<exists>x. detect_match U today txt t m = Inr x" if "m \<in> set (finditer pattern txt)" for m
    using detect_match_total r that unfolding rule by blast
  then show "\<exists>s'. detect_rule U today txt es rule = Inr s'"
    unfolding detect_rule_def rule prod.case by (intro efold_total) fastforce
qed

lemma keep_value_True:
  "keep_value U today txt t v s e = Inr True \<longleftrightarrow>
   (case map_of (VALIDATORS U today) t of None \<Rightarrow> Inr True | Some f \<Rightarrow> f v) = Inr True
   \<and> \<not> (t = PERSON_NAME \<and> str_lower U v \<in> set COUNTRY_NAMES)
   \<and> \<not> (t = CITIZENSHIP \<and> str_lower U v \<notin> set COUNTRY_NAMES)
   \<and> \<not> (t = ADDRESS \<and> \<not> is_full_address U v)
   \<and> \<not> (t \<in> set ADDRESS_COMPONENT_TYPES \<and> is_bank_context U txt s)
   \<and> (case map_of MARKER_TYPES t of None \<Rightarrow> True | Some ms \<Rightarrow> has_marker U txt s e ms)"
  unfolding keep_value_def ebind_eq_Inr by (auto split: if_splits)

lemma detected_filters:
  assumes "detected_ok U today txt e"
  shows "valid_span txt e \<and> e_confidence e = 1
     \<and> (e_type e = BANK_CARD \<longrightarrow> luhn U (e_value e) = Inr True)
     \<and> (e_type e = INN \<longrightarrow> inn_checksum U (e_value e) = Inr True)
     \<and> (e_type e = BIRTH_DATE \<longrightarrow> is_birth_date U today (e_value e) = Inr True)
     \<and> (\<forall>ms. map_of MARKER_TYPES (e_type e) = Some ms \<longrightarrow> has_marker U txt (e_start e) (e_end e) ms)
     \<and> (e_type e = PERSON_NAME \<longrightarrow> str_lower U (e_value e) \<notin> set COUNTRY_NAMES)
     \<and> (e_type e = CITIZENSHIP \<longrightarrow> str_lower U (e_value e) \<in> set COUNTRY_NAMES)"
  using assms unfolding detected_ok_def keep_value_True VALIDATORS_def
  by (intro conjI allI impI) (simp_all split: if_splits)

section \<open>Coverage\<close>

lemma detect_rule_keeps:
  assumes "detect_rule U today txt es (t, r) = Inr es'"
  shows "set es \<subseteq> set es' \<and>
    (\<forall>m \<in> set (finditer r txt). \<forall>e. detect_match U today txt t m = Inr (Some e) \<longrightarrow> e \<in> set es')"
proof -
  let ?f = "\<lambda>es m. ebind (detect_match U today txt t m) (\<lambda>r.
                 Inr (case r of None \<Rightarrow> es | Some e \<Rightarrow> es @ [e]))"
  have "efold ?f es ms = Inr es' \<Longrightarrow> set es \<subseteq> set es' \<and>
      (\<forall>m \<in> set ms. \<forall>e. detect_match U today txt t m = Inr (Some e) \<longrightarrow> e \<in> set es')" for ms
  proof (induction ms arbitrary: es)
    case (Cons m ms)
    then obtain r where r: "detect_match U today txt t m = Inr r"
      and tl: "efold ?f (case r of None \<Rightarrow> es | Some e \<Rightarrow> es @ [e]) ms = Inr es'"
      by (auto simp: ebind_eq_Inr)
    from Cons.IH [OF tl] r show ?case by (auto split: option.splits)
  qed simp
  with assms show ?thesis by (simp add: detect_rule_def)
qed

lemma regex_detect_keeps:
  assumes "regex_detect U today txt = Inr es" and "(t, r) \<in> set (RULES U)"
    and "m \<in> set (finditer r txt)" and "detect_match U today txt t m = Inr (Some e)"
  shows "e \<in> set es"
proof -
  have "efold (detect_rule U today txt) xs rules = Inr es \<Longrightarrow>
      set xs \<subseteq> set es \<and> ((t, r) \<in> set rules \<longrightarrow> e \<in> set es)" for xs rules
  proof (induction rules arbitrary: xs)
    case (Cons rule rules)
    then obtain ys where ys: "detect_rule U today txt xs rule = Inr ys"
      "efold (detect_rule U today txt) ys rules = Inr es"
      by (auto simp: ebind_eq_Inr)
    obtain t' r' where rule: "rule = (t', r')" by (cases rule)
    from detect_rule_keeps [OF ys(1) [unfolded rule]] Cons.IH [OF ys(2)] assms(3,4)
    show ?case by (auto simp: rule)
  qed simp
  with assms show ?thesis by (auto simp: regex_detect_def)
qed

text \<open>Types whose rule has no further filter\<close>

lemma detect_match_direct:
  assumes "t \<in> {EMAIL, PASSPORT_DIVISION_CODE}"
  shows "detect_match U today txt t (a, b, g)
    = Inr (Some (PIIEntity t (py_slice txt (int a) (int b)) (int a) (int b) 1 (lit ''regex'')))"
  using assms
  by (auto simp: detect_match_def match_span_def keep_value_def GROUPED_TYPES_def VALIDATORS_def
      ADDRESS_COMPONENT_TYPES_def MARKER_TYPES_def)

lemma regex_detect_numeric:
  assumes "letters_no_digits U" and "regex_detect U today txt = Inr es" and "e \<in> set es"
  shows "maskable U e"
proof -
  from regex_detect_origin [OF assms(2,3)] obtain t r m where
    o: "(t, r) \<in> set (RULES U)" "m \<in> set (finditer r txt)" "detect_match U today txt t m = Inr (Some e)"
    by blast
  from o(3) obtain v s f where sp: "match_span U txt t m = Inr (Some (v, s, f))"
    and e: "e_type e = t" "e_value e = v"
    by (auto simp: detect_match_def ebind_eq_Inr split: option.splits if_splits)
  show ?thesis
    using numeric_value_plain [OF o(1,2) sp] assms(1)
    by (auto simp: maskable_def e NUMERIC_EDGE_TYPES_def)
qed

section \<open>Properties\<close>

text \<open>
  C3: On every text the detector returns, without an exception, and each of its entities has a
  non-empty span inside the text and the text of that span as value, confidence one, and has
  passed the filters of its type: card numbers the Luhn check, INNs the checksum, birth dates the
  date check, the marker types a marker in the window around the span, citizenships the list of
  countries, which person names must not be on.
\<close>

theorem regex_detect_sound:
  "\<exists>es. regex_detect U today txt = Inr es \<and> (\<forall>e \<in> set es.
     valid_span txt e \<and> e_confidence e = 1
     \<and> (e_type e = BANK_CARD \<longrightarrow> luhn U (e_value e) = Inr True)
     \<and> (e_type e = INN \<longrightarrow> inn_checksum U (e_value e) = Inr True)
     \<and> (e_type e = BIRTH_DATE \<longrightarrow> is_birth_date U today (e_value e) = Inr True)
     \<and> (\<forall>ms. map_of MARKER_TYPES (e_type e) = Some ms \<longrightarrow> has_marker U txt (e_start e) (e_end e) ms)
     \<and> (e_type e = PERSON_NAME \<longrightarrow> str_lower U (e_value e) \<notin> set COUNTRY_NAMES)
     \<and> (e_type e = CITIZENSHIP \<longrightarrow> str_lower U (e_value e) \<in> set COUNTRY_NAMES))"
proof -
  obtain es where es: "regex_detect U today txt = Inr es" using regex_detect_returns by blast
  then show ?thesis using detected_filters [OF regex_detect_ok [OF es]] by blast
qed

text \<open>
  C4: No e-mail address and no division code escapes: every position of the text at which the
  pattern of the type matches lies inside the span of an entity of that type.
\<close>

theorem regex_detect_covers:
  assumes "(t, r) \<in> set (RULES U)" and "t \<in> {EMAIL, PASSPORT_DIVISION_CODE}"
    and "match_at r txt k \<noteq> None" and "k \<le> length txt"
  shows "\<exists>es e. regex_detect U today txt = Inr es \<and> e \<in> set es \<and> e_type e = t
     \<and> e_start e \<le> int k \<and> int k < e_end e"
proof -
  obtain es where es: "regex_detect U today txt = Inr es" using regex_detect_returns by blast
  from finditer_from_complete [OF assms(3) _ assms(4), of 0] obtain a b g where
    m: "(a, b, g) \<in> set (finditer r txt)" "a \<le> k" "k < max b (Suc a)"
    by (auto simp: finditer_def)
  have "starts (\<lambda>_. True) r"
    using rules_fit [OF assms(1)] assms(2) by (auto simp: rule_fits_def GROUPED_TYPES_def)
  with finditer_sound [OF m(1)] matches_starts have "a < b" by fastforce
  with m have "k < b" by simp
  with es m regex_detect_keeps [OF es assms(1) m(1) detect_match_direct [OF assms(2)]]
  show ?thesis by fastforce
qed

section \<open>Examples\<close>

definition mail_text :: pystr where
  "mail_text = lit ''to: a.b@c.ru''"

lemma mail_match: "match_at (EMAIL_RE ucd_ru) mail_text 4 \<noteq> None"
  by (simp add: match_at_def EMAIL_RE_def one_of_def mail_text_def lit_def latin_letter_def
      ascii_digit_char_def numeral_nat)

theorem regex_detect_covers_witness:
  "\<exists>es e. regex_detect ucd_ru (2025, 1, 1) mail_text = Inr es \<and> e \<in> set es \<and> e_type e = EMAIL
     \<and> e_start e \<le> 4 \<and> 4 < e_end e"
proof -
  have "(EMAIL, EMAIL_RE ucd_ru) \<in> set (RULES ucd_ru)" by (simp add: RULES_def)
  from regex_detect_covers [OF this _ mail_match] show ?thesis by (simp add: mail_text_def lit_def)
qed

theorem regex_detect_sound_witness:
  "\<exists>es. regex_detect ucd_ru (2025, 1, 1) mail_text = Inr es \<and> (\<forall>e \<in> set es. valid_span mail_text e)"
  using regex_detect_sound [of ucd_ru "(2025, 1, 1)" mail_text] by blast

end
