(* ===== verification/Resolution.thy ===== *)
theory Resolution
  imports Domain "HOL-Library.Product_Lexorder"
begin

text \<open>
  \<open>app/detection/resolution.py\<close>: deduplication of candidate entities and the resolution of
  overlapping spans.  \<open>best\<close> is the code's dictionary (an association list, since Python
  dictionaries keep insertion order), \<open>resolved\<close> its result list.
\<close>

section \<open>Definitions\<close>

definition PRIORITIES :: "(pii_type \<times> int) list" where
  "PRIORITIES =
    [(BANK_CARD, 90), (INN, 90), (PASSPORT_NUMBER, 90), (PASSPORT_DIVISION_CODE, 90),
     (DRIVER_LICENSE, 90), (PHONE, 80), (EMAIL, 80), (ADDRESS, 70), (PERSON_NAME, 60),
     (CARDHOLDER_NAME, 60), (BIRTH_PLACE, 60), (CITIZENSHIP, 60), (COUNTRY, 60), (CITY, 60),
     (STREET, 60), (POSTAL_CODE, 60), (PASSPORT_ISSUER, 60), (PASSPORT_ISSUE_DATE, 60),
     (CVV, 30), (PIN, 30), (HOUSE, 30), (APARTMENT, 30)]"

definition DEFAULT_PRIORITY :: int where
  "DEFAULT_PRIORITY = 50"

definition priority :: "pii_type \<Rightarrow> int" where
  "priority t = (case map_of PRIORITIES t of None \<Rightarrow> DEFAULT_PRIORITY | Some p \<Rightarrow> p)"

definition overlaps :: "pii_entity \<Rightarrow> pii_entity \<Rightarrow> bool" where
  "overlaps a b = (e_start a < e_end b \<and> e_start b < e_end a)"

definition better :: "pii_entity \<Rightarrow> pii_entity \<Rightarrow> pii_entity" where
  "better a b =
     (let pa = priority (e_type a); pb = priority (e_type b) in
      if pa \<noteq> pb then (if pa > pb then a else b)
      else if e_confidence a \<noteq> e_confidence b
      then (if e_confidence a > e_confidence b then a else b)
      else let la = e_end a - e_start a; lb = e_end b - e_start b
           in if la \<ge> lb then a else b)"

type_synonym span_key = "pii_type \<times> int \<times> int"

definition span_key :: "pii_entity \<Rightarrow> span_key" where
  "span_key e = (e_type e, e_start e, e_end e)"

text \<open>One round of the first loop\<close>

definition dedupe_step ::
    "(span_key \<times> pii_entity) list \<Rightarrow> pii_entity \<Rightarrow> (span_key \<times> pii_entity) list" where
  "dedupe_step best e =
     (case map_of best (span_key e) of
        None \<Rightarrow> AList.update (span_key e) e best
      | Some current \<Rightarrow>
          if e_confidence e > e_confidence current then AList.update (span_key e) e best
          else best)"

text \<open>One round of the second loop: \<open>last\<close> is \<open>resolved[-1]\<close>\<close>

definition resolve_step :: "pii_entity list \<Rightarrow> pii_entity \<Rightarrow> pii_entity list" where
  "resolve_step resolved e =
     (if resolved \<noteq> [] \<and> overlaps (last resolved) e
      then butlast resolved @ [better (last resolved) e]
      else resolved @ [e])"

definition resolve_spans :: "pii_entity list \<Rightarrow> pii_entity list" where
  "resolve_spans entities =
     (let best = foldl dedupe_step [] entities;
          unique = sort_key (\<lambda>e. (e_start e, e_end e)) (map snd best)
      in foldl resolve_step [] unique)"

section \<open>The order behind \<open>better\<close>\<close>

definition rank :: "pii_entity \<Rightarrow> int \<times> rat \<times> int" where
  "rank e = (priority (e_type e), e_confidence e, e_end e - e_start e)"

lemma better_rank: "better a b = (if rank b \<le> rank a then a else b)"
  by (auto simp: better_def rank_def Let_def less_eq_prod_def less_prod_def)

lemma better_cases: "better a b = a \<or> better a b = b"
  by (simp add: better_rank)

lemma better_rank_left: "rank a \<le> rank (better a b)"
  by (auto simp: better_rank)

lemma better_rank_right: "rank b \<le> rank (better a b)"
  by (auto simp: better_rank)

section \<open>Deduplication\<close>

definition deduped :: "pii_entity list \<Rightarrow> (span_key \<times> pii_entity) list \<Rightarrow> bool" where
  "deduped es best \<longleftrightarrow> distinct (map fst best) \<and>
     (\<forall>(k, v) \<in> set best. k = span_key v \<and> v \<in> set es) \<and>
     (\<forall>e \<in> set es. \<exists>v. map_of best (span_key e) = Some v \<and> e_confidence e \<le> e_confidence v)"

lemma dedupe_step_cases:
  "dedupe_step best e = best \<and> (\<exists>c. map_of best (span_key e) = Some c \<and> e_confidence e \<le> e_confidence c)
   \<or> dedupe_step best e = AList.update (span_key e) e best
     \<and> (\<forall>c. map_of best (span_key e) = Some c \<longrightarrow> e_confidence c < e_confidence e)"
  by (auto simp: dedupe_step_def split: option.splits)

lemma set_update: "set (AList.update k v al) \<subseteq> insert (k, v) (set al)"
  by (induction al) (auto split: if_splits)

lemma deduped_step:
  assumes "deduped es best"
  shows "deduped (es @ [e]) (dedupe_step best e)"
proof (cases "dedupe_step best e = best \<and>
    (\<exists>c. map_of best (span_key e) = Some c \<and> e_confidence e \<le> e_confidence c)")
  case True
  with assms show ?thesis by (auto simp: deduped_def)
next
  case False
  then have upd: "dedupe_step best e = AList.update (span_key e) e best"
    and lower: "\<And>c. map_of best (span_key e) = Some c \<Longrightarrow> e_confidence c < e_confidence e"
    using dedupe_step_cases [of best e] by auto
  have "\<exists>v. map_of (AList.update (span_key e) e best) (span_key x) = Some v
           \<and> e_confidence x \<le> e_confidence v" if "x \<in> set (es @ [e])" for x
  proof (cases "span_key x = span_key e")
    case True
    then show ?thesis using that assms lower
      by (fastforce simp: map_of_update deduped_def)
  next
    case False
    then have "x \<in> set es" using that by auto
    with False assms show ?thesis by (auto simp: map_of_update deduped_def)
  qed
  moreover have "distinct (map fst (AList.update (span_key e) e best))"
    using assms by (simp add: deduped_def distinct_update)
  moreover have "\<forall>(k, v) \<in> set (AList.update (span_key e) e best).
      k = span_key v \<and> v \<in> set (es @ [e])"
    using assms set_update [of "span_key e" e best] by (fastforce simp: deduped_def)
  ultimately show ?thesis unfolding upd deduped_def by blast
qed

lemma deduped_foldl: "deduped es (foldl dedupe_step [] es)"
proof (induction es rule: rev_induct)
  case Nil
  then show ?case by (simp add: deduped_def)
next
  case (snoc e es)
  then show ?case by (simp add: deduped_step)
qed

section \<open>Resolution of overlaps\<close>

abbreviation nonempty_span :: "pii_entity \<Rightarrow> bool" where
  "nonempty_span e \<equiv> e_start e < e_end e"

abbreviation before :: "pii_entity \<Rightarrow> pii_entity \<Rightarrow> bool" where
  "before a b \<equiv> e_end a \<le> e_start b"

text \<open>Two entities of a list are linked when a chain of overlaps inside the list joins them.\<close>

definition overlap_in :: "pii_entity list \<Rightarrow> (pii_entity \<times> pii_entity) set" where
  "overlap_in es = {(a, b). a \<in> set es \<and> b \<in> set es \<and> overlaps a b}"

definition linked :: "pii_entity list \<Rightarrow> pii_entity \<Rightarrow> pii_entity \<Rightarrow> bool" where
  "linked es a b \<longleftrightarrow> (a, b) \<in> (overlap_in es)\<^sup>*"

lemma linked_mono: "linked es a b \<Longrightarrow> set es \<subseteq> set fs \<Longrightarrow> linked fs a b"
  unfolding linked_def by (rule rtrancl_mono [THEN subsetD, rotated]) (auto simp: overlap_in_def)

lemma linked_trans: "linked es a b \<Longrightarrow> linked es b c \<Longrightarrow> linked es a c"
  unfolding linked_def by (rule rtrancl_trans)

lemma overlaps_sym: "overlaps a b \<longleftrightarrow> overlaps b a"
  by (auto simp: overlaps_def)

definition resolved_for :: "pii_entity list \<Rightarrow> pii_entity list \<Rightarrow> bool" where
  "resolved_for us rs \<longleftrightarrow> sorted_wrt before rs \<and> set rs \<subseteq> set us \<and>
     (\<forall>e \<in> set us. \<exists>s \<in> set rs. rank e \<le> rank s \<and> linked us e s)"

lemma set_butlast_last: "xs \<noteq> [] \<Longrightarrow> set xs = insert (last xs) (set (butlast xs))"
  by (induction xs) auto

lemma sorted_wrt_butlast_last:
  "sorted_wrt P xs \<Longrightarrow> xs \<noteq> [] \<Longrightarrow> x \<in> set (butlast xs) \<Longrightarrow> P x (last xs)"
  by (metis append_butlast_last_id sorted_wrt_snoc)

lemma resolve_step_sorted:
  assumes rs: "sorted_wrt before rs" and ne: "nonempty_span x"
    and le: "\<forall>r \<in> set rs. e_start r \<le> e_start x"
  shows "sorted_wrt before (resolve_step rs x)"
proof (cases "rs = []")
  case True
  then show ?thesis by (simp add: resolve_step_def)
next
  case False
  let ?l = "last rs"
  have bl: "sorted_wrt before (butlast rs)"
    using rs False by (metis append_butlast_last_id sorted_wrt_append)
  have l: "e_start ?l \<le> e_start x" using le False by simp
  have b: "before y ?l" if "y \<in> set (butlast rs)" for y
    using sorted_wrt_butlast_last [OF rs False that] .
  show ?thesis
  proof (cases "overlaps ?l x")
    case True
    have "before y (better ?l x)" if "y \<in> set (butlast rs)" for y
      using b [OF that] l better_cases [of ?l x] by auto
    with bl True False show ?thesis by (simp add: resolve_step_def)
  next
    case ov: False
    then have "before ?l x" using l ne by (auto simp: overlaps_def)
    then have "before y x" if "y \<in> set rs" for y
      using that b l set_butlast_last [OF False] by fastforce
    with rs ov show ?thesis by (simp add: resolve_step_def)
  qed
qed

lemma resolve_step_cover:
  assumes cov: "\<forall>e \<in> set us. \<exists>s \<in> set rs. rank e \<le> rank s \<and> linked us e s"
    and sub: "set rs \<subseteq> set us" and e: "e \<in> set (us @ [x])"
  shows "\<exists>s \<in> set (resolve_step rs x). rank e \<le> rank s \<and> linked (us @ [x]) e s"
proof (cases "rs \<noteq> [] \<and> overlaps (last rs) x")
  case ov: True
  let ?l = "last rs" and ?m = "better (last rs) x"
  have m: "?m \<in> set (resolve_step rs x)" using ov by (simp add: resolve_step_def)
  have l_us: "?l \<in> set us" using ov sub by auto
  have "(?l, x) \<in> overlap_in (us @ [x])" "(x, ?l) \<in> overlap_in (us @ [x])"
    using ov l_us overlaps_sym [of x ?l] by (simp_all add: overlap_in_def)
  then have link: "linked (us @ [x]) ?l ?m" "linked (us @ [x]) x ?m"
    using better_cases [of ?l x] by (auto simp: linked_def)
  show ?thesis
  proof (cases "e = x")
    case True
    with m link better_rank_right show ?thesis by blast
  next
    case False
    with e cov obtain s where s: "s \<in> set rs" "rank e \<le> rank s" "linked us e s" by auto
    then have es: "linked (us @ [x]) e s" by (auto intro: linked_mono)
    show ?thesis
    proof (cases "s = ?l")
      case True
      with es link have "linked (us @ [x]) e ?m" by (auto intro: linked_trans)
      moreover have "rank e \<le> rank ?m"
        using True s(2) better_rank_left [of ?l x] by (auto intro: order_trans)
      ultimately show ?thesis using m by blast
    next
      case False
      with s ov set_butlast_last [of rs] have "s \<in> set (resolve_step rs x)"
        by (auto simp: resolve_step_def)
      with s es show ?thesis by blast
    qed
  qed
next
  case False
  then have st: "resolve_step rs x = rs @ [x]" by (auto simp: resolve_step_def)
  show ?thesis
  proof (cases "e = x")
    case True
    then show ?thesis by (simp add: st linked_def)
  next
    case False
    with e cov obtain s where "s \<in> set rs" "rank e \<le> rank s" "linked us e s" by auto
    moreover from this have "linked (us @ [x]) e s" by (auto intro: linked_mono)
    ultimately show ?thesis by (auto simp: st)
  qed
qed

lemma resolve_foldl:
  assumes "sorted (map e_start us)" and "\<forall>e \<in> set us. nonempty_span e"
  shows "resolved_for us (foldl resolve_step [] us)"
  using assms
proof (induction us rule: rev_induct)
  case Nil
  then show ?case by (simp add: resolved_for_def)
next
  case (snoc x us)
  let ?rs = "foldl resolve_step [] us"
  from snoc have IH: "resolved_for us ?rs" by (simp add: sorted_append)
  then have rs: "sorted_wrt before ?rs" "set ?rs \<subseteq> set us"
    and cov: "\<forall>e \<in> set us. \<exists>s \<in> set ?rs. rank e \<le> rank s \<and> linked us e s"
    by (auto simp: resolved_for_def)
  have "\<forall>r \<in> set ?rs. e_start r \<le> e_start x"
    using rs(2) snoc.prems(1) by (auto simp: sorted_append)
  then have "sorted_wrt before (resolve_step ?rs x)"
    using resolve_step_sorted rs(1) snoc.prems(2) by auto
  moreover have "set (resolve_step ?rs x) \<subseteq> set (us @ [x])"
    using rs(2) better_cases [of "last ?rs" x]
    by (auto simp: resolve_step_def dest: in_set_butlastD) (use last_in_set in blast)+
  moreover have "\<forall>e \<in> set (us @ [x]). \<exists>s \<in> set (resolve_step ?rs x).
      rank e \<le> rank s \<and> linked (us @ [x]) e s"
    using resolve_step_cover [OF cov rs(2)] by blast
  ultimately show ?case by (simp add: resolved_for_def)
qed

text \<open>The list the second loop runs over\<close>

definition unique_spans :: "pii_entity list \<Rightarrow> pii_entity list" where
  "unique_spans es =
     sort_key (\<lambda>e. (e_start e, e_end e)) (map snd (foldl dedupe_step [] es))"

lemma resolve_spans_unique: "resolve_spans es = foldl resolve_step [] (unique_spans es)"
  by (simp add: resolve_spans_def unique_spans_def Let_def)

lemma sorted_fst: "sorted (map (\<lambda>x. (f x, g x)) xs) \<Longrightarrow> sorted (map f xs)"
  for f :: "'a \<Rightarrow> 'b :: linorder" and g :: "'a \<Rightarrow> 'c :: linorder"
  by (induction xs) (auto simp: less_eq_prod_def)

lemma sorted_unique_spans: "sorted (map e_start (unique_spans es))"
  unfolding unique_spans_def by (rule sorted_fst [where g = e_end]) (rule sorted_sort_key)

lemma set_unique_spans: "set (unique_spans es) \<subseteq> set es"
  using deduped_foldl [of es] by (auto simp: unique_spans_def deduped_def)

lemma unique_spans_cover:
  assumes "e \<in> set es"
  shows "\<exists>v \<in> set (unique_spans es). span_key v = span_key e \<and> e_confidence e \<le> e_confidence v"
proof -
  let ?b = "foldl dedupe_step [] es"
  from deduped_foldl [of es] assms obtain v where
    v: "map_of ?b (span_key e) = Some v" "e_confidence e \<le> e_confidence v"
    by (auto simp: deduped_def)
  then have b: "(span_key e, v) \<in> set ?b" by (simp add: map_of_SomeD)
  with deduped_foldl [of es] have "span_key v = span_key e" by (auto simp: deduped_def)
  moreover have "v \<in> set (unique_spans es)" using b by (force simp: unique_spans_def)
  ultimately show ?thesis using v(2) by blast
qed

lemma resolve_spans_resolved:
  "\<forall>e \<in> set es. nonempty_span e \<Longrightarrow> resolved_for (unique_spans es) (resolve_spans es)"
  unfolding resolve_spans_unique
  using set_unique_spans by (intro resolve_foldl sorted_unique_spans) blast

lemma resolve_spans_subset: "set (resolve_spans es) \<subseteq> set es"
proof -
  have "set (foldl resolve_step [] us) \<subseteq> set us" for us
  proof (induction us rule: rev_induct)
    case (snoc x us)
    let ?rs = "foldl resolve_step [] us"
    have "set (resolve_step ?rs x) \<subseteq> insert x (set ?rs)"
      using better_cases [of "last ?rs" x]
      by (auto simp: resolve_step_def dest: in_set_butlastD)
    with snoc show ?case by auto
  qed simp
  then show ?thesis unfolding resolve_spans_unique using set_unique_spans by blast
qed

lemma rank_span_key:
  "span_key v = span_key e \<Longrightarrow> e_confidence e \<le> e_confidence v \<Longrightarrow> rank e \<le> rank v"
  by (auto simp: rank_def span_key_def less_eq_prod_def)

section \<open>Properties of the resolved list\<close>

lemma resolve_spans_cover:
  assumes "\<forall>e \<in> set es. nonempty_span e" and "e \<in> set es"
  shows "\<exists>s \<in> set (resolve_spans es). rank e \<le> rank s \<and>
           (\<exists>v. span_key v = span_key e \<and> linked es v s)"
proof -
  from unique_spans_cover [OF assms(2)] obtain v where
    v: "v \<in> set (unique_spans es)" "span_key v = span_key e" "e_confidence e \<le> e_confidence v"
    by blast
  with resolve_spans_resolved [OF assms(1)] obtain s where
    "s \<in> set (resolve_spans es)" "rank v \<le> rank s" "linked (unique_spans es) v s"
    by (auto simp: resolved_for_def)
  moreover from this have "linked es v s" using set_unique_spans by (auto intro: linked_mono)
  ultimately show ?thesis using v rank_span_key [OF v(2,3)] by (meson order_trans)
qed

lemma linked_isolated:
  assumes "linked es v s" and "\<forall>x \<in> set es. overlaps v x \<longrightarrow> span_key x = k"
    and "span_key v = k"
  shows "span_key s = k"
  using assms unfolding linked_def
proof (induction rule: rtrancl_induct)
  case base
  then show ?case by simp
next
  case (step y z)
  then have "span_key y = k" by simp
  then have "overlaps v z"
    using step(2,5) by (auto simp: overlap_in_def overlaps_def span_key_def)
  with step(2,4) show ?case by (auto simp: overlap_in_def)
qed

text \<open>A list that is already resolved passes through unchanged.\<close>

lemma update_new: "k \<notin> fst ` set al \<Longrightarrow> AList.update k v al = al @ [(k, v)]"
  by (induction al) auto

lemma dedupe_distinct:
  "distinct (map span_key es) \<Longrightarrow> foldl dedupe_step [] es = map (\<lambda>e. (span_key e, e)) es"
proof (induction es rule: rev_induct)
  case Nil
  then show ?case by simp
next
  case (snoc e es)
  let ?al = "map (\<lambda>e. (span_key e, e)) es"
  have new: "span_key e \<notin> fst ` set ?al" using snoc.prems by (auto simp: image_image)
  then have "map_of ?al (span_key e) = None" by (simp only: map_of_eq_None_iff) simp
  then have "dedupe_step ?al e = ?al @ [(span_key e, e)]"
    using update_new [OF new] by (simp add: dedupe_step_def)
  with snoc show ?case by simp
qed

lemma resolve_disjoint: "sorted_wrt before es \<Longrightarrow> foldl resolve_step [] es = es"
proof (induction es rule: rev_induct)
  case (snoc e es)
  then have IH: "foldl resolve_step [] es = es" and b: "\<forall>y \<in> set es. before y e" by auto
  then have "es = [] \<or> \<not> overlaps (last es) e" by (auto simp: overlaps_def) (metis last_in_set not_le)
  then have "resolve_step es e = es @ [e]" by (auto simp: resolve_step_def)
  with IH show ?case by simp
qed simp

lemma before_sorted:
  assumes "sorted_wrt before es" and "\<forall>e \<in> set es. nonempty_span e"
  shows "sorted (map (\<lambda>e. (e_start e, e_end e)) es) \<and> distinct (map span_key es)"
  using assms
proof (induction es)
  case (Cons e es)
  have le: "(e_start e, e_end e) \<le> (e_start y, e_end y)" if "y \<in> set es" for y
    using Cons.prems that by (fastforce simp: less_eq_prod_def)
  have "e_start e < e_start y" if "y \<in> set es" for y
    using Cons.prems that by fastforce
  then have "span_key e \<notin> span_key ` set es" by (fastforce simp: span_key_def)
  with le Cons show ?case by simp
qed simp

lemma resolve_spans_fixed:
  assumes "sorted_wrt before es" and "\<forall>e \<in> set es. nonempty_span e"
  shows "resolve_spans es = es"
proof -
  from before_sorted [OF assms] have "unique_spans es = es"
    by (simp add: unique_spans_def dedupe_distinct o_def sort_key_id_if_sorted)
  with assms show ?thesis by (simp add: resolve_spans_unique resolve_disjoint)
qed

text \<open>
  C1: The result of \<open>resolve_spans\<close> consists of input entities, sorted by start, and no two of
  them overlap: each one ends before the next one starts.
\<close>

theorem resolve_spans_nonoverlapping:
  assumes "\<forall>e \<in> set es. nonempty_span e"
  shows "sorted_wrt before (resolve_spans es) \<and> set (resolve_spans es) \<subseteq> set es"
  using resolve_spans_resolved [OF assms] resolve_spans_subset
  by (simp add: resolved_for_def)


text \<open>
  A candidate that overlaps no candidate other than its own duplicates (same type and span)
  survives: the result holds an entity of the same type and span with at least its confidence.
\<close>

theorem resolve_spans_keeps_isolated:
  assumes "\<forall>e \<in> set es. nonempty_span e" and "e \<in> set es"
    and "\<forall>x \<in> set es. overlaps e x \<longrightarrow> span_key x = span_key e"
  shows "\<exists>s \<in> set (resolve_spans es). span_key s = span_key e \<and> e_confidence e \<le> e_confidence s"
proof -
  from resolve_spans_cover [OF assms(1,2)] obtain s v where
    s: "s \<in> set (resolve_spans es)" "rank e \<le> rank s" and
    v: "span_key v = span_key e" "linked es v s" by blast
  from v(1) assms(3) have "\<forall>x \<in> set es. overlaps v x \<longrightarrow> span_key x = span_key e"
    by (auto simp: overlaps_def span_key_def)
  from linked_isolated [OF v(2) this v(1)] have "span_key s = span_key e" .
  with s show ?thesis by (fastforce simp: rank_def span_key_def less_eq_prod_def)
qed

text \<open>Resolution is idempotent: resolving a resolved list changes nothing.\<close>

theorem resolve_spans_idempotent:
  assumes "\<forall>e \<in> set es. nonempty_span e"
  shows "resolve_spans (resolve_spans es) = resolve_spans es"
  using resolve_spans_resolved [OF assms] resolve_spans_subset [of es] assms
  by (intro resolve_spans_fixed) (auto simp: resolved_for_def)

section \<open>Examples\<close>

definition ent :: "pii_type \<Rightarrow> int \<Rightarrow> int \<Rightarrow> pii_entity" where
  "ent t a b = PIIEntity t (replicate (nat (b - a)) 120) a b 1 (lit ''regex'')"

lemmas resolution_eval =
  resolve_spans_def ent_def dedupe_step_def resolve_step_def better_def overlaps_def span_key_def
  priority_def PRIORITIES_def DEFAULT_PRIORITY_def insort_key_def Let_def

lemma resolve_example:
  "resolve_spans [ent PHONE 20 31, ent PIN 23 27, ent EMAIL 0 6, ent EMAIL 0 6]
     = [ent EMAIL 0 6, ent PHONE 20 31]"
  by (simp add: resolution_eval)

theorem resolve_spans_nonoverlapping_witness:
  "sorted_wrt before (resolve_spans [ent PHONE 20 31, ent PIN 23 27, ent EMAIL 0 6])"
  using resolve_spans_nonoverlapping [of "[ent PHONE 20 31, ent PIN 23 27, ent EMAIL 0 6]"]
  by (simp add: ent_def)


theorem resolve_spans_keeps_isolated_witness:
  "\<exists>s \<in> set (resolve_spans [ent PHONE 20 31, ent PIN 23 27, ent EMAIL 0 6]).
     span_key s = (EMAIL, 0, 6) \<and> 1 \<le> e_confidence s"
proof -
  let ?es = "[ent PHONE 20 31, ent PIN 23 27, ent EMAIL 0 6]" and ?e = "ent EMAIL 0 6"
  have ne: "\<forall>e \<in> set ?es. nonempty_span e" by (simp add: ent_def)
  have iso: "\<forall>x \<in> set ?es. overlaps ?e x \<longrightarrow> span_key x = span_key ?e"
    by (simp add: ent_def overlaps_def)
  have "?e \<in> set ?es" "span_key ?e = (EMAIL, 0, 6)" "e_confidence ?e = 1"
    by (simp_all add: ent_def span_key_def)
  with resolve_spans_keeps_isolated [OF ne _ iso] show ?thesis by simp
qed

theorem resolve_spans_idempotent_witness:
  "resolve_spans (resolve_spans [ent PHONE 20 31, ent PIN 23 27])
     = resolve_spans [ent PHONE 20 31, ent PIN 23 27]"
  using resolve_spans_idempotent [of "[ent PHONE 20 31, ent PIN 23 27]"]
  by (simp add: ent_def)

text \<open>
  Resolution can discard an entity that overlaps no surviving entity: the city 0..10 is
  displaced by the address 5..15, which the phone 12..20 displaces in turn, so the characters
  0..12 are covered by no entity of the result although both candidates there were valid.
\<close>

theorem resolve_spans_cascade:
  "resolve_spans [ent CITY 0 10, ent ADDRESS 5 15, ent PHONE 12 20] = [ent PHONE 12 20]
   \<and> \<not> overlaps (ent CITY 0 10) (ent PHONE 12 20)"
  by (simp add: resolution_eval)

end
