(* ===== verification/MaskingEngine.thy ===== *)
theory MaskingEngine
  imports Strategies Resolution
begin

text \<open>
  \<open>app/masking/engine.py\<close>: selection of the spans to mask, context rules, and the
  left-to-right assembly of the masked text.  \<open>clk i\<close> is the \<open>i\<close>-th reading of
  \<open>time.perf_counter\<close> in a call and \<open>rnd k\<close> its \<open>k\<close>-th random draw; log output is not modelled.
\<close>

section \<open>Definitions\<close>

record masking_result =
  mr_masked_text :: pystr
  mr_entities :: "pii_entity list"
  mr_mappings :: "(pystr \<times> pystr) list"
  mr_processing_time :: rat

subsection \<open>Span selection\<close>

text \<open>The two guards of the first loop of \<open>_select_spans\<close>\<close>

definition span_ok :: "pystr \<Rightarrow> pii_entity \<Rightarrow> bool" where
  "span_ok text e =
     (if e_start e < 0 \<or> e_end e > int (length text) \<or> e_start e \<ge> e_end e then False
      else if py_slice text (e_start e) (e_end e) \<noteq> e_value e then False
      else True)"

definition select_step :: "pii_entity list \<Rightarrow> pii_entity \<Rightarrow> pii_entity list" where
  "select_step selected e =
     (if selected \<noteq> [] \<and> e_start e < e_end (last selected) then selected
      else selected @ [e])"

definition select_spans :: "pystr \<Rightarrow> pii_entity list \<Rightarrow> pii_entity list" where
  "select_spans text entities =
     (let valid = filter (span_ok text) entities;
          sorted_valid = sort_key (\<lambda>e. (e_start e, - (e_end e - e_start e))) valid
      in foldl select_step [] sorted_valid)"

subsection \<open>Context rules\<close>

type_synonym rules = "(pii_type \<times> pii_type list) list"

definition CONTEXT_REQUIRES :: rules where
  "CONTEXT_REQUIRES = []"

definition parse_rule_type :: "(pyval \<times> pyval) list \<Rightarrow> pii_type option" where
  "parse_rule_type rule = (case dict_get rule ''type'' VNone of VStr s \<Rightarrow> PIIType s | _ \<Rightarrow> None)"

text \<open>\<open>PIIType(v)\<close> of an arbitrary value: only a string can be a member's value\<close>

fun pii_type_of_val :: "pyval \<Rightarrow> pii_type option" where
  "pii_type_of_val (VStr s) = PIIType s"
| "pii_type_of_val _ = None"

fun required_loop :: "pii_type list \<Rightarrow> pyval list \<Rightarrow> pii_type list option" where
  "required_loop required [] = Some required"
| "required_loop required (r # rs) =
     (case pii_type_of_val r of None \<Rightarrow> None | Some t \<Rightarrow> required_loop (List.insert t required) rs)"

definition parse_required_types :: "pyval \<Rightarrow> pii_type list option" where
  "parse_required_types raw =
     (case raw of VList rs \<Rightarrow> (if rs = [] then None else required_loop [] rs) | _ \<Rightarrow> None)"

definition rule_step :: "rules \<Rightarrow> pyval \<Rightarrow> exn + rules" where
  "rule_step rules v =
     ebind (as_dict v) (\<lambda>rule.
       case parse_rule_type rule of
         None \<Rightarrow> Inr rules
       | Some t \<Rightarrow>
           if dict_get rule ''enabled'' (VBool True) = VBool False
           then Inr (AList.update t [] rules)
           else (case parse_required_types (dict_get rule ''requires'' VNone) of
                   None \<Rightarrow> Inr rules
                 | Some required \<Rightarrow> Inr (AList.update t required rules)))"

definition resolve_context_rules :: "pyval \<Rightarrow> exn + rules" where
  "resolve_context_rules context_rules =
     (if \<not> truthy context_rules then Inr CONTEXT_REQUIRES
      else ebind (py_iter context_rules) (\<lambda>vs.
             ebind (efold rule_step [] vs) (\<lambda>rules.
               if rules = [] then Inr CONTEXT_REQUIRES else Inr rules)))"

definition context_allows :: "pii_type \<Rightarrow> pii_type list \<Rightarrow> rules \<Rightarrow> bool" where
  "context_allows t present_types rules =
     (case map_of rules t of
        None \<Rightarrow> True
      | Some required \<Rightarrow>
          if required = [] then True else list_ex (\<lambda>r. r \<in> set present_types) required)"

subsection \<open>Assembly\<close>

type_synonym strategy_map = "(pii_type \<times> masking_strategy) list"

definition strategy_for :: "strategy_map \<Rightarrow> pii_type \<Rightarrow> masking_strategy" where
  "strategy_for sbt t = (case map_of sbt t of None \<Rightarrow> FULL_MASK | Some m \<Rightarrow> m)"

text \<open>The variables of the assembly loop\<close>

record assembly =
  as_pieces :: "pystr list"
  as_mappings :: "(pystr \<times> pystr) list"
  as_cursor :: int

definition assembly_init :: assembly where
  "assembly_init = \<lparr>as_pieces = [], as_mappings = [], as_cursor = 0\<rparr>"

text \<open>
  One round of the loop of \<open>mask\<close>, with the call of the strategy as the parameter \<open>replace\<close>
  (applied to the number of replacements made so far, which numbers the random draws).
\<close>

definition assemble_step ::
    "(nat \<Rightarrow> pii_entity \<Rightarrow> exn + pystr) \<Rightarrow> pystr \<Rightarrow> (pii_type \<Rightarrow> bool) \<Rightarrow>
     assembly \<Rightarrow> pii_entity \<Rightarrow> exn + assembly" where
  "assemble_step replace text allowed s e =
     (if \<not> allowed (e_type e) then Inr s
      else ebind (replace (length (as_mappings s)) e) (\<lambda>replacement.
        Inr \<lparr>as_pieces = as_pieces s @ [py_slice text (as_cursor s) (e_start e), replacement],
             as_mappings = as_mappings s @ [(replacement, e_value e)],
             as_cursor = e_end e\<rparr>))"

definition mask ::
    "ucd \<Rightarrow> (nat \<Rightarrow> nat) \<Rightarrow> (nat \<Rightarrow> rat) \<Rightarrow> pystr \<Rightarrow> pii_entity list \<Rightarrow> strategy_map \<Rightarrow> pyval \<Rightarrow>
     exn + masking_result" where
  "mask U rnd clk text entities sbt context_rules =
     (let valid = select_spans text entities in
      ebind (resolve_context_rules context_rules) (\<lambda>rules.
        let present_types = map e_type valid;
            ordered = sort_key e_start valid in
        ebind (efold (assemble_step
                        (\<lambda>k e. strategy_mask U (rnd k) (strategy_for sbt (e_type e)) e)
                        text (\<lambda>t. context_allows t present_types rules))
                 assembly_init ordered) (\<lambda>s.
          Inr \<lparr>mr_masked_text = concat (as_pieces s @ [py_from text (as_cursor s)]),
               mr_entities = valid,
               mr_mappings = as_mappings s,
               mr_processing_time = clk 1 - clk 0\<rparr>)))"

section \<open>Selected spans\<close>

lemma span_ok_valid: "span_ok text e \<longleftrightarrow> valid_span text e"
  by (auto simp: span_ok_def valid_span_def)

abbreviation follows :: "pii_entity \<Rightarrow> pii_entity \<Rightarrow> bool" where
  "follows a b \<equiv> e_end a \<le> e_start b"

definition sorted_valid :: "pystr \<Rightarrow> pii_entity list \<Rightarrow> pii_entity list" where
  "sorted_valid text es =
     sort_key (\<lambda>e. (e_start e, - (e_end e - e_start e))) (filter (span_ok text) es)"

lemma select_spans_alt: "select_spans text es = foldl select_step [] (sorted_valid text es)"
  by (simp add: select_spans_def sorted_valid_def Let_def)

lemma set_sorted_valid: "set (sorted_valid text es) = {e \<in> set es. valid_span text e}"
  by (auto simp: sorted_valid_def span_ok_valid)

lemma sorted_sorted_valid: "sorted (map e_start (sorted_valid text es))"
proof -
  have "sorted (map f xs)" if "sorted (map (\<lambda>x. (f x, g x)) xs)"
    for f g :: "pii_entity \<Rightarrow> int" and xs
    using that by (induction xs) (auto simp: less_eq_prod_def)
  from this [of e_start "\<lambda>e. - (e_end e - e_start e)"] show ?thesis
    unfolding sorted_valid_def using sorted_sort_key by blast
qed

text \<open>
  What the second loop keeps: the selected spans follow one another, and every span seen so far
  is selected or starts inside a selected span that starts no later.
\<close>

definition selected_for :: "pii_entity list \<Rightarrow> pii_entity list \<Rightarrow> bool" where
  "selected_for seen sel \<longleftrightarrow> sorted_wrt follows sel \<and> set sel \<subseteq> set seen \<and>
     (\<forall>e \<in> set seen. e \<in> set sel \<or>
        (\<exists>s \<in> set sel. e_start s \<le> e_start e \<and> e_start e < e_end s))"

lemma selected_step:
  assumes "selected_for seen sel" and "\<forall>s \<in> set seen. e_start s \<le> e_start e \<and> e_start s < e_end s"
  shows "selected_for (seen @ [e]) (select_step sel e)"
proof (cases "sel \<noteq> [] \<and> e_start e < e_end (last sel)")
  case True
  then have l: "last sel \<in> set sel" by simp
  with assms have "e_start (last sel) \<le> e_start e" by (auto simp: selected_for_def)
  with l True have "\<exists>s \<in> set sel. e_start s \<le> e_start e \<and> e_start e < e_end s" by blast
  moreover have "select_step sel e = sel" using True by (simp add: select_step_def)
  ultimately show ?thesis using assms(1) unfolding selected_for_def by auto
next
  case False
  have "follows s e" if s: "s \<in> set sel" for s
  proof (cases "s = last sel")
    case True
    with False s show ?thesis by auto
  next
    case neq: False
    from s have ne: "sel \<noteq> []" by auto
    with s neq have "s \<in> set (butlast sel)"
      by (metis append_butlast_last_id in_set_conv_decomp rotate1.simps(2) set_ConsD set_rotate1)
    moreover have "sorted_wrt follows (butlast sel @ [last sel])"
      using assms(1) ne by (simp add: selected_for_def)
    ultimately have "follows s (last sel)" by (simp del: append_butlast_last_id)
    moreover have "last sel \<in> set seen" using assms(1) ne by (auto simp: selected_for_def)
    ultimately show ?thesis using assms(2) by force
  qed
  moreover from False have "select_step sel e = sel @ [e]" by (auto simp: select_step_def)
  ultimately show ?thesis using assms(1) by (auto simp: selected_for_def)
qed

lemma selected_foldl:
  assumes "sorted (map e_start es)" and "\<forall>e \<in> set es. e_start e < e_end e"
  shows "selected_for es (foldl select_step [] es)"
  using assms
proof (induction es rule: rev_induct)
  case Nil
  then show ?case by (simp add: selected_for_def)
next
  case (snoc e es)
  then show ?case by (auto simp: sorted_append intro!: selected_step)
qed

lemma select_spans_selected: "selected_for (sorted_valid text es) (select_spans text es)"
  unfolding select_spans_alt using sorted_sorted_valid set_sorted_valid
  by (intro selected_foldl) (auto simp: valid_span_def)

lemma select_spans_follows: "sorted_wrt follows (select_spans text es)"
  using select_spans_selected by (simp add: selected_for_def)

lemma select_spans_valid:
  assumes "e \<in> set (select_spans text es)"
  shows "e \<in> set es \<and> valid_span text e"
  using assms select_spans_selected [of "text" es] set_sorted_valid [of "text" es]
  unfolding selected_for_def by blast

lemma sorted_of_follows:
  "sorted_wrt follows es \<Longrightarrow> \<forall>e \<in> set es. e_start e < e_end e \<Longrightarrow> sorted (map e_start es)"
proof (induction es)
  case (Cons e es)
  then have "e_start e \<le> e_start y" if "y \<in> set es" for y
    using that by fastforce
  with Cons show ?case by simp
qed simp

lemma ordered_id: "sort_key e_start (select_spans text es) = select_spans text es"
proof (rule sort_key_id_if_sorted, rule sorted_of_follows)
  show "\<forall>e \<in> set (select_spans text es). e_start e < e_end e"
    using select_spans_valid by (auto simp: valid_span_def)
qed (rule select_spans_follows)

section \<open>Assembly\<close>

text \<open>
  The specification of the loop: the text from position \<open>cur\<close> on, with the span of each entity
  replaced by the text paired with it.
\<close>

fun splice :: "pystr \<Rightarrow> int \<Rightarrow> (pii_entity \<times> pystr) list \<Rightarrow> pystr" where
  "splice text cur [] = py_from text cur"
| "splice text cur ((e, r) # ers) =
     py_slice text cur (e_start e) @ r @ splice text (e_end e) ers"

definition assembled ::
    "(nat \<Rightarrow> pii_entity \<Rightarrow> exn + pystr) \<Rightarrow> pystr \<Rightarrow> assembly \<Rightarrow> pii_entity list \<Rightarrow> pystr list \<Rightarrow>
     assembly \<Rightarrow> bool" where
  "assembled replace text s es reps t \<longleftrightarrow>
     length reps = length es \<and>
     (\<forall>i < length es. replace (length (as_mappings s) + i) (es ! i) = Inr (reps ! i)) \<and>
     as_mappings t = as_mappings s @ zip reps (map e_value es) \<and>
     concat (as_pieces t) @ py_from text (as_cursor t)
       = concat (as_pieces s) @ splice text (as_cursor s) (zip es reps)"

lemma assemble_splice:
  "efold (assemble_step replace text allowed) s es = Inr t \<Longrightarrow>
   \<exists>reps. assembled replace text s (filter (\<lambda>e. allowed (e_type e)) es) reps t"
proof (induction es arbitrary: s)
  case Nil
  then show ?case by (simp add: assembled_def)
next
  case (Cons e es)
  show ?case
  proof (cases "allowed (e_type e)")
    case False
    with Cons show ?thesis by (simp add: assemble_step_def)
  next
    case True
    let ?es = "filter (\<lambda>e. allowed (e_type e)) es"
    from Cons.prems obtain s' where st: "assemble_step replace text allowed s e = Inr s'"
      and tl: "efold (assemble_step replace text allowed) s' es = Inr t"
      by (auto simp: ebind_eq_Inr)
    from st True obtain r where r: "replace (length (as_mappings s)) e = Inr r"
      and s': "s' = \<lparr>as_pieces = as_pieces s @ [py_slice text (as_cursor s) (e_start e), r],
                     as_mappings = as_mappings s @ [(r, e_value e)], as_cursor = e_end e\<rparr>"
      by (auto simp: assemble_step_def ebind_eq_Inr)
    from Cons.IH [OF tl] obtain reps where "assembled replace text s' ?es reps t" by blast
    with r s' have "assembled replace text s (e # ?es) (r # reps) t"
      unfolding assembled_def by (auto simp: nth_Cons split: nat.splits)
    with True show ?thesis by auto
  qed
qed

text \<open>When every call of the strategy returns, so does the loop.\<close>

lemma assemble_total:
  "\<forall>e \<in> set es. \<forall>k. \<exists>r. replace k e = Inr r \<Longrightarrow>
   \<exists>t. efold (assemble_step replace text allowed) s es = Inr t"
proof (induction es arbitrary: s)
  case (Cons e es)
  then obtain r where "replace (length (as_mappings s)) e = Inr r" by fastforce
  with Cons show ?case by (auto simp: assemble_step_def)
qed simp

lemma resolve_no_rules [simp]: "resolve_context_rules VNone = Inr []"
  by (simp add: resolve_context_rules_def CONTEXT_REQUIRES_def)

lemma allows_no_rules [simp]: "context_allows t ts [] = True"
  by (simp add: context_allows_def)

text \<open>The entities that the rules let through, in the order of the text\<close>

definition masked_entities :: "pystr \<Rightarrow> pii_entity list \<Rightarrow> rules \<Rightarrow> pii_entity list" where
  "masked_entities text es rules =
     (let valid = select_spans text es
      in filter (\<lambda>e. context_allows (e_type e) (map e_type valid) rules) valid)"

lemma masked_entities_no_rules [simp]: "masked_entities text es [] = select_spans text es"
  by (simp add: masked_entities_def)

lemma mask_returns:
  assumes "mask U rnd clk text es sbt cr = Inr r" and "resolve_context_rules cr = Inr rules"
  shows "\<exists>reps. length reps = length (masked_entities text es rules)
     \<and> (\<forall>i < length reps.
           strategy_mask U (rnd i) (strategy_for sbt (e_type (masked_entities text es rules ! i)))
             (masked_entities text es rules ! i) = Inr (reps ! i))
     \<and> mr_masked_text r = splice text 0 (zip (masked_entities text es rules) reps)
     \<and> mr_mappings r = zip reps (map e_value (masked_entities text es rules))
     \<and> mr_entities r = select_spans text es"
proof -
  let ?valid = "select_spans text es"
  let ?allowed = "\<lambda>t. context_allows t (map e_type ?valid) rules"
  let ?replace = "\<lambda>k e. strategy_mask U (rnd k) (strategy_for sbt (e_type e)) e"
  from assms obtain t where
    t: "efold (assemble_step ?replace text ?allowed) assembly_init ?valid = Inr t" and
    r: "mr_masked_text r = concat (as_pieces t) @ py_from text (as_cursor t)"
       "mr_entities r = ?valid" "mr_mappings r = as_mappings t"
    by (auto simp: mask_def Let_def ebind_eq_Inr ordered_id)
  have me: "masked_entities text es rules = filter (\<lambda>e. ?allowed (e_type e)) ?valid"
    by (simp add: masked_entities_def Let_def)
  from assemble_splice [OF t] obtain reps where
    "assembled ?replace text assembly_init (masked_entities text es rules) reps t"
    unfolding me by blast
  with r show ?thesis by (auto simp: assembled_def assembly_init_def)
qed

lemma mask_total:
  assumes "resolve_context_rules cr = Inr rules"
    and "\<forall>e \<in> set (select_spans text es). maskable U e"
  shows "\<exists>r. mask U rnd clk text es sbt cr = Inr r"
proof -
  have "\<forall>e \<in> set (select_spans text es). \<forall>k. \<exists>r.
      strategy_mask U (rnd k) (strategy_for sbt (e_type e)) e = Inr r"
    using assms(2) strategy_mask_total by blast
  from assemble_total [OF this, of "text"
      "\<lambda>t. context_allows t (map e_type (select_spans text es)) rules" assembly_init]
  show ?thesis using assms(1) by (auto simp: mask_def Let_def ordered_id)
qed

section \<open>Reading a splice\<close>

text \<open>Spans that follow one another inside the text, from position \<open>cur\<close> on\<close>

fun spans_from :: "pystr \<Rightarrow> int \<Rightarrow> pii_entity list \<Rightarrow> bool" where
  "spans_from text cur [] = (0 \<le> cur \<and> cur \<le> int (length text))"
| "spans_from text cur (e # es) =
     (0 \<le> cur \<and> cur \<le> e_start e \<and> valid_span text e \<and> spans_from text (e_end e) es)"

lemma spans_from_bounds:
  "spans_from text cur es \<Longrightarrow> 0 \<le> cur \<and> cur \<le> int (length text)"
  by (cases es) (auto simp: valid_span_def)

lemma spans_from_follows:
  "sorted_wrt follows es \<Longrightarrow> \<forall>e \<in> set es. valid_span text e \<and> cur \<le> e_start e \<Longrightarrow> 0 \<le> cur \<Longrightarrow>
   cur \<le> int (length text) \<Longrightarrow> spans_from text cur es"
  by (induction es arbitrary: cur) (auto simp: valid_span_def)

lemma spans_from_start: "spans_from text cur es \<Longrightarrow> e \<in> set es \<Longrightarrow> cur \<le> e_start e"
  by (induction es arbitrary: cur) (auto simp: valid_span_def, fastforce)

lemma masked_entities_spans: "spans_from text 0 (masked_entities text es rules)"
proof (rule spans_from_follows)
  show "sorted_wrt follows (masked_entities text es rules)"
    using select_spans_follows by (simp add: masked_entities_def Let_def sorted_wrt_filter)
  show "\<forall>e \<in> set (masked_entities text es rules). valid_span text e \<and> 0 \<le> e_start e"
    using select_spans_valid by (fastforce simp: masked_entities_def Let_def valid_span_def)
qed simp_all

lemma splice_original:
  "spans_from text cur es \<Longrightarrow> splice text cur (zip es (map e_value es)) = py_from text cur"
proof (induction es arbitrary: cur)
  case (Cons e es)
  then have v: "0 \<le> cur" "cur \<le> e_start e" "valid_span text e" by auto
  then have "e_value e @ py_from text (e_end e) = py_from text (e_start e)"
    using py_slice_from [of "e_start e" "e_end e" "text"] by (auto simp: valid_span_def)
  with Cons v show ?case
    using py_slice_from [of cur "e_start e" "text"] by (auto simp: valid_span_def)
qed simp

definition covered :: "pii_entity list \<Rightarrow> nat \<Rightarrow> bool" where
  "covered es i = list_ex (\<lambda>e. e_start e \<le> int i \<and> int i < e_end e) es"

definition full_char :: "ucd \<Rightarrow> pystr \<Rightarrow> pii_entity list \<Rightarrow> nat \<Rightarrow> codepoint" where
  "full_char U text es i = (if covered es i \<and> is_alnum U (text ! i) then 42 else text ! i)"

lemma full_mask_map:
  assumes "valid_span text e"
  shows "full_mask U e = map (full_char U text [e]) [nat (e_start e)..<nat (e_end e)]"
proof -
  have "e_value e = map ((!) text) [nat (e_start e)..<nat (e_end e)]"
    using assms py_slice_map [of "e_start e" "e_end e" "text"] by (simp add: valid_span_def)
  then show ?thesis
    by (auto simp: full_mask_def mask_all_alnum_def FULL_MASK_CHAR_def full_char_def covered_def)
qed

lemma splice_full:
  "spans_from text cur es \<Longrightarrow>
   splice text cur (zip es (map (full_mask U) es)) = map (full_char U text es) [nat cur..<length text]"
proof (induction es arbitrary: cur)
  case Nil
  then show ?case by (simp add: py_from_map full_char_def covered_def)
next
  case (Cons e es)
  let ?a = "e_start e" and ?b = "e_end e" and ?c = "full_char U text (e # es)"
  from Cons.prems have v: "0 \<le> cur" "cur \<le> ?a" "?a < ?b" "?b \<le> int (length text)"
    and ve: "valid_span text e" and tl: "spans_from text ?b es"
    by (auto simp: valid_span_def)
  have later: "?b \<le> e_start x" if "x \<in> set es" for x using spans_from_start [OF tl that] .
  have "py_slice text cur ?a = map ?c [nat cur..<nat ?a]"
    using v later by (fastforce simp: py_slice_map full_char_def covered_def list_ex_iff)
  moreover have "full_mask U e = map ?c [nat ?a..<nat ?b]"
    using later v unfolding full_mask_map [OF ve]
    by (fastforce simp: full_char_def covered_def list_ex_iff)
  moreover have "splice text ?b (zip es (map (full_mask U) es)) = map ?c [nat ?b..<length text]"
    using v unfolding Cons.IH [OF tl] by (auto simp: full_char_def covered_def)
  moreover have "[nat cur..<length text]
      = [nat cur..<nat ?a] @ [nat ?a..<nat ?b] @ [nat ?b..<length text]"
    using v upt_split [of "nat cur" "nat ?a" "length text"]
      upt_split [of "nat ?a" "nat ?b" "length text"] by simp
  ultimately show ?case by simp
qed

section \<open>Context rules\<close>

lemma rule_step_total: "\<exists>r. rule_step rules (VDict d) = Inr r"
  by (auto simp: rule_step_def split: option.splits)

lemma resolve_rules_total: "\<exists>rules. resolve_context_rules (VList (map VDict ds)) = Inr rules"
proof -
  have "\<exists>r. efold rule_step rs (map VDict ds) = Inr r" for rs
    by (induction ds arbitrary: rs) (auto, metis ebind_Inr rule_step_total)
  from this [of "[]"] show ?thesis by (auto simp: resolve_context_rules_def)
qed

text \<open>The rule \<open>{"type": t, "requires": [u]}\<close>\<close>

definition gate_rule :: "pii_type \<Rightarrow> pii_type \<Rightarrow> pyval" where
  "gate_rule t u =
     VDict [(VStr (lit ''type''), VStr (pii_value t)),
            (VStr (lit ''requires''), VList [VStr (pii_value u)])]"

lemma resolve_gate_rule: "resolve_context_rules (VList [gate_rule t u]) = Inr [(t, [u])]"
  by (simp add: resolve_context_rules_def gate_rule_def rule_step_def parse_rule_type_def
      dict_get_def parse_required_types_def)

lemmas select_eval =
  select_spans_def select_step_def span_ok_def insort_key_def ent_def py_slice_def py_from_def
  clamp_ix_def
  Let_def

section \<open>Properties\<close>

text \<open>
  C7: Span selection.  The selected spans are input entities, lie inside the text, cover exactly
  their value, and follow one another without overlap; and an input entity with a valid span is
  left out only when it starts inside a selected span that starts no later.
\<close>

theorem select_spans_correct:
  "sorted_wrt follows (select_spans text es)
   \<and> set (select_spans text es) \<subseteq> {e \<in> set es. valid_span text e}
   \<and> {e \<in> set es. valid_span text e \<and> e \<notin> set (select_spans text es)}
       \<subseteq> {e. \<exists>s. s \<in> set (select_spans text es) \<and> e_start s \<le> e_start e \<and> e_start e < e_end s}"
  using select_spans_selected [of "text" es] set_sorted_valid [of "text" es]
  unfolding selected_for_def by blast

text \<open>
  C5: What \<open>mask\<close> returns.  The masked text is the text with the span of every selected entity
  that the context rules let through replaced by the output of the strategy of its type (full
  mask when the policy names none), everything else unchanged; the mappings pair each
  replacement with the original value in that order; and putting the original values back into
  the spans restores the text.
\<close>

theorem mask_splices:
  assumes "mask U rnd clk text es sbt cr = Inr r" and "resolve_context_rules cr = Inr rules"
  defines "ms \<equiv> masked_entities text es rules"
  shows "mr_entities r = select_spans text es
     \<and> length (mr_mappings r) = length ms
     \<and> mr_masked_text r = splice text 0 (zip ms (map fst (mr_mappings r)))
     \<and> splice text 0 (zip ms (map snd (mr_mappings r))) = text
     \<and> (\<forall>i < length ms.
           strategy_mask U (rnd i) (strategy_for sbt (e_type (ms ! i))) (ms ! i)
             = Inr (fst (mr_mappings r ! i))
           \<and> snd (mr_mappings r ! i) = e_value (ms ! i))"
  using mask_returns [OF assms(1,2)] splice_original [OF masked_entities_spans, of "text" es rules]
  unfolding ms_def by force

text \<open>
  C6: With the default policy (full mask, no context rules) \<open>mask\<close> returns a text of the same
  length in which exactly the letters and digits inside selected spans are asterisks and every
  other character is that of the input.
\<close>

theorem mask_full_pointwise:
  "\<exists>r. mask U rnd clk text es [] VNone = Inr r
     \<and> mr_masked_text r = map (full_char U text (select_spans text es)) [0..<length text]"
proof -
  let ?ms = "select_spans text es"
  have "\<exists>t. efold (assemble_step (\<lambda>k e. strategy_mask U (rnd k) (strategy_for [] (e_type e)) e)
      text (\<lambda>t. context_allows t (map e_type ?ms) [])) assembly_init ?ms = Inr t"
    by (rule assemble_total) (simp add: strategy_for_def)
  then obtain r where r: "mask U rnd clk text es [] VNone = Inr r"
    by (auto simp: mask_def Let_def ordered_id)
  from mask_returns [OF r resolve_no_rules] obtain reps where
    reps: "length reps = length ?ms"
      "\<forall>i < length reps. strategy_mask U (rnd i) (strategy_for [] (e_type (?ms ! i))) (?ms ! i)
         = Inr (reps ! i)" and
    m: "mr_masked_text r = splice text 0 (zip ?ms reps)"
    by auto
  from reps have "reps = map (full_mask U) ?ms"
    by (intro nth_equalityI) (simp_all add: strategy_for_def)
  with r m show ?thesis
    using splice_full [OF masked_entities_spans [of "text" es "[]"], of U] by simp
qed

text \<open>
  C8: \<open>mask\<close> does not raise when the context rules are a list of dictionaries, whatever these
  hold, and the digits of the selected numeric values are decimal digits.
\<close>

theorem mask_never_raises:
  assumes "\<forall>e \<in> set (select_spans text es). maskable U e"
  shows "\<exists>r. mask U rnd clk text es sbt (VList (map VDict ds)) = Inr r"
  using mask_total [OF _ assms] resolve_rules_total [of ds] by blast

text \<open>
  A context rule that makes type \<open>t\<close> require type \<open>u\<close>: entities of type \<open>t\<close> are masked
  exactly when an entity of type \<open>u\<close> was selected in the same text, and every other selected
  entity is always masked.
\<close>

theorem context_rule_gates:
  assumes "mask U rnd clk text es sbt (VList [gate_rule t u]) = Inr r"
  shows "map snd (mr_mappings r) =
    map e_value (filter (\<lambda>e. e_type e \<noteq> t \<or> u \<in> e_type ` set (select_spans text es))
      (select_spans text es))"
  using mask_returns [OF assms resolve_gate_rule]
  by (auto simp: masked_entities_def Let_def context_allows_def map_snd_zip_take)

text \<open>
  Of two overlapping spans the selection keeps the one that starts first, not the longer one:
  here it drops a span of twenty characters for one of two.
\<close>

theorem select_spans_drops_longer:
  "select_spans (replicate 30 120) [ent PHONE 5 7, ent ADDRESS 6 26] = [ent PHONE 5 7]"
  by (simp add: select_eval)

section \<open>Examples\<close>

definition greeting :: pystr where
  "greeting = lit ''PIN 1234, card 4111''"

definition greeting_entities :: "pii_entity list" where
  "greeting_entities =
     [PIIEntity BANK_CARD (lit ''4111'') 15 19 1 (lit ''regex''),
      PIIEntity PIN (lit ''1234'') 4 8 1 (lit ''regex''),
      PIIEntity PIN (lit ''34'') 6 8 1 (lit ''regex'')]"

lemmas mask_eval =
  select_eval greeting_def greeting_entities_def lit_def mask_def strategy_for_def full_mask_def
  mask_all_alnum_def assemble_step_def assembly_init_def char_class_defs class_of_def
  ascii_class_def FULL_MASK_CHAR_def resolve_context_rules_def CONTEXT_REQUIRES_def

lemma greeting_selected:
  "select_spans greeting greeting_entities =
     [PIIEntity PIN (lit ''1234'') 4 8 1 (lit ''regex''),
      PIIEntity BANK_CARD (lit ''4111'') 15 19 1 (lit ''regex'')]"
  by (simp add: select_eval greeting_def greeting_entities_def lit_def)

lemma greeting_masked:
  "\<exists>r. mask ucd_ru rnd clk greeting greeting_entities [] VNone = Inr r
     \<and> mr_masked_text r = lit ''PIN ****, card ****''"
  by (simp add: mask_eval greeting_selected [unfolded greeting_def greeting_entities_def lit_def])

lemma greeting_plain: "\<forall>e \<in> set (select_spans greeting greeting_entities). maskable ucd_ru e"
  unfolding greeting_selected
  by (simp add: maskable_def NUMERIC_EDGE_TYPES_def plain_digits_def lit_def char_class_defs class_of_def ascii_class_def)

theorem mask_never_raises_witness:
  "\<exists>r. mask ucd_ru (\<lambda>_. 0) (\<lambda>_. 0) greeting greeting_entities [(PIN, PARTIAL_MASK)] (VList (map VDict [[]])) = Inr r"
  using mask_never_raises [OF greeting_plain] .

theorem context_rule_gates_witness:
  "\<exists>r. mask ucd_ru (\<lambda>_. 0) (\<lambda>_. 0) greeting greeting_entities [] (VList [gate_rule PIN BANK_CARD]) = Inr r
     \<and> map snd (mr_mappings r) = [lit ''1234'', lit ''4111'']"
proof -
  obtain r where r: "mask ucd_ru (\<lambda>_. 0) (\<lambda>_. 0) greeting greeting_entities []
      (VList [gate_rule PIN BANK_CARD]) = Inr r"
    using mask_total [OF resolve_gate_rule greeting_plain] by blast
  from context_rule_gates [OF r] r show ?thesis by (auto simp: greeting_selected)
qed

theorem mask_splices_witness:
  "\<exists>r. mask ucd_ru (\<lambda>_. 0) (\<lambda>_. 0) greeting greeting_entities [] VNone = Inr r
     \<and> splice greeting 0 (zip (select_spans greeting greeting_entities) (map snd (mr_mappings r)))
         = greeting"
proof -
  obtain r where r: "mask ucd_ru (\<lambda>_. 0) (\<lambda>_. 0) greeting greeting_entities [] VNone = Inr r"
    using mask_total [OF resolve_no_rules greeting_plain] by blast
  from mask_splices [OF r resolve_no_rules] r show ?thesis by simp
qed

end
