(* ===== verification/Detection.thy ===== *)
theory Detection
  imports Detector MaskingEngine Json
begin

text \<open>
  \<open>app/detection/engine.py\<close>, \<open>context/resolver.py\<close>, \<open>base.py\<close> and \<open>llm_detector.py\<close>.  A detector
  is a function of the text and the context that may raise; the interface of the engine to its
  detectors is the locale \<open>pii_detector\<close>, which the regex and the LLM detector interpret.  The
  LLM client is an argument: its \<open>n\<close>-th completion call for a text answers or raises.
\<close>

section \<open>Definitions\<close>

subsection \<open>The LLM detector\<close>

definition llm_item :: "pystr \<Rightarrow> pii_entity list \<Rightarrow> pyval \<Rightarrow> exn + pii_entity list" where
  "llm_item txt entities item =
     ebind (get_item item ''type'') (\<lambda>ty.
       case pii_type_of_val ty of
         None \<Rightarrow> Inr entities
       | Some t \<Rightarrow>
           ebind (get_item item ''text'') (\<lambda>needle.
             case needle of
               VStr n \<Rightarrow>
                 let start = str_find txt n
                 in if start = -1 then Inr entities
                    else Inr (entities @ [PIIEntity t n start (start + int (length n)) (8 / 10) (lit ''llm'')])
             | _ \<Rightarrow> Inl TypeError))"

definition parse_response :: "pystr \<Rightarrow> pystr \<Rightarrow> exn + pii_entity list" where
  "parse_response txt response =
     (case loads response of
        None \<Rightarrow> Inl ValueError
      | Some payload \<Rightarrow>
          ebind (get_item payload ''entities'') (\<lambda>items.
          ebind (py_iter items) (\<lambda>xs. efold (llm_item txt) [] xs)))"

text \<open>
  \<open>_complete_cached\<close> under \<open>lru_cache(maxsize=1024)\<close>: the cache is a list with the most recently
  used text last; an exception is not cached.
\<close>

type_synonym llm_client = "nat \<Rightarrow> pystr \<Rightarrow> exn + pystr"

record llm_state =
  ls_cache :: "(pystr \<times> pystr) list"
  ls_calls :: nat

definition LRU_MAXSIZE :: nat where
  "LRU_MAXSIZE = 1024"

definition complete_cached :: "llm_client \<Rightarrow> llm_state \<Rightarrow> pystr \<Rightarrow> (exn + pystr) \<times> llm_state" where
  "complete_cached client st txt =
     (case map_of (ls_cache st) txt of
        Some r \<Rightarrow>
          (Inr r, st\<lparr>ls_cache := filter (\<lambda>kv. fst kv \<noteq> txt) (ls_cache st) @ [(txt, r)]\<rparr>)
      | None \<Rightarrow>
          (case client (ls_calls st) txt of
             Inl e \<Rightarrow> (Inl e, st\<lparr>ls_calls := Suc (ls_calls st)\<rparr>)
           | Inr r \<Rightarrow>
               (Inr r, \<lparr>ls_cache = (if length (ls_cache st) \<ge> LRU_MAXSIZE then tl (ls_cache st)
                                    else ls_cache st) @ [(txt, r)],
                        ls_calls = Suc (ls_calls st)\<rparr>)))"

text \<open>\<open>LLMDetector.detect\<close>: every exception, also one of the parser, yields no entities.\<close>

definition llm_detect :: "llm_client \<Rightarrow> bool \<Rightarrow> llm_state \<Rightarrow> pystr \<Rightarrow> pii_entity list \<times> llm_state" where
  "llm_detect client enabled st txt =
     (if \<not> enabled then ([], st)
      else case complete_cached client st txt of
             (Inl e, st') \<Rightarrow> ([], st')
           | (Inr response, st') \<Rightarrow>
               (case parse_response txt response of Inl e \<Rightarrow> ([], st') | Inr es \<Rightarrow> (es, st')))"

subsection \<open>The engine\<close>

type_synonym detector = "pystr \<Rightarrow> detection_context \<Rightarrow> exn + pii_entity list"

definition regex_detector :: "ucd \<Rightarrow> date \<Rightarrow> detector" where
  "regex_detector U today txt ctx = regex_detect U today txt"

text \<open>The LLM detector in a given state of its cache\<close>

definition llm_detector :: "llm_client \<Rightarrow> bool \<Rightarrow> llm_state \<Rightarrow> detector" where
  "llm_detector client enabled st txt ctx = Inr (fst (llm_detect client enabled st txt))"

definition context_resolve :: "pii_entity list \<Rightarrow> detection_context \<Rightarrow> pii_entity list" where
  "context_resolve entities ctx = entities"

definition engine_detect ::
    "(nat \<Rightarrow> rat) \<Rightarrow> detector list \<Rightarrow> pystr \<Rightarrow> detection_context \<Rightarrow> exn + detection_result" where
  "engine_detect clk detectors txt ctx =
     ebind (efold (\<lambda>candidates d. ebind (d txt ctx) (\<lambda>es. Inr (candidates @ es))) [] detectors)
       (\<lambda>candidates.
         Inr \<lparr>dr_entities = resolve_spans (context_resolve candidates ctx),
              dr_processing_time = clk 1 - clk 0,
              dr_metadata = [(lit ''detector_count'', VInt (int (length detectors)))]\<rparr>)"

section \<open>The interface of detectors\<close>

text \<open>A located entity covers its value in the text; its span may be empty.\<close>

definition located :: "pystr \<Rightarrow> pii_entity \<Rightarrow> bool" where
  "located txt e \<longleftrightarrow> 0 \<le> e_start e \<and> e_start e \<le> e_end e \<and> e_end e \<le> int (length txt)
     \<and> py_slice txt (e_start e) (e_end e) = e_value e"

lemma valid_located: "valid_span txt e \<longleftrightarrow> located txt e \<and> nonempty_span e"
  by (auto simp: valid_span_def located_def)

definition honest :: "detector \<Rightarrow> bool" where
  "honest d \<longleftrightarrow> (\<forall>txt ctx. \<exists>es. d txt ctx = Inr es \<and> (\<forall>e \<in> set es. located txt e))"

locale pii_detector =
  fixes detect :: detector
  assumes detect_returns: "\<exists>es. detect txt ctx = Inr es"
    and detect_located: "detect txt ctx = Inr es \<Longrightarrow> e \<in> set es \<Longrightarrow> located txt e"
begin

definition found :: "pystr \<Rightarrow> detection_context \<Rightarrow> pii_entity list" where
  "found txt ctx = projr (detect txt ctx)"

lemma detect_found: "detect txt ctx = Inr (found txt ctx)"
  using detect_returns [of "txt" ctx] by (auto simp: found_def)

lemma found_located: "e \<in> set (found txt ctx) \<Longrightarrow> located txt e"
  using detect_located detect_found by blast

lemma detect_honest: "honest detect"
  unfolding honest_def using detect_found found_located by blast

end

text \<open>A detector whose spans are never empty\<close>

locale exact_detector = pii_detector +
  assumes detect_nonempty: "detect txt ctx = Inr es \<Longrightarrow> e \<in> set es \<Longrightarrow> nonempty_span e"
begin

lemma found_valid: "e \<in> set (found txt ctx) \<Longrightarrow> valid_span txt e"
  using detect_found detect_nonempty found_located by (auto simp: valid_located)

lemma engine_alone:
  "\<exists>r. engine_detect clk [detect] txt ctx = Inr r \<and> dr_entities r = resolve_spans (found txt ctx)
     \<and> sorted_wrt before (dr_entities r) \<and> (\<forall>e \<in> set (dr_entities r). valid_span txt e)"
proof -
  have "\<forall>e \<in> set (found txt ctx). nonempty_span e"
    using found_valid by (auto simp: valid_located)
  from resolve_spans_resolved [OF this] have "sorted_wrt before (resolve_spans (found txt ctx))"
    by (simp add: resolved_for_def)
  moreover have "\<forall>e \<in> set (resolve_spans (found txt ctx)). valid_span txt e"
    using resolve_spans_subset found_valid by blast
  ultimately show ?thesis by (simp add: engine_detect_def detect_found context_resolve_def)
qed

end

section \<open>The LLM detector is a detector\<close>

lemma str_find_located:
  assumes "str_find txt n \<noteq> -1"
  shows "located txt (PIIEntity t n (str_find txt n) (str_find txt n + int (length n)) c d)"
proof -
  let ?s = "nat (str_find txt n)"
  have ge: "0 \<le> str_find txt n" using assms str_find_range by blast
  from str_find_prefix [OF assms] obtain r where r: "drop ?s txt = n @ r" by (auto simp: prefix_def)
  have le: "?s \<le> length txt"
    using assms str_find_bound [of "txt" n] ge by linarith
  with r have "?s + length n \<le> length txt"
    by (metis add_le_cancel_left diff_add_inverse le_add1 le_add_diff_inverse length_append length_drop)
  with ge r show ?thesis by (simp add: located_def slice_simps nat_add_distrib)
qed

lemma llm_item_located:
  assumes "llm_item txt es item = Inr es'" and "\<forall>e \<in> set es. located txt e"
  shows "\<forall>e \<in> set es'. located txt e"
proof -
  from assms(1) obtain ty where ty: "get_item item ''type'' = Inr ty"
    and r: "(case pii_type_of_val ty of None \<Rightarrow> Inr es | Some t \<Rightarrow>
        ebind (get_item item ''text'') (\<lambda>needle. case needle of
          VStr n \<Rightarrow> let start = str_find txt n in if start = -1 then Inr es
            else Inr (es @ [PIIEntity t n start (start + int (length n)) (8 / 10) (lit ''llm'')])
        | _ \<Rightarrow> Inl TypeError)) = Inr es'"
    unfolding llm_item_def ebind_eq_Inr by blast
  show ?thesis
  proof (cases "pii_type_of_val ty")
    case None
    with r assms(2) show ?thesis by simp
  next
    case (Some t)
    with r obtain needle where
      "(case needle of VStr n \<Rightarrow> let start = str_find txt n in if start = -1 then Inr es
            else Inr (es @ [PIIEntity t n start (start + int (length n)) (8 / 10) (lit ''llm'')])
        | _ \<Rightarrow> Inl TypeError) = Inr es'"
      by (auto simp: ebind_eq_Inr)
    with assms(2) str_find_located [of "txt"] show ?thesis
      by (cases needle) (auto simp: Let_def split: if_splits)
  qed
qed

lemma parse_response_located:
  assumes "parse_response txt response = Inr es" and "e \<in> set es"
  shows "located txt e"
proof -
  from assms(1) obtain xs where "efold (llm_item txt) [] xs = Inr es"
    by (auto simp: parse_response_def ebind_eq_Inr split: option.splits)
  then have "\<forall>e \<in> set es. located txt e"
    by (rule efold_invariant) (auto dest: llm_item_located)
  with assms(2) show ?thesis by blast
qed

lemma llm_detect_located: "e \<in> set (fst (llm_detect client enabled st txt)) \<Longrightarrow> located txt e"
  by (auto simp: llm_detect_def split: if_splits sum.splits prod.splits dest: parse_response_located)

interpretation llmd: pii_detector "llm_detector client enabled st" for client enabled st
  by unfold_locales (auto simp: llm_detector_def dest: llm_detect_located)

lemma regex_detector_valid:
  "regex_detector U today txt ctx = Inr es \<Longrightarrow> e \<in> set es \<Longrightarrow> valid_span txt e"
  using regex_detect_ok by (fastforce simp: regex_detector_def detected_ok_def)

interpretation regexd: exact_detector "regex_detector U today" for U today
proof
  show "\<exists>es. regex_detector U today s ctx = Inr es" for s ctx
    using regex_detect_returns by (simp add: regex_detector_def)
  show "regex_detector U today s ctx = Inr es \<Longrightarrow> e \<in> set es \<Longrightarrow> located s e" for s ctx es e
    using regex_detector_valid by (simp add: valid_located)
  show "regex_detector U today s ctx = Inr es \<Longrightarrow> e \<in> set es \<Longrightarrow> nonempty_span e" for s ctx es e
    using regex_detector_valid by (simp add: valid_located)
qed

section \<open>Several detectors\<close>

lemma gather_located:
  assumes "\<forall>d \<in> set ds. honest d" and "\<forall>e \<in> set cs. located txt e"
  shows "\<exists>es. efold (\<lambda>candidates d. ebind (d txt ctx) (\<lambda>es. Inr (candidates @ es))) cs ds = Inr es
     \<and> (\<forall>e \<in> set es. located txt e)"
  using assms
proof (induction ds arbitrary: cs)
  case (Cons d ds)
  then obtain xs where "d txt ctx = Inr xs" "\<forall>e \<in> set xs. located txt e"
    unfolding honest_def by (metis list.set_intros(1))
  with Cons.IH [of "cs @ xs"] Cons.prems show ?case by auto
qed simp

lemma engine_located:
  assumes "\<forall>d \<in> set ds. honest d"
  shows "\<exists>r. engine_detect clk ds txt ctx = Inr r \<and> (\<forall>e \<in> set (dr_entities r). located txt e)"
proof -
  from gather_located [OF assms, of "[]" "txt" ctx] obtain es where
    "efold (\<lambda>candidates d. ebind (d txt ctx) (\<lambda>es. Inr (candidates @ es))) [] ds = Inr es"
    "\<forall>e \<in> set es. located txt e" by auto
  with resolve_spans_subset [of es] show ?thesis
    by (auto simp: engine_detect_def context_resolve_def)
qed

section \<open>Properties\<close>

text \<open>
  With the default configuration (the regex detector alone) the engine returns on every text,
  and its entities are valid spans in the order of the text, no two of which overlap.
\<close>

theorem engine_regex_sound:
  "\<exists>r. engine_detect clk [regex_detector U today] txt ctx = Inr r
     \<and> sorted_wrt before (dr_entities r)
     \<and> set (dr_entities r) \<subseteq> {e. valid_span txt e}"
  using regexd.engine_alone [of clk U today "txt" ctx] by blast

text \<open>
  The LLM detector cannot break detection: whatever the client answers, and also when it
  raises, the engine with both detectors returns, and every entity covers its value in the text.
\<close>

theorem engine_llm_sound:
  "\<exists>r. engine_detect clk [regex_detector U today, llm_detector client enabled st] txt ctx = Inr r
     \<and> set (dr_entities r) \<subseteq> {e. located txt e}"
  using engine_located [of "[regex_detector U today, llm_detector client enabled st]" clk "txt" ctx]
    regexd.detect_honest [of U today] llmd.detect_honest [of client enabled st]
  by auto

text \<open>
  A successful completion is cached: asked again for the same text the detector gives the
  same entities without another call, whatever the client would answer now.
\<close>

theorem llm_detect_cached:
  assumes "map_of (ls_cache st) txt = None" and "client (ls_calls st) txt = Inr response"
  shows "llm_detect client' True (snd (llm_detect client True st txt)) txt
    = (fst (llm_detect client True st txt),
       snd (llm_detect client True st txt)\<lparr>ls_cache :=
         filter (\<lambda>kv. fst kv \<noteq> txt) (ls_cache (snd (llm_detect client True st txt))) @ [(txt, response)]\<rparr>)"
proof -
  have "map_of (xs @ [(txt, response)]) txt = Some response" if "map_of xs txt = None" for xs
    using that by (simp add: map_add_def)
  moreover have "map_of (tl (ls_cache st)) txt = None"
    using assms(1) by (cases "ls_cache st") (auto split: if_splits)
  ultimately show ?thesis
    using assms by (auto simp: llm_detect_def complete_cached_def split: sum.splits)
qed

section \<open>Examples\<close>

text \<open>The answer \<open>{"entities": [{"type": "PIN", "text": "ab"}]}\<close>\<close>

definition answer_value :: pyval where
  "answer_value =
     VDict [(VStr (lit ''entities''),
       VList [VDict [(VStr (lit ''type''), VStr (pii_value PIN)), (VStr (lit ''text''), VStr (lit ''ab''))]])]"

definition answer :: pystr where
  "answer = the (dumps answer_value)"

lemma loads_answer: "loads answer = Some answer_value"
proof -
  have "\<exists>s. dumps answer_value = Some s" by (simp add: answer_value_def)
  then have "dumps answer_value = Some answer" by (auto simp: answer_def)
  moreover have "json_ok answer_value" by (simp add: answer_value_def lit_def is_scalar_def)
  ultimately show ?thesis by (rule loads_dumps)
qed

lemma parse_answer:
  "parse_response (lit ''ab ab'') answer = Inr [PIIEntity PIN (lit ''ab'') 0 2 (8 / 10) (lit ''llm'')]"
  by (simp add: parse_response_def loads_answer answer_value_def get_item_def llm_item_def
      str_find_def lit_def del: pii_value.simps)

definition fresh_llm :: llm_state where
  "fresh_llm = \<lparr>ls_cache = [], ls_calls = 0\<rparr>"

lemma detect_answer:
  "fst (llm_detect (\<lambda>_ _. Inr answer) True fresh_llm (lit ''ab ab''))
     = [PIIEntity PIN (lit ''ab'') 0 2 (8 / 10) (lit ''llm'')]"
  by (simp add: llm_detect_def complete_cached_def fresh_llm_def parse_answer)

theorem llm_detect_cached_witness:
  "fst (llm_detect (\<lambda>_ _. Inl ValueError) True
      (snd (llm_detect (\<lambda>_ _. Inr answer) True fresh_llm (lit ''ab ab''))) (lit ''ab ab''))
     = [PIIEntity PIN (lit ''ab'') 0 2 (8 / 10) (lit ''llm'')]"
  using llm_detect_cached [of fresh_llm "lit ''ab ab''" "\<lambda>_ _. Inr answer" answer "\<lambda>_ _. Inl ValueError"]
    detect_answer
  by (simp add: fresh_llm_def)

text \<open>
  Only the first occurrence of a value the LLM reports is masked: the prompt asks for one
  record per value even when it occurs several times, and the detector locates the record with
  \<open>find\<close>, so the second occurrence stays readable.
\<close>

theorem llm_second_occurrence_leaks:
  "\<exists>r. mask ucd_ru rnd clk (lit ''ab ab'')
       (fst (llm_detect (\<lambda>_ _. Inr answer) True fresh_llm (lit ''ab ab''))) [] VNone = Inr r
     \<and> mr_masked_text r = lit ''** ab''"
  unfolding detect_answer by (simp add: mask_eval)

end
