(* ===== verification/Policy.thy ===== *)
theory Policy
  imports MaskingEngine
begin

text \<open>
  \<open>app/policies/models.py\<close>, \<open>provider.py\<close> and \<open>loader.py\<close>.  The YAML parser is a parameter: a
  directory is a list of file stems with what \<open>yaml.safe_load\<close> makes of the file, a value or an
  exception.  The interface \<open>PolicyProvider\<close> is the locale \<open>policy_provider\<close>.
\<close>

section \<open>Definitions\<close>

record consumer_policy =
  cp_consumer_id :: pystr
  cp_enabled :: bool
  cp_enabled_types :: "pii_type list"
  cp_masking :: strategy_map
  cp_demasking_enabled :: bool
  cp_context_rules :: pyval

text \<open>The constructor with its defaults\<close>

definition ConsumerPolicy :: "pystr \<Rightarrow> consumer_policy" where
  "ConsumerPolicy cid = \<lparr>cp_consumer_id = cid, cp_enabled = True, cp_enabled_types = [], cp_masking = [],
     cp_demasking_enabled = True, cp_context_rules = VList []\<rparr>"

definition policy_strategy_for :: "consumer_policy \<Rightarrow> pii_type \<Rightarrow> masking_strategy" where
  "policy_strategy_for pol t = (case map_of (cp_masking pol) t of None \<Rightarrow> FULL_MASK | Some s \<Rightarrow> s)"

definition parse_type :: "pyval \<Rightarrow> exn + pii_type" where
  "parse_type v = (case pii_type_of_val v of None \<Rightarrow> Inl ValueError | Some t \<Rightarrow> Inr t)"

definition parse_strategy :: "pyval \<Rightarrow> exn + masking_strategy" where
  "parse_strategy v =
     (case v of VStr s \<Rightarrow> (case MaskingStrategy s of None \<Rightarrow> Inl ValueError | Some m \<Rightarrow> Inr m)
      | _ \<Rightarrow> Inl ValueError)"

text \<open>The comprehension over \<open>masking_raw.items()\<close>\<close>

definition masking_step :: "strategy_map \<Rightarrow> pyval \<times> pyval \<Rightarrow> exn + strategy_map" where
  "masking_step m kv =
     ebind (parse_type (fst kv)) (\<lambda>t. ebind (parse_strategy (snd kv)) (\<lambda>s. Inr (AList.update t s m)))"

definition load_file :: "pystr \<Rightarrow> exn + pyval \<Rightarrow> exn + consumer_policy" where
  "load_file stem parsed =
     ebind parsed (\<lambda>doc.
     ebind (as_dict (if truthy doc then doc else VDict [])) (\<lambda>raw.
     let detection = dict_get raw ''detection'' (VDict []);
         masking_raw = dict_get raw ''masking'' (VDict []);
         demasking = dict_get raw ''demasking'' (VDict []);
         enabled = truthy (dict_get raw ''enabled'' (VBool True)) in
     ebind (as_dict detection) (\<lambda>det.
     ebind (py_iter (dict_get det ''enabled_types'' (VList []))) (\<lambda>ts.
     ebind (emap parse_type ts) (\<lambda>enabled_types.
     ebind (as_dict masking_raw) (\<lambda>items.
     ebind (efold masking_step [] items) (\<lambda>masking.
     ebind (as_dict demasking) (\<lambda>dem.
       Inr \<lparr>cp_consumer_id = stem, cp_enabled = enabled, cp_enabled_types = enabled_types,
            cp_masking = masking, cp_demasking_enabled = truthy (dict_get dem ''enabled'' (VBool True)),
            cp_context_rules = dict_get raw ''context_rules'' (VList [])\<rparr>))))))))"

type_synonym policies = "(pystr \<times> consumer_policy) list"

definition load_step :: "policies \<Rightarrow> pystr \<times> (exn + pyval) \<Rightarrow> exn + policies" where
  "load_step ps f =
     ebind (load_file (fst f) (snd f)) (\<lambda>policy. Inr (AList.update (cp_consumer_id policy) policy ps))"

text \<open>\<open>sorted(glob("*.yaml"))\<close>: by file name\<close>

fun insert_file :: "pystr \<times> 'a \<Rightarrow> (pystr \<times> 'a) list \<Rightarrow> (pystr \<times> 'a) list" where
  "insert_file f [] = [f]"
| "insert_file f (g # gs) =
     (if str_le (fst f @ lit ''.yaml'') (fst g @ lit ''.yaml'') then f # g # gs else g # insert_file f gs)"

definition FilePolicyProvider :: "(pystr \<times> (exn + pyval)) list \<Rightarrow> exn + policies" where
  "FilePolicyProvider files = efold load_step [] (foldr insert_file files [])"

definition get_policy :: "policies \<Rightarrow> pystr \<Rightarrow> exn + consumer_policy" where
  "get_policy ps cid =
     (case map_of ps cid of
        None \<Rightarrow> Inl (ConsumerNotAllowedError (lit ''consumer not allowed: '' @ cid))
      | Some policy \<Rightarrow>
          if \<not> cp_enabled policy then Inl (ConsumerNotAllowedError (lit ''consumer not allowed: '' @ cid))
          else Inr policy)"

section \<open>The interface\<close>

locale policy_provider =
  fixes get :: "'p \<Rightarrow> pystr \<Rightarrow> exn + consumer_policy" and ok :: "'p \<Rightarrow> bool"
  assumes own: "ok ps \<Longrightarrow> get ps c = Inr pol \<Longrightarrow> cp_consumer_id pol = c \<and> cp_enabled pol"
    and refusal: "ok ps \<Longrightarrow> get ps c = Inl e \<Longrightarrow> e = ConsumerNotAllowedError (lit ''consumer not allowed: '' @ c)"
begin

lemma one_per_consumer: "ok ps \<Longrightarrow> get ps c = Inr p \<Longrightarrow> get ps d = Inr p \<Longrightarrow> c = d"
  using own by metis

end

text \<open>Every policy is stored under its own id.\<close>

definition own_ids :: "policies \<Rightarrow> bool" where
  "own_ids ps \<longleftrightarrow> (\<forall>c p. map_of ps c = Some p \<longrightarrow> cp_consumer_id p = c)"

interpretation files: policy_provider get_policy own_ids
  by unfold_locales (auto simp: get_policy_def own_ids_def split: option.splits if_splits)

section \<open>What is loaded\<close>

lemma load_file_id: "load_file stem v = Inr p \<Longrightarrow> cp_consumer_id p = stem"
  by (auto simp: load_file_def ebind_eq_Inr Let_def)

lemma load_step_Inr:
  "load_step ps f = Inr ps' \<longleftrightarrow> (\<exists>p. load_file (fst f) (snd f) = Inr p \<and> ps' = AList.update (fst f) p ps)"
  using load_file_id [of "fst f" "snd f"] by (auto simp: load_step_def ebind_eq_Inr)

lemma set_insert_file: "set (insert_file f fs) = insert f (set fs)"
  by (induction fs) auto

lemma set_sorted_files: "set (foldr insert_file fs []) = set fs"
  by (induction fs) (auto simp: set_insert_file)

lemma distinct_insert_file:
  "distinct (map fst fs) \<Longrightarrow> fst f \<notin> fst ` set fs \<Longrightarrow> distinct (map fst (insert_file f fs))"
  by (induction fs) (auto simp: set_insert_file)

lemma distinct_sorted_files: "distinct (map fst fs) \<Longrightarrow> distinct (map fst (foldr insert_file fs []))"
  by (induction fs) (auto intro!: distinct_insert_file simp: set_sorted_files)

lemma load_all_lookup:
  assumes "efold load_step ps fs = Inr ps'" and "distinct (map fst fs)"
  shows "map_of ps' c = (case map_of fs c of None \<Rightarrow> map_of ps c
     | Some v \<Rightarrow> (case load_file c v of Inl e \<Rightarrow> None | Inr p \<Rightarrow> Some p))
    \<and> (\<forall>v. map_of fs c = Some v \<longrightarrow> (\<exists>p. load_file c v = Inr p))"
  using assms
proof (induction fs arbitrary: ps)
  case (Cons f fs)
  obtain stem v where f: "f = (stem, v)" by (cases f)
  from Cons.prems(1) obtain p where p: "load_file stem v = Inr p"
    "efold load_step (AList.update stem p ps) fs = Inr ps'"
    by (auto simp: f ebind_eq_Inr load_step_Inr)
  from Cons.prems(2) have "map_of fs stem = None" by (auto simp: f map_of_eq_None_iff)
  with Cons.IH [OF p(2)] Cons.prems(2) p(1) show ?case
    by (auto simp: f map_of_update split: option.split)
qed simp

lemma loaded_own_ids:
  assumes "FilePolicyProvider files = Inr ps"
  shows "own_ids ps"
proof -
  have "own_ids ps1 \<Longrightarrow> efold load_step ps1 fs = Inr ps \<Longrightarrow> own_ids ps" for ps1 fs
  proof (induction fs arbitrary: ps1)
    case (Cons f fs)
    then obtain p where p: "load_file (fst f) (snd f) = Inr p"
      "efold load_step (AList.update (fst f) p ps1) fs = Inr ps"
      by (auto simp: load_step_Inr ebind_eq_Inr)
    have "own_ids (AList.update (fst f) p ps1)"
      using Cons.prems(1) load_file_id [OF p(1)] by (auto simp: own_ids_def map_of_update)
    from Cons.IH [OF this p(2)] show ?case .
  qed simp
  from this [of "[]"] assms show ?thesis by (simp add: FilePolicyProvider_def own_ids_def)
qed

section \<open>Properties\<close>

text \<open>
  The policies are those of the files (functional).  Once the provider is built, a consumer gets
  exactly the policy of the file named after it when that policy is enabled, whatever the order of
  the files, and a consumer without a file, or with a disabled policy, is refused.
\<close>

theorem get_policy_exact:
  assumes "FilePolicyProvider files = Inr ps" and "distinct (map fst files)"
  shows "get_policy ps c = (case map_of files c of
       Some v \<Rightarrow> ebind (load_file c v) (\<lambda>p. if cp_enabled p then Inr p
                   else Inl (ConsumerNotAllowedError (lit ''consumer not allowed: '' @ c)))
     | None \<Rightarrow> Inl (ConsumerNotAllowedError (lit ''consumer not allowed: '' @ c)))"
proof -
  let ?fs = "foldr insert_file files []"
  have d: "distinct (map fst ?fs)" using distinct_sorted_files [OF assms(2)] .
  have "map_of ?fs c = map_of files c"
    using map_of_inject_set [OF d assms(2)] set_sorted_files by metis
  with load_all_lookup [of "[]" ?fs ps c] assms(1) d show ?thesis
    by (auto simp: FilePolicyProvider_def get_policy_def split: option.split)
qed

definition sample_files :: "(pystr \<times> (exn + pyval)) list" where
  "sample_files = [(lit ''b'', Inr VNone), (lit ''a'', Inr (VDict [(VStr (lit ''enabled''), VBool False)]))]"

theorem get_policy_exact_witness:
  "\<exists>ps. FilePolicyProvider sample_files = Inr ps \<and> get_policy ps (lit ''b'') = Inr (ConsumerPolicy (lit ''b''))
    \<and> get_policy ps (lit ''a'') = Inl (ConsumerNotAllowedError (lit ''consumer not allowed: a''))"
proof -
  have "\<exists>ps. FilePolicyProvider sample_files = Inr ps"
    by (simp add: FilePolicyProvider_def sample_files_def lit_def load_step_def load_file_def dict_get_def Let_def)
  then obtain ps where ps: "FilePolicyProvider sample_files = Inr ps" by blast
  have "distinct (map fst sample_files)" by (simp add: sample_files_def lit_def)
  note get = get_policy_exact [OF ps this]
  show ?thesis using ps get [of "lit ''a''"] get [of "lit ''b''"]
    by (simp add: sample_files_def lit_def load_file_def dict_get_def Let_def ConsumerPolicy_def)
qed

end
