(* ===== verification/Metrics.thy ===== *)
theory Metrics
  imports Domain
begin

text \<open>
  \<open>app/observability/metrics.py\<close>.  The collectors of \<open>prometheus_client\<close> are a parameter: a registry
  state and a function that carries out one call on a collector or raises.  The application state
  of a \<open>Metrics\<close> object is the registry and its own table of stage maxima.
\<close>

section \<open>Definitions\<close>

datatype metric_name =
  http_requests | http_request_duration | inflight_requests | operations | operation_duration
| errors | detected_entities | payload_size | stage_duration | stage_max

text \<open>The collector names and label names the constructor registers\<close>

fun metric_id :: "metric_name \<Rightarrow> pystr \<times> pystr list" where
  "metric_id http_requests = (lit ''pii_proxy_http_requests_total'', [lit ''method'', lit ''path'', lit ''status''])"
| "metric_id http_request_duration = (lit ''pii_proxy_http_request_duration_seconds'', [lit ''method'', lit ''path''])"
| "metric_id inflight_requests = (lit ''pii_proxy_inflight_requests'', [])"
| "metric_id operations = (lit ''pii_proxy_operations_total'', [lit ''operation''])"
| "metric_id operation_duration = (lit ''pii_proxy_operation_duration_seconds'', [lit ''operation''])"
| "metric_id errors = (lit ''pii_proxy_errors_total'', [lit ''error_type''])"
| "metric_id detected_entities = (lit ''pii_proxy_detected_entities_total'', [])"
| "metric_id payload_size = (lit ''pii_proxy_payload_size_bytes'', [])"
| "metric_id stage_duration = (lit ''pii_proxy_stage_duration_seconds'', [lit ''stage''])"
| "metric_id stage_max = (lit ''pii_proxy_stage_max_seconds'', [lit ''stage''])"

definition HTTP_LATENCY_BUCKETS :: "rat list" where
  "HTTP_LATENCY_BUCKETS = [1/1000, 5/1000, 1/100, 25/1000, 5/100, 1/10, 25/100, 5/10, 1, 25/10, 5, 10]"

definition PAYLOAD_SIZE_BUCKETS :: "rat list" where
  "PAYLOAD_SIZE_BUCKETS = [64, 256, 1024, 4096, 16384, 65536, 262144, 1048576]"

fun buckets :: "metric_name \<Rightarrow> rat list option" where
  "buckets http_request_duration = Some HTTP_LATENCY_BUCKETS"
| "buckets operation_duration = Some HTTP_LATENCY_BUCKETS"
| "buckets payload_size = Some PAYLOAD_SIZE_BUCKETS"
| "buckets stage_duration = Some HTTP_LATENCY_BUCKETS"
| "buckets _ = None"

text \<open>A call on the child of a collector with the given label values\<close>

datatype metric_call =
  Inc metric_name "pystr list" rat
| Dec metric_name "pystr list"
| Observe metric_name "pystr list" rat
| Set metric_name "pystr list" rat

type_synonym 'r collectors = "metric_call \<Rightarrow> 'r \<Rightarrow> exn + 'r"

record 'r metrics =
  mt_registry :: 'r
  mt_stage_max_values :: "(pystr \<times> rat) list"

text \<open>\<open>Metrics._safe\<close>: an exception of the collector is dropped.\<close>

definition safe :: "'r collectors \<Rightarrow> metric_call \<Rightarrow> 'r metrics \<Rightarrow> 'r metrics" where
  "safe P call m = (case P call (mt_registry m) of Inl e \<Rightarrow> m | Inr r \<Rightarrow> m\<lparr>mt_registry := r\<rparr>)"

text \<open>\<open>track_inflight\<close> around a body; its result \<open>'b\<close> is a value or an exception, and what else it changed\<close>

definition track_inflight ::
    "'r collectors \<Rightarrow> ('r metrics \<Rightarrow> 'b \<times> 'r metrics) \<Rightarrow> 'r metrics \<Rightarrow> 'b \<times> 'r metrics" where
  "track_inflight P body m =
     (case body (safe P (Inc inflight_requests [] 1) m) of
        (r, m') \<Rightarrow> (r, safe P (Dec inflight_requests []) m'))"

definition observe_http :: "'r collectors \<Rightarrow> pystr \<Rightarrow> pystr \<Rightarrow> pystr \<Rightarrow> rat \<Rightarrow> 'r metrics \<Rightarrow> 'r metrics" where
  "observe_http P meth path status duration_seconds m =
     safe P (Observe http_request_duration [meth, path] duration_seconds)
       (safe P (Inc http_requests [meth, path, status] 1) m)"

definition record_operation :: "'r collectors \<Rightarrow> pystr \<Rightarrow> rat \<Rightarrow> 'r metrics \<Rightarrow> 'r metrics" where
  "record_operation P oper duration_seconds m =
     safe P (Observe operation_duration [oper] duration_seconds) (safe P (Inc operations [oper] 1) m)"

definition record_error :: "'r collectors \<Rightarrow> pystr \<Rightarrow> 'r metrics \<Rightarrow> 'r metrics" where
  "record_error P ty m = safe P (Inc errors [ty] 1) m"

definition record_entities :: "'r collectors \<Rightarrow> int \<Rightarrow> 'r metrics \<Rightarrow> 'r metrics" where
  "record_entities P count m = safe P (Inc detected_entities [] (of_int count)) m"

definition record_payload_size :: "'r collectors \<Rightarrow> int \<Rightarrow> 'r metrics \<Rightarrow> 'r metrics" where
  "record_payload_size P size_bytes m = safe P (Observe payload_size [] (of_int size_bytes)) m"

definition stage_value :: "'r metrics \<Rightarrow> pystr \<Rightarrow> rat" where
  "stage_value m stage = (case map_of (mt_stage_max_values m) stage of None \<Rightarrow> 0 | Some v \<Rightarrow> v)"

definition record_stage :: "'r collectors \<Rightarrow> pystr \<Rightarrow> rat \<Rightarrow> 'r metrics \<Rightarrow> 'r metrics" where
  "record_stage P stage duration_seconds m0 =
     (let m = safe P (Observe stage_duration [stage] duration_seconds) m0 in
      if duration_seconds > stage_value m stage
      then safe P (Set stage_max [stage] duration_seconds)
             (m\<lparr>mt_stage_max_values := AList.update stage duration_seconds (mt_stage_max_values m)\<rparr>)
      else m)"

text \<open>\<open>MetricsRecorder\<close> and \<open>Timer\<close>: milliseconds\<close>

definition recorder_request :: "'r collectors \<Rightarrow> pystr \<Rightarrow> rat \<Rightarrow> 'r metrics \<Rightarrow> 'r metrics" where
  "recorder_request P oper duration_ms = record_operation P oper (duration_ms / 1000)"

definition recorder_stage :: "'r collectors \<Rightarrow> pystr \<Rightarrow> rat \<Rightarrow> 'r metrics \<Rightarrow> 'r metrics" where
  "recorder_stage P stage duration_ms = record_stage P stage (duration_ms / 1000)"

definition elapsed_ms :: "(nat \<Rightarrow> rat) \<Rightarrow> nat \<Rightarrow> nat \<Rightarrow> rat" where
  "elapsed_ms clk i j = (clk j - clk i) * 1000"

section \<open>Properties of the recording\<close>

lemma safe_stages [simp]: "mt_stage_max_values (safe P call m) = mt_stage_max_values m"
  by (simp add: safe_def split: sum.split)

lemma stage_value_safe [simp]: "stage_value (safe P call m) s = stage_value m s"
  by (simp add: stage_value_def)

lemma record_stage_value:
  "stage_value (record_stage P stage d m) s = (if s = stage then max (stage_value m s) d else stage_value m s)"
  by (auto simp: record_stage_def Let_def stage_value_def map_of_update)

text \<open>Whatever the collectors do, the table holds the largest duration of each stage.\<close>

lemma stage_values_fold:
  "stage_value (foldl (\<lambda>m (stage, d). record_stage P stage d m) m ds) s
     = foldl max (stage_value m s) (map snd (filter (\<lambda>x. fst x = s) ds))"
  by (induction ds arbitrary: m) (auto simp: record_stage_value)

text \<open>A registry that only writes the calls down\<close>

definition log_calls :: "metric_call list collectors" where
  "log_calls call r = Inr (r @ [call])"

lemma safe_log [simp]:
  "mt_registry (safe log_calls call m) = mt_registry m @ [call]"
  by (simp add: safe_def log_calls_def)

text \<open>
  The stage maxima (invariant).  Whatever the collectors do, also when they raise, after any
  sequence of \<open>record_stage\<close> calls the table holds for each stage the largest duration recorded for
  it, or zero when none was positive.
\<close>

theorem stage_max_is_maximum:
  "stage_value (foldl (\<lambda>m (stage, d). record_stage P stage d m) \<lparr>mt_registry = r, mt_stage_max_values = []\<rparr> ds) s
     = Max (insert 0 {d. (s, d) \<in> set ds})"
proof -
  have "foldl max x xs = Max (insert x (set xs))" for x :: rat and xs
  proof -
    have "(\<lambda>y s. max s y) = (max :: rat \<Rightarrow> rat \<Rightarrow> rat)" by (simp add: fun_eq_iff max.commute)
    then show ?thesis using Max.set_eq_fold [of x xs] by (simp add: foldl_conv_fold)
  qed
  moreover have "set (map snd (filter (\<lambda>x. fst x = s) ds)) = {d. (s, d) \<in> set ds}" by force
  ultimately show ?thesis by (simp add: stage_values_fold) (simp add: stage_value_def)
qed

end
