(* ===== verification/Security.thy ===== *)
theory Security
  imports Restoration
begin

text \<open>
  \<open>app/core/security.py\<close> and \<open>ProcessService._state_key\<close>.  SHA-256 and BLAKE2b are parameters: the
  hexadecimal digest of a byte string.
\<close>

section \<open>Definitions\<close>

type_synonym digest = "byte list \<Rightarrow> pystr"

definition encode :: "pystr \<Rightarrow> exn + byte list" where
  "encode s = (case utf8_encode s of None \<Rightarrow> Inl UnicodeEncodeError | Some bs \<Rightarrow> Inr bs)"

definition hash_identifier :: "digest \<Rightarrow> pystr \<Rightarrow> int \<Rightarrow> exn + pystr" where
  "hash_identifier sha256 value len = ebind (encode value) (\<lambda>bs. Inr (py_slice (sha256 bs) 0 len))"

definition hash_payload :: "digest \<Rightarrow> pystr \<Rightarrow> exn + pystr" where
  "hash_payload blake2b value = ebind (encode value) (\<lambda>bs. Inr (blake2b bs))"

definition state_key :: "digest \<Rightarrow> pystr \<Rightarrow> pystr \<Rightarrow> exn + pystr" where
  "state_key sha256 consumer_id payload_id =
     ebind (encode (consumer_id @ [0] @ payload_id)) (\<lambda>bs. Inr (consumer_id @ lit '':'' @ sha256 bs))"

section \<open>UTF-8\<close>

lemma decode_2:
  assumes "2 \<le> a" "a < 32" "b < 64" "c = a * 64 + b"
  shows "utf8_decode ([192 + a, 128 + b] @ r) = map_option (Cons c) (utf8_decode r)"
  using assms by (simp add: cont_def)

lemma decode_3:
  assumes "a < 16" "b < 64" "d < 64" "c = a * 4096 + b * 64 + d" "2048 \<le> c" "is_scalar c"
  shows "utf8_decode ([224 + a, 128 + b, 128 + d] @ r) = map_option (Cons c) (utf8_decode r)"
  using assms by (simp add: cont_def)

lemma decode_4:
  assumes "a < 5" "b < 64" "d < 64" "e < 64" "c = a * 262144 + b * 4096 + d * 64 + e" "65536 \<le> c" "is_scalar c"
  shows "utf8_decode ([240 + a, 128 + b, 128 + d, 128 + e] @ r) = map_option (Cons c) (utf8_decode r)"
  using assms by (simp add: cont_def)

lemma digits_64:
  "(c :: nat) div 4096 = c div 64 div 64" "c div 262144 = c div 64 div 64 div 64"
  "c div 4096 mod 64 = c div 64 div 64 mod 64"
  using div_mult2_eq [of c 64 64] div_mult2_eq [of c 4096 64] by simp_all

lemma split_64: "(c :: nat) = c div 64 * 64 + c mod 64"
  by simp

lemma split_4096: "(c :: nat) = c div 4096 * 4096 + c div 64 mod 64 * 64 + c mod 64"
  using split_64 [of c] split_64 [of "c div 64"] unfolding digits_64 by linarith

lemma split_262144:
  "(c :: nat) = c div 262144 * 262144 + c div 4096 mod 64 * 4096 + c div 64 mod 64 * 64 + c mod 64"
  using split_64 [of c] split_64 [of "c div 64"] split_64 [of "c div 64 div 64"] unfolding digits_64 by linarith

lemma utf8_decode_char:
  assumes "utf8_char c = Some bs"
  shows "utf8_decode (bs @ r) = map_option (Cons c) (utf8_decode r)"
proof -
  have sc: "is_scalar c" using assms by (auto simp: utf8_char_def split: if_splits)
  consider "c < 128" | "128 \<le> c" "c < 2048" | "2048 \<le> c" "c < 65536" | "65536 \<le> c" by linarith
  then show ?thesis
  proof cases
    case 1
    with sc assms show ?thesis by (auto simp: utf8_char_def)
  next
    case 2
    then have bs: "bs = [192 + c div 64, 128 + c mod 64]" using sc assms by (simp add: utf8_char_def)
    have "2 \<le> c div 64" "c div 64 < 32" using 2 by linarith+
    then show ?thesis unfolding bs by (rule decode_2) (simp_all add: div_mult_mod_eq)
  next
    case 3
    then have bs: "bs = [224 + c div 4096, 128 + c div 64 mod 64, 128 + c mod 64]"
      using sc assms by (simp add: utf8_char_def)
    have "c div 4096 < 16" using 3 by linarith
    with 3 sc split_4096 [of c] show ?thesis unfolding bs by (intro decode_3) simp_all
  next
    case 4
    then have bs: "bs = [240 + c div 262144, 128 + c div 4096 mod 64, 128 + c div 64 mod 64, 128 + c mod 64]"
      using sc assms by (simp add: utf8_char_def)
    have "c < 1114112" using sc 4 by (auto simp: is_scalar_def)
    then have "c div 262144 < 5" by linarith
    with 4 sc split_262144 [of c] show ?thesis unfolding bs by (intro decode_4) simp_all
  qed
qed

lemma utf8_decode_encode: "utf8_encode s = Some bs \<Longrightarrow> utf8_decode bs = Some s"
  by (induction s arbitrary: bs) (auto simp: utf8_decode_char split: option.splits)

lemma encode_inject: "encode s = Inr bs \<Longrightarrow> encode t = Inr bs \<Longrightarrow> s = t"
  using utf8_decode_encode [of s bs] utf8_decode_encode [of t bs]
  by (auto simp: encode_def split: option.splits)

lemma encode_total: "(\<exists>bs. encode s = Inr bs) \<longleftrightarrow> list_all is_scalar s"
  using utf8_defined [of s] by (auto simp: encode_def list_all_iff split: option.splits)

section \<open>Keys\<close>

text \<open>\<open>hexdigest\<close> of SHA-256 is 64 characters long.\<close>

definition digest64 :: "digest \<Rightarrow> bool" where
  "digest64 h \<longleftrightarrow> (\<forall>x. length (h x) = 64)"

text \<open>
  The storage key is unambiguous (functional).  Two requests share a storage key only if the
  consumers agree, and their payload ids agree too unless SHA-256 collides on the two messages; this
  also holds when the ids contain colons or NUL characters.
\<close>

theorem state_key_unambiguous:
  assumes "digest64 sha256" and "state_key sha256 c p = Inr k" and "state_key sha256 c' p' = Inr k"
  shows "c = c' \<and> (p = p' \<or> (\<exists>x y. encode (c @ [0] @ p) = Inr x \<and> encode (c' @ [0] @ p') = Inr y
    \<and> x \<noteq> y \<and> sha256 x = sha256 y))"
proof -
  from assms obtain x y where
    x: "encode (c @ [0] @ p) = Inr x" "k = c @ lit '':'' @ sha256 x" and
    y: "encode (c' @ [0] @ p') = Inr y" "k = c' @ lit '':'' @ sha256 y"
    by (auto simp: state_key_def ebind_eq_Inr)
  have len: "length (sha256 x) = length (sha256 y)" using assms(1) by (simp add: digest64_def)
  have "(c @ lit '':'') @ sha256 x = (c' @ lit '':'') @ sha256 y" using x(2) y(2) by simp
  with len have c: "c @ lit '':'' = c' @ lit '':''" and h: "sha256 x = sha256 y" by simp_all
  have "p = p'" if "x = y"
    using encode_inject [OF x(1), of "c' @ [0] @ p'"] y(1) that c by simp
  with c h x(1) y(1) show ?thesis by auto
qed

theorem state_key_unambiguous_witness:
  "\<exists>k. state_key (\<lambda>_. replicate 64 48) (lit ''a'') (lit ''b:c'') = Inr k
    \<and> state_key (\<lambda>_. replicate 64 48) (lit ''a:b'') (lit ''c'') \<noteq> Inr k"
proof -
  have d: "digest64 (\<lambda>_. replicate 64 48)" by (simp add: digest64_def)
  obtain k where k: "state_key (\<lambda>_. replicate 64 48) (lit ''a'') (lit ''b:c'') = Inr k"
    by (simp add: state_key_def encode_def lit_def utf8_char_def is_scalar_def)
  have "lit ''a'' \<noteq> lit ''a:b''" by (simp add: lit_def)
  with state_key_unambiguous [OF d k, of "lit ''a:b''" "lit ''c''"] k show ?thesis by blast
qed

end
