(* ===== verification/Process.thy ===== *)
theory Process
  imports Detection Policy Metrics Security MemoryStore
begin

text \<open>
  \<open>app/processing/process_service.py\<close>.  The service works on any restoration store: its operations
  \<open>get\<close> and \<open>transition\<close> are arguments, and the lemmas about the service are proved in the locale
  \<open>restoration_store\<close>.  A record \<open>services\<close> holds the engines and digests one request uses; the
  random tokens and the creation time of a request are fixed in it.
\<close>

section \<open>Definitions\<close>

record services =
  sv_detect :: "pystr \<Rightarrow> detection_context \<Rightarrow> exn + detection_result"
  sv_mask :: "pystr \<Rightarrow> pii_entity list \<Rightarrow> strategy_map \<Rightarrow> pyval \<Rightarrow> exn + masking_result"
  sv_sha256 :: digest
  sv_blake2b :: digest
  sv_now :: datetime

record outcome =
  oc_result :: pystr
  oc_operation :: operation
  oc_entity_count :: int
  oc_detected_types :: "pystr list"
  oc_duration_ms :: rat
  oc_stage_timings :: "(pystr \<times> rat) list"

definition mismatch :: exn where
  "mismatch = InvalidPayloadError (lit ''payload does not match stored state'')"

definition enabled_entities :: "consumer_policy \<Rightarrow> detection_result \<Rightarrow> pii_entity list" where
  "enabled_entities policy detection =
     filter (\<lambda>e. e_type e \<in> set (cp_enabled_types policy)) (dr_entities detection)"

text \<open>\<open>sorted({e.type.value for e in entities})\<close>\<close>

definition detected_types :: "pii_entity list \<Rightarrow> pystr list" where
  "detected_types es = map pii_value (sorted_list_of_set (set (map e_type es)))"

definition prepare_mask :: "services \<Rightarrow> pystr \<Rightarrow> pystr \<Rightarrow> consumer_policy \<Rightarrow> exn + rstate" where
  "prepare_mask S payload payload_id policy =
     ebind (sv_detect S payload (DetectionContext (cp_consumer_id policy))) (\<lambda>detection.
     let entities = enabled_entities policy detection in
     ebind (sv_mask S payload entities (cp_masking policy) (cp_context_rules policy)) (\<lambda>masking.
     ebind (hash_payload (sv_blake2b S) payload) (\<lambda>h.
       Inr \<lparr>rs_payload_id = payload_id, rs_original_hash = h, rs_original_text = payload,
            rs_masked_text = mr_masked_text masking, rs_mappings = mr_mappings masking,
            rs_entity_count = int (length entities), rs_detected_types = detected_types entities,
            rs_state = MASKED, rs_created_at = sv_now S, rs_expires_at = None,
            rs_consumer_id = cp_consumer_id policy\<rparr>)))"

definition demask_state :: "rstate \<Rightarrow> consumer_policy \<Rightarrow> exn + rstate" where
  "demask_state current policy =
     (if \<not> cp_demasking_enabled policy
      then Inl (ProcessingError (lit ''demasking is disabled for this consumer''))
      else Inr (current\<lparr>rs_state := DEMASKED\<rparr>))"

definition transition_state ::
    "services \<Rightarrow> rstate option \<Rightarrow> pystr \<Rightarrow> pystr \<Rightarrow> consumer_policy \<Rightarrow> rstate option \<Rightarrow> exn + rstate" where
  "transition_state S current payload payload_id policy prepared =
     (case current of
        None \<Rightarrow> (case prepared of None \<Rightarrow> prepare_mask S payload payload_id policy | Some s \<Rightarrow> Inr s)
      | Some cur \<Rightarrow>
          if rs_consumer_id cur \<noteq> cp_consumer_id policy then Inl mismatch
          else if rs_state cur = MASKED then
            ebind (hash_payload (sv_blake2b S) payload) (\<lambda>h.
              if h = rs_original_hash cur then Inr cur
              else if payload = rs_masked_text cur then demask_state cur policy
              else Inl mismatch)
          else if payload = rs_masked_text cur then Inr cur
          else Inl mismatch)"

definition make_outcome :: "pystr \<Rightarrow> operation \<Rightarrow> rstate \<Rightarrow> outcome" where
  "make_outcome result oper s =
     \<lparr>oc_result = result, oc_operation = oper, oc_entity_count = rs_entity_count s,
      oc_detected_types = rs_detected_types s, oc_duration_ms = 0, oc_stage_timings = []\<rparr>"

definition outcome_of :: "rstate \<Rightarrow> outcome" where
  "outcome_of s =
     (if rs_state s = MASKED then make_outcome (rs_masked_text s) MASK s
      else make_outcome (rs_original_text s) DEMASK s)"

definition outcome_from_state :: "rstate option \<Rightarrow> exn + outcome" where
  "outcome_from_state state =
     (case state of
        None \<Rightarrow> Inl (ProcessingError (lit ''restoration state was unexpectedly removed''))
      | Some s \<Rightarrow> Inr (outcome_of s))"

text \<open>The metrics of a successful request; \<open>payload.encode\<close> comes in between.\<close>

definition record_outcome ::
    "'r collectors \<Rightarrow> outcome \<Rightarrow> pystr \<Rightarrow> 'r metrics \<Rightarrow> (exn + outcome) \<times> 'r metrics" where
  "record_outcome P oc payload m0 =
     (let m = record_entities P (oc_entity_count oc)
                (recorder_request P (operation_value (oc_operation oc)) (oc_duration_ms oc) m0)
      in case encode payload of
           Inl e \<Rightarrow> (Inl e, m)
         | Inr bs \<Rightarrow>
             (Inr oc, foldl (\<lambda>m (stage, ms). recorder_stage P stage ms m)
                        (record_payload_size P (int (length bs)) m) (oc_stage_timings oc)))"

text \<open>
  \<open>clk\<close> gives the readings of \<open>perf_counter\<close>: 0 and 7 for the whole call, 1 and 2 around the lookup,
  3 and 4 around the preparation, 5 and 6 around the transition.
\<close>

definition stage_timings :: "(nat \<Rightarrow> rat) \<Rightarrow> bool \<Rightarrow> (pystr \<times> rat) list" where
  "stage_timings clk prepared =
     [(lit ''state_lookup_ms'', elapsed_ms clk 1 2)]
     @ (if prepared then [(lit ''prepare_ms'', elapsed_ms clk 3 4)] else [])
     @ [(lit ''transition_ms'', elapsed_ms clk 5 6)]"

definition process ::
    "('env \<Rightarrow> pystr \<Rightarrow> 'st \<Rightarrow> (exn + rstate option) \<times> 'st) \<Rightarrow>
     ('env \<Rightarrow> pystr \<Rightarrow> transition_fn \<Rightarrow> 'st \<Rightarrow> (exn + rstate option) \<times> 'st) \<Rightarrow>
     services \<Rightarrow> 'r collectors \<Rightarrow> 'env \<Rightarrow> 'env \<Rightarrow> (nat \<Rightarrow> rat) \<Rightarrow> pystr \<Rightarrow> pystr \<Rightarrow> consumer_policy \<Rightarrow>
     'st \<Rightarrow> 'r metrics \<Rightarrow> (exn + outcome) \<times> 'st \<times> 'r metrics" where
  "process get transition S P env1 env2 clk payload payload_id policy st m =
     (if payload = [] \<or> payload_id = []
      then (Inl (InvalidPayloadError (lit ''payload and payload_id are required'')), st, m)
      else case state_key (sv_sha256 S) (cp_consumer_id policy) payload_id of
        Inl e \<Rightarrow> (Inl e, st, m)
      | Inr key \<Rightarrow>
          (case get env1 key st of
             (Inl e, st1) \<Rightarrow> (Inl e, st1, m)
           | (Inr found, st1) \<Rightarrow>
               (case (if found \<noteq> None then Inr None
                      else ebind (prepare_mask S payload key policy) (\<lambda>s. Inr (Some s))) of
                  Inl e \<Rightarrow> (Inl e, st1, m)
                | Inr prepared \<Rightarrow>
                    (case transition env2 key
                            (\<lambda>current. ebind (transition_state S current payload key policy prepared)
                                         (\<lambda>s. Inr (Some s))) st1 of
                       (Inl e, st2) \<Rightarrow> (Inl e, st2, m)
                     | (Inr state, st2) \<Rightarrow>
                         (case outcome_from_state state of
                            Inl e \<Rightarrow> (Inl e, st2, m)
                          | Inr oc \<Rightarrow>
                              (case record_outcome P
                                      (oc\<lparr>oc_duration_ms := elapsed_ms clk 0 7,
                                          oc_stage_timings := stage_timings clk (prepared \<noteq> None)\<rparr>)
                                      payload m of
                                 (r, m') \<Rightarrow> (r, st2, m')))))))"

section \<open>The lifecycle\<close>

text \<open>
  What a request does to the record of its key: the abstract specification of the service, a
  function of the record alone.
\<close>

definition lifecycle :: "services \<Rightarrow> consumer_policy \<Rightarrow> pystr \<Rightarrow> pystr \<Rightarrow> rstate option \<Rightarrow> exn + rstate" where
  "lifecycle S policy key payload current = transition_state S current payload key policy None"

definition services_ok :: "services \<Rightarrow> consumer_policy \<Rightarrow> pystr \<Rightarrow> bool" where
  "services_ok S policy payload \<longleftrightarrow> (\<forall>x. list_all is_scalar (sv_sha256 S x)) \<and> (\<forall>key s. list_all is_scalar key \<longrightarrow>
     prepare_mask S payload key policy = Inr s \<longrightarrow> state_ok s)"

lemma prepare_mask_fields:
  "prepare_mask S payload key policy = Inr s \<Longrightarrow>
     rs_payload_id s = key \<and> rs_original_text s = payload \<and> rs_state s = MASKED
     \<and> rs_consumer_id s = cp_consumer_id policy \<and> hash_payload (sv_blake2b S) payload = Inr (rs_original_hash s)"
  by (auto simp: prepare_mask_def ebind_eq_Inr Let_def)

lemma transition_prepared:
  "prepare_mask S payload key policy = Inr s \<Longrightarrow>
   transition_state S cur payload key policy (Some s) = lifecycle S policy key payload cur"
  by (simp add: lifecycle_def transition_state_def split: option.split)

lemma hash_payload_encodes: "hash_payload h p = Inr x \<Longrightarrow> \<exists>bs. encode p = Inr bs"
  by (auto simp: hash_payload_def ebind_eq_Inr)

text \<open>The record after a request is a proper one, and its payload can be encoded.\<close>

lemma lifecycle_ok:
  assumes ok: "services_ok S policy payload" and key: "list_all is_scalar key"
    and cur: "\<And>c. cur = Some c \<Longrightarrow> state_ok c \<and> rs_payload_id c = key"
    and run: "lifecycle S policy key payload cur = Inr s"
  shows "state_ok s \<and> rs_payload_id s = key \<and> (\<exists>bs. encode payload = Inr bs)"
proof (cases cur)
  case None
  with run have p: "prepare_mask S payload key policy = Inr s"
    by (simp add: lifecycle_def transition_state_def)
  with ok key have "state_ok s" by (auto simp: services_ok_def)
  with prepare_mask_fields [OF p] hash_payload_encodes show ?thesis by blast
next
  case (Some c)
  with cur have c: "state_ok c" "rs_payload_id c = key" by auto
  then have "state_ok (c\<lparr>rs_state := DEMASKED\<rparr>)" by (simp add: state_ok_def)
  moreover have "\<exists>bs. encode (rs_masked_text c) = Inr bs"
    using c(1) encode_total [of "rs_masked_text c"] by (simp add: state_ok_def)
  ultimately show ?thesis using run c hash_payload_encodes [of "sv_blake2b S" payload]
    by (auto simp: lifecycle_def transition_state_def Some ebind_eq_Inr demask_state_def split: if_splits)
qed

lemma state_key_scalar:
  "services_ok S policy payload \<Longrightarrow> state_key (sv_sha256 S) c p = Inr key \<Longrightarrow> list_all is_scalar key"
  using encode_total [of "c @ [0] @ p"] lit_scalar [of "'':''"]
  by (auto simp: services_ok_def state_key_def ebind_eq_Inr)

section \<open>The service refines the lifecycle\<close>

lemma demasked_already: "rs_state c \<noteq> MASKED \<Longrightarrow> c\<lparr>rs_state := DEMASKED\<rparr> = c"
  by (cases "rs_state c"; cases c) simp_all

text \<open>What the caller sees of a record: its outcome with the timings of the call\<close>

definition answers :: "rstate \<Rightarrow> exn + outcome \<Rightarrow> bool" where
  "answers s r \<longleftrightarrow> (\<exists>d ts. r = Inr ((outcome_of s)\<lparr>oc_duration_ms := d, oc_stage_timings := ts\<rparr>))"

lemma answersD:
  "answers s r \<Longrightarrow> \<exists>oc. r = Inr oc \<and> oc_operation oc = oc_operation (outcome_of s)
     \<and> oc_result oc = oc_result (outcome_of s)"
  by (auto simp: answers_def)

lemma record_outcome_answers:
  "encode payload = Inr bs \<Longrightarrow>
   \<exists>m'. record_outcome P ((outcome_of s)\<lparr>oc_duration_ms := d, oc_stage_timings := ts\<rparr>) payload m
     = (Inr ((outcome_of s)\<lparr>oc_duration_ms := d, oc_stage_timings := ts\<rparr>), m')"
  by (simp add: record_outcome_def Let_def)

text \<open>A request to the service, with what it meets\<close>

record 'env request =
  rq_services :: services
  rq_policy :: consumer_policy
  rq_payload :: pystr
  rq_payload_id :: pystr
  rq_env_get :: 'env
  rq_env_trans :: 'env
  rq_clk :: "nat \<Rightarrow> rat"

definition serve ::
    "('env \<Rightarrow> pystr \<Rightarrow> 'st \<Rightarrow> (exn + rstate option) \<times> 'st) \<Rightarrow>
     ('env \<Rightarrow> pystr \<Rightarrow> transition_fn \<Rightarrow> 'st \<Rightarrow> (exn + rstate option) \<times> 'st) \<Rightarrow>
     'r collectors \<Rightarrow> 'env request \<Rightarrow> 'st \<Rightarrow> 'r metrics \<Rightarrow> (exn + outcome) \<times> 'st \<times> 'r metrics" where
  "serve get transition P q st m =
     process get transition (rq_services q) P (rq_env_get q) (rq_env_trans q) (rq_clk q)
       (rq_payload q) (rq_payload_id q) (rq_policy q) st m"

fun serve_all ::
    "('env \<Rightarrow> pystr \<Rightarrow> 'st \<Rightarrow> (exn + rstate option) \<times> 'st) \<Rightarrow>
     ('env \<Rightarrow> pystr \<Rightarrow> transition_fn \<Rightarrow> 'st \<Rightarrow> (exn + rstate option) \<times> 'st) \<Rightarrow>
     'r collectors \<Rightarrow> 'env request list \<Rightarrow> 'st \<Rightarrow> 'r metrics \<Rightarrow> 'st \<times> 'r metrics" where
  "serve_all get transition P [] st m = (st, m)"
| "serve_all get transition P (q # qs) st m =
     (case serve get transition P q st m of (r, st', m') \<Rightarrow> serve_all get transition P qs st' m')"

text \<open>The requests come one after the other from \<open>t0\<close> to \<open>t1\<close>, each within its engines' contract.\<close>

fun in_time ::
    "('env \<Rightarrow> bool) \<Rightarrow> ('env \<Rightarrow> rat) \<Rightarrow> ('env \<Rightarrow> rat) \<Rightarrow> ('env \<Rightarrow> rat) \<Rightarrow> rat \<Rightarrow> 'env request list \<Rightarrow> rat \<Rightarrow> bool" where
  "in_time ok tg tt te t0 [] t1 = (t0 \<le> t1)"
| "in_time ok tg tt te t0 (q # qs) t1 =
     (ok (rq_env_get q) \<and> ok (rq_env_trans q) \<and> t0 \<le> tg (rq_env_get q) \<and> tg (rq_env_get q) \<le> tt (rq_env_trans q)
      \<and> services_ok (rq_services q) (rq_policy q) (rq_payload q) \<and> in_time ok tg tt te (te (rq_env_trans q)) qs t1)"

context restoration_store
begin

text \<open>A rejected request\<close>

definition unchanged :: "'st \<Rightarrow> 'st \<Rightarrow> rat \<Rightarrow> bool" where
  "unchanged st st' t0 \<longleftrightarrow> inv st' \<and> life st' = life st \<and> (\<forall>q t. t0 \<le> t \<longrightarrow> look st' q t = look st q t)"

lemma process_reject:
  assumes inv: "inv st" and env: "envok env1" "envok env2" "tget env1 \<le> ttrans env2"
    and payload: "payload \<noteq> []" "payload_id \<noteq> []"
    and key: "state_key (sv_sha256 S) (cp_consumer_id policy) payload_id = Inr key" "list_all is_scalar key"
    and run: "lifecycle S policy key payload (look st key (ttrans env2)) = Inl e"
  shows "\<exists>st'. process get transition S P env1 env2 clk payload payload_id policy st m = (Inl e, st', m)
     \<and> unchanged st st' (ttrans env2)"
proof -
  from get_law [OF inv env(1) key(2)] obtain st1 where
    st1: "get env1 key st = (Inr (look st key (tget env1)), st1)" "inv st1" "life st1 = life st"
      "\<forall>q t. tget env1 \<le> t \<longrightarrow> look st1 q t = look st q t" by blast
  have cur: "look st1 key (ttrans env2) = look st key (ttrans env2)" using st1(4) env(3) by blast
  have trans: "\<exists>st'. transition env2 key (\<lambda>current. ebind (transition_state S current payload key policy prepared)
        (\<lambda>s. Inr (Some s))) st1 = (Inl e, st') \<and> unchanged st st' (ttrans env2)"
    if "transition_state S (look st key (ttrans env2)) payload key policy prepared = Inl e" for prepared
    using raise_law [OF st1(2) env(2) key(2), of "\<lambda>current. ebind (transition_state S current payload key policy
        prepared) (\<lambda>s. Inr (Some s))" e] that st1 cur env(3) unfolding unchanged_def by fastforce
  show ?thesis
  proof (cases "look st key (tget env1)")
    case None
    show ?thesis
    proof (cases "prepare_mask S payload key policy")
      case (Inl e')
      have "look st key (ttrans env2) = None" using look_expiry [OF inv None env(3)] .
      with run Inl have "e' = e" by (simp add: lifecycle_def transition_state_def)
      then show ?thesis
        using payload key st1 None Inl env(3) by (auto simp: process_def unchanged_def)
    next
      case (Inr s)
      from trans [of "Some s"] transition_prepared [OF Inr] run obtain st' where
        "transition env2 key (\<lambda>current. ebind (transition_state S current payload key policy (Some s))
          (\<lambda>s. Inr (Some s))) st1 = (Inl e, st')" "unchanged st st' (ttrans env2)" by auto
      then show ?thesis using payload key st1 None Inr by (simp add: process_def)
    qed
  next
    case (Some c)
    from trans [of None] run obtain st' where
      "transition env2 key (\<lambda>current. ebind (transition_state S current payload key policy None)
        (\<lambda>s. Inr (Some s))) st1 = (Inl e, st')" "unchanged st st' (ttrans env2)"
      by (auto simp: lifecycle_def)
    then show ?thesis using payload key st1 Some by (simp add: process_def)
  qed
qed

text \<open>An accepted request: the new record is stored and answered, unless the store refuses a new key.\<close>

definition advanced :: "'st \<Rightarrow> 'st \<Rightarrow> pystr \<Rightarrow> rstate \<Rightarrow> rat \<Rightarrow> bool" where
  "advanced st st' key s t0 \<longleftrightarrow> inv st' \<and> life st' = life st
     \<and> (\<forall>q t. q \<noteq> key \<longrightarrow> t0 \<le> t \<longrightarrow> look st' q t = look st q t)
     \<and> (\<forall>t. t < t0 + life st \<longrightarrow> look st' key t = Some s)"

lemma transition_accept:
  assumes inv: "inv st" and env: "envok env" and s: "state_ok s" "rs_payload_id s = key"
    and fn: "fn (look st key (ttrans env)) = Inr (Some s)"
  shows "\<exists>r st'. transition env key fn st = (r, st')
     \<and> (r = Inr (Some s) \<and> advanced st st' key s (tend env)
        \<or> look st key (ttrans env) = None \<and> (\<exists>e. r = Inl e \<and> is_domain_error e) \<and> unchanged st st' (tend env))"
proof -
  from commit_law [where fn = fn, OF inv env fn s] obtain r st' where
    r: "transition env key fn st = (r, st')" "inv st'" "life st' = life st"
      "\<forall>q t. q \<noteq> key \<longrightarrow> tend env \<le> t \<longrightarrow> look st' q t = look st q t"
      "r = Inr (Some s) \<and> (\<forall>t. t < tend env + life st \<longrightarrow> look st' key t = Some s)
       \<or> look st key (ttrans env) = None \<and> is_domain_error (projl r) \<and> (\<exists>e. r = Inl e)
         \<and> (\<forall>t. tend env \<le> t \<longrightarrow> look st' key t = look st key t)" by blast
  from r(5) show ?thesis
  proof
    assume "r = Inr (Some s) \<and> (\<forall>t. t < tend env + life st \<longrightarrow> look st' key t = Some s)"
    with r(1-4) show ?thesis unfolding advanced_def by blast
  next
    assume a: "look st key (ttrans env) = None \<and> is_domain_error (projl r) \<and> (\<exists>e. r = Inl e)
       \<and> (\<forall>t. tend env \<le> t \<longrightarrow> look st' key t = look st key t)"
    with r(4) have "\<forall>q t. tend env \<le> t \<longrightarrow> look st' q t = look st q t" by metis
    with a r(1-3) show ?thesis unfolding unchanged_def by fastforce
  qed
qed

lemma process_accept:
  assumes inv: "inv st" and env: "envok env1" "envok env2" "tget env1 \<le> ttrans env2"
    and ok: "services_ok S policy payload" and payload: "payload \<noteq> []" "payload_id \<noteq> []"
    and key: "state_key (sv_sha256 S) (cp_consumer_id policy) payload_id = Inr key"
    and run: "lifecycle S policy key payload (look st key (ttrans env2)) = Inr s"
  shows "\<exists>r st' m'. process get transition S P env1 env2 clk payload payload_id policy st m = (r, st', m')
     \<and> (answers s r \<and> advanced st st' key s (tend env2)
        \<or> look st key (ttrans env2) = None \<and> (\<exists>e. r = Inl e \<and> is_domain_error e) \<and> unchanged st st' (tend env2))"
proof -
  have sc: "list_all is_scalar key" using state_key_scalar [OF ok key] .
  from get_law [OF inv env(1) sc] obtain st1 where
    st1: "get env1 key st = (Inr (look st key (tget env1)), st1)" "inv st1" "life st1 = life st"
      "\<forall>q t. tget env1 \<le> t \<longrightarrow> look st1 q t = look st q t" by blast
  have cur: "look st1 key (ttrans env2) = look st key (ttrans env2)" using st1(4) env(3) by blast
  have late: "\<forall>q t. tend env2 \<le> t \<longrightarrow> look st1 q t = look st q t"
    using st1(4) env(3) times_law [OF env(2)] by force
  from lifecycle_ok [OF ok sc _ run] look_ok [OF inv] obtain bs where
    s: "state_ok s" "rs_payload_id s = key" and bs: "encode payload = Inr bs" by blast
  define prep where "prep = (if look st key (tget env1) \<noteq> None then Inr None
    else ebind (prepare_mask S payload key policy) (\<lambda>s. Inr (Some s)))"
  have "\<exists>prepared. prep = Inr prepared
     \<and> transition_state S (look st key (ttrans env2)) payload key policy prepared = Inr s"
  proof (cases "look st key (tget env1)")
    case None
    then have "look st key (ttrans env2) = None" using look_expiry [OF inv _ env(3)] by blast
    with run have p: "prepare_mask S payload key policy = Inr s" by (simp add: lifecycle_def transition_state_def)
    with None transition_prepared [OF p] run show ?thesis by (simp add: prep_def)
  next
    case (Some c)
    with run show ?thesis by (simp add: prep_def lifecycle_def)
  qed
  then obtain prepared where prepared: "prep = Inr prepared"
    "transition_state S (look st key (ttrans env2)) payload key policy prepared = Inr s" by blast
  let ?fn = "\<lambda>current. ebind (transition_state S current payload key policy prepared) (\<lambda>s. Inr (Some s))"
  have "?fn (look st1 key (ttrans env2)) = Inr (Some s)" using prepared(2) cur by simp
  from transition_accept [where fn = ?fn, OF st1(2) env(2) s this] obtain r st' where
    r: "transition env2 key ?fn st1 = (r, st')"
      "r = Inr (Some s) \<and> advanced st1 st' key s (tend env2)
       \<or> look st1 key (ttrans env2) = None \<and> (\<exists>e. r = Inl e \<and> is_domain_error e) \<and> unchanged st1 st' (tend env2)"
    by blast
  from r(2) show ?thesis
  proof
    assume a: "r = Inr (Some s) \<and> advanced st1 st' key s (tend env2)"
    then have adv: "advanced st st' key s (tend env2)" using late st1(3) unfolding advanced_def by force
    let ?oc = "(outcome_of s)\<lparr>oc_duration_ms := elapsed_ms clk 0 7, oc_stage_timings := stage_timings clk (prepared \<noteq> None)\<rparr>"
    from record_outcome_answers [OF bs] obtain m' where
      m': "record_outcome P ?oc payload m = (Inr ?oc, m')" by blast
    have "process get transition S P env1 env2 clk payload payload_id policy st m = (Inr ?oc, st', m')"
      using payload key st1(1) prepared(1) r(1) a m'
      by (simp add: process_def prep_def outcome_from_state_def)
    moreover have "answers s (Inr ?oc)" unfolding answers_def by blast
    ultimately show ?thesis using adv by blast
  next
    assume a: "look st1 key (ttrans env2) = None \<and> (\<exists>e. r = Inl e \<and> is_domain_error e) \<and> unchanged st1 st' (tend env2)"
    then obtain e where e: "r = Inl e" "is_domain_error e" by blast
    have "process get transition S P env1 env2 clk payload payload_id policy st m = (Inl e, st', m)"
      using payload key st1(1) prepared(1) r(1) e by (simp add: process_def prep_def)
    moreover have "unchanged st st' (tend env2)"
      using a late st1(3) unfolding unchanged_def by force
    ultimately show ?thesis using a e cur by auto
  qed
qed

text \<open>Every request either leaves all records alone or moves the record of its key on.\<close>

lemma process_effect:
  assumes inv: "inv st" and env: "envok env1" "envok env2" "tget env1 \<le> ttrans env2"
    and ok: "services_ok S policy payload"
  shows "\<exists>r st' m'. process get transition S P env1 env2 clk payload payload_id policy st m = (r, st', m')
     \<and> ((\<exists>e. r = Inl e) \<and> unchanged st st' (tend env2)
        \<or> (\<exists>key s. state_key (sv_sha256 S) (cp_consumer_id policy) payload_id = Inr key
             \<and> lifecycle S policy key payload (look st key (ttrans env2)) = Inr s
             \<and> answers s r \<and> advanced st st' key s (tend env2)))"
proof (cases "payload = [] \<or> payload_id = []")
  case True
  then show ?thesis using inv by (auto simp: process_def unchanged_def)
next
  case False
  show ?thesis
  proof (cases "state_key (sv_sha256 S) (cp_consumer_id policy) payload_id")
    case (Inl e)
    then show ?thesis using False inv by (auto simp: process_def unchanged_def)
  next
    case (Inr key)
    show ?thesis
    proof (cases "lifecycle S policy key payload (look st key (ttrans env2))")
      case (Inl e)
      from process_reject [OF inv env _ _ Inr state_key_scalar [OF ok Inr] Inl] False obtain st' where
        "process get transition S P env1 env2 clk payload payload_id policy st m = (Inl e, st', m)"
        "unchanged st st' (ttrans env2)" by blast
      moreover from this(2) have "unchanged st st' (tend env2)"
        using times_law [OF env(2)] unfolding unchanged_def by force
      ultimately show ?thesis by blast
    next
      case s: (Inr s)
      from False have ne: "payload \<noteq> []" "payload_id \<noteq> []" by auto
      from process_accept [OF inv env ok ne Inr s, of P clk m] obtain r st' m' where
        r: "process get transition S P env1 env2 clk payload payload_id policy st m = (r, st', m')"
          "answers s r \<and> advanced st st' key s (tend env2)
           \<or> (\<exists>e. r = Inl e) \<and> unchanged st st' (tend env2)" by auto
      show ?thesis
        by (intro exI [of _ r] exI [of _ st'] exI [of _ m'] conjI r(1)) (use r(2) Inr s in auto)
    qed
  qed
qed

text \<open>The record \<open>c\<close> is there from \<open>t0\<close> to \<open>t1\<close>, demasked or not.\<close>

definition keeps :: "'st \<Rightarrow> pystr \<Rightarrow> rstate \<Rightarrow> rat \<Rightarrow> rat \<Rightarrow> bool" where
  "keeps st key c t0 t1 \<longleftrightarrow>
     (\<forall>t. t0 \<le> t \<longrightarrow> t < t1 \<longrightarrow> look st key t = Some c \<or> look st key t = Some (c\<lparr>rs_state := DEMASKED\<rparr>))"

lemma lifecycle_keeps:
  "lifecycle S policy key payload (Some c) = Inr s \<Longrightarrow> s = c \<or> s = c\<lparr>rs_state := DEMASKED\<rparr>"
  by (auto simp: lifecycle_def transition_state_def ebind_eq_Inr demask_state_def split: if_splits)

lemma process_keeps:
  assumes inv: "inv st" and env: "envok env1" "envok env2" "tget env1 \<le> ttrans env2" "t0 \<le> tget env1"
    and ok: "services_ok S policy payload" and c: "keeps st key c t0 t1" and t1: "t1 \<le> t0 + life st"
    and run: "process get transition S P env1 env2 clk payload payload_id policy st m = (r, st', m')"
  shows "inv st' \<and> life st' = life st \<and> t0 \<le> tend env2 \<and> keeps st' key c (tend env2) t1"
proof -
  have le: "t0 \<le> ttrans env2" "ttrans env2 \<le> tend env2" using env times_law [OF env(2)] by auto
  from process_effect [OF inv env(1-3) ok, of P clk payload_id m] run consider
    (same) "unchanged st st' (tend env2)"
    | (moved) k s where "lifecycle S policy k payload (look st k (ttrans env2)) = Inr s"
        "advanced st st' k s (tend env2)" by auto
  then show ?thesis
  proof cases
    case same
    with c le show ?thesis unfolding unchanged_def keeps_def by auto
  next
    case moved
    have "keeps st' key c (tend env2) t1"
    proof (cases "k = key \<and> ttrans env2 < t1")
      case True
      with c le have "look st key (ttrans env2) = Some c \<or> look st key (ttrans env2) = Some (c\<lparr>rs_state := DEMASKED\<rparr>)"
        unfolding keeps_def by blast
      with moved(1) True have "s = c \<or> s = c\<lparr>rs_state := DEMASKED\<rparr>" using lifecycle_keeps by fastforce
      moreover have "t1 \<le> tend env2 + life st" using t1 le by linarith
      ultimately show ?thesis using moved(2) True unfolding advanced_def keeps_def by force
    next
      case False
      then consider "k \<noteq> key" | "t1 \<le> tend env2" using le by linarith
      then show ?thesis
      proof cases
        case 1
        with moved(2) c le show ?thesis unfolding advanced_def keeps_def by auto
      next
        case 2
        then show ?thesis unfolding keeps_def by auto
      qed
    qed
    with moved(2) le show ?thesis unfolding advanced_def by linarith
  qed
qed

lemma serve_all_keeps:
  assumes "inv st" and "in_time envok tget ttrans tend t0 qs t1" and "keeps st key c t0 T" and "T \<le> t0 + life st"
    and "serve_all get transition P qs st m = (st', m')"
  shows "inv st' \<and> life st' = life st \<and> t0 \<le> t1 \<and> keeps st' key c t1 T"
  using assms
proof (induction qs arbitrary: st m t0)
  case Nil
  then show ?case by (auto simp: keeps_def)
next
  case (Cons q qs)
  obtain r st1 m1 where q: "serve get transition P q st m = (r, st1, m1)" by (metis prod.exhaust)
  then have run: "process get transition (rq_services q) P (rq_env_get q) (rq_env_trans q) (rq_clk q)
      (rq_payload q) (rq_payload_id q) (rq_policy q) st m = (r, st1, m1)" by (simp add: serve_def)
  have e: "envok (rq_env_get q)" "envok (rq_env_trans q)" "tget (rq_env_get q) \<le> ttrans (rq_env_trans q)"
    "t0 \<le> tget (rq_env_get q)" "services_ok (rq_services q) (rq_policy q) (rq_payload q)" using Cons.prems(2) by auto
  note st1 = process_keeps [OF Cons.prems(1) e Cons.prems(3,4) run]
  from Cons.prems q have rest: "in_time envok tget ttrans tend (tend (rq_env_trans q)) qs t1"
    "serve_all get transition P qs st1 m1 = (st', m')" by auto
  have "T \<le> tend (rq_env_trans q) + life st1" using Cons.prems(4) st1 by linarith
  with Cons.IH [of st1 "tend (rq_env_trans q)" m1] st1 rest show ?case by auto
qed

text \<open>The first request of a key stores the record that it answers.\<close>

lemma first_mask:
  assumes inv: "inv st" and env: "envok env1" "envok env2" "tget env1 \<le> ttrans env2"
    and ok: "services_ok S policy payload"
    and key: "state_key (sv_sha256 S) (cp_consumer_id policy) payload_id = Inr key"
    and fresh: "look st key (ttrans env2) = None"
    and run: "process get transition S P env1 env2 clk payload payload_id policy st m = (Inr oc, st', m')"
  shows "\<exists>c. prepare_mask S payload key policy = Inr c \<and> oc_result oc = rs_masked_text c
     \<and> oc_operation oc = MASK \<and> inv st' \<and> life st' = life st \<and> keeps st' key c (tend env2) (tend env2 + life st)"
proof -
  from process_effect [OF inv env ok, of P clk payload_id m] run key obtain s where
    s: "lifecycle S policy key payload None = Inr s" "answers s (Inr oc)" "advanced st st' key s (tend env2)"
    using fresh by auto
  then have p: "prepare_mask S payload key policy = Inr s" by (simp add: lifecycle_def transition_state_def)
  with s(2) prepare_mask_fields [OF p] have "oc_result oc = rs_masked_text s" "oc_operation oc = MASK"
    by (auto simp: answers_def outcome_of_def make_outcome_def)
  with p s(3) show ?thesis unfolding advanced_def keeps_def by blast
qed

text \<open>Presenting the mask of a kept record, by the same consumer, gives the original back.\<close>

lemma demask_kept:
  assumes inv: "inv st" and env: "envok env1" "envok env2" "tget env1 \<le> ttrans env2"
    and ok: "services_ok S policy (rs_masked_text c)" and ids: "payload_id \<noteq> []"
    and key: "state_key (sv_sha256 S) (cp_consumer_id policy) payload_id = Inr key"
    and c: "keeps st key c t0 t1" "t0 \<le> ttrans env2" "ttrans env2 < t1" "rs_consumer_id c = cp_consumer_id policy"
    and demask: "cp_demasking_enabled policy" "rs_masked_text c \<noteq> []" "state_ok c"
      "hash_payload (sv_blake2b S) (rs_masked_text c) \<noteq> Inr (rs_original_hash c)"
  shows "\<exists>oc st' m'. process get transition S P env1 env2 clk (rs_masked_text c) payload_id policy st m = (Inr oc, st', m')
     \<and> oc_result oc = rs_original_text c \<and> oc_operation oc = DEMASK"
proof -
  let ?d = "c\<lparr>rs_state := DEMASKED\<rparr>"
  have look: "look st key (ttrans env2) = Some c \<or> look st key (ttrans env2) = Some ?d"
    using c unfolding keeps_def by blast
  have "\<exists>h. hash_payload (sv_blake2b S) (rs_masked_text c) = Inr h"
    using encode_total [of "rs_masked_text c"] demask(3) by (auto simp: hash_payload_def state_ok_def)
  with demask c(4) look have run: "lifecycle S policy key (rs_masked_text c) (look st key (ttrans env2)) = Inr ?d"
    by (auto simp: lifecycle_def transition_state_def demask_state_def demasked_already)
  from process_accept [OF inv env ok demask(2) ids key run] look obtain r st' m' where
    "process get transition S P env1 env2 clk (rs_masked_text c) payload_id policy st m = (r, st', m')" "answers ?d r"
    by fastforce
  moreover from this(2) have "\<exists>oc. r = Inr oc \<and> oc_result oc = rs_original_text c \<and> oc_operation oc = DEMASK"
    by (auto simp: answers_def outcome_of_def make_outcome_def)
  ultimately show ?thesis by blast
qed

end

end
