(* ===== verification/Pipeline.thy ===== *)
theory Pipeline
  imports Process
begin

text \<open>
  \<open>app/processing/secure_llm_pipeline.py\<close> with \<open>app/llm/base.py\<close> and \<open>mock.py\<close>: a text is masked,
  sent to a language model, and the masks in the answer are replaced by the originals.  The adapter
  is a parameter, a function that returns a text or raises.
\<close>

section \<open>Definitions\<close>

type_synonym llm_adapter = "pystr \<Rightarrow> exn + pystr"

definition MockLLMAdapter :: llm_adapter where
  "MockLLMAdapter prompt = Inr prompt"

record pipeline =
  pl_detect :: "pystr \<Rightarrow> detection_context \<Rightarrow> exn + detection_result"
  pl_mask :: "pystr \<Rightarrow> pii_entity list \<Rightarrow> strategy_map \<Rightarrow> pyval \<Rightarrow> exn + masking_result"
  pl_llm :: llm_adapter

definition restore :: "(pystr \<times> pystr) list \<Rightarrow> pystr \<Rightarrow> pystr" where
  "restore mappings llm_output =
     foldl (\<lambda>restored (replacement, original). str_replace replacement original restored) llm_output mappings"

definition pipeline_run :: "pipeline \<Rightarrow> pystr \<Rightarrow> consumer_policy \<Rightarrow> exn + pystr" where
  "pipeline_run L src policy =
     ebind (pl_detect L src (DetectionContext (cp_consumer_id policy))) (\<lambda>detection.
     let entities = enabled_entities policy detection in
     ebind (pl_mask L src entities (cp_masking policy) (cp_context_rules policy)) (\<lambda>masking.
     ebind (pl_llm L (mr_masked_text masking)) (\<lambda>llm_output.
       Inr (restore (mr_mappings masking) llm_output))))"

section \<open>Placeholders\<close>

text \<open>
  The placeholders of the tokenize and synthetic strategies are tokens: they begin with the only
  \<open><\<close> and end with the only \<open>>\<close> they contain.  In a text made of tokens and of pieces without \<open><\<close>
  a replacement touches exactly the pieces that are the token.
\<close>

definition is_token :: "pystr \<Rightarrow> bool" where
  "is_token x \<longleftrightarrow> x \<noteq> [] \<and> hd x = 60 \<and> 60 \<notin> set (tl x) \<and> last x = 62 \<and> 62 \<notin> set (butlast x)"

definition is_piece :: "pystr \<Rightarrow> bool" where
  "is_piece x \<longleftrightarrow> 60 \<notin> set x \<or> is_token x"

lemma token_prefix:
  assumes "is_token t" "is_token u" "prefix t (u @ s)"
  shows "t = u"
proof -
  have end1: "takeWhile ((\<noteq>) 62) (x @ r) = butlast x" if "is_token x" for x r
  proof -
    from that have x: "x = butlast x @ [62]" "62 \<notin> set (butlast x)"
      unfolding is_token_def by (metis append_butlast_last_id, simp)
    have "takeWhile ((\<noteq>) 62) (butlast x @ 62 # r) = butlast x"
      using x(2) by (subst takeWhile_append2) auto
    moreover have "x @ r = butlast x @ 62 # r" using x(1) by (metis append.assoc append_Cons append_Nil)
    ultimately show ?thesis by (simp only:)
  qed
  from assms(3) obtain r where "u @ s = t @ r" by (auto simp: prefix_def)
  with end1 [OF assms(1), of r] end1 [OF assms(2), of s] have "butlast t = butlast u" by simp
  with assms(1,2) show ?thesis unfolding is_token_def by (metis append_butlast_last_id)
qed

lemma str_replace_plain:
  "is_token t \<Longrightarrow> 60 \<notin> set x \<Longrightarrow> str_replace t new (x @ s) = x @ str_replace t new s"
proof (induction x)
  case (Cons c x)
  then have "\<not> prefix t (c # x @ s)" by (cases t) (auto simp: is_token_def)
  with Cons show ?case by (simp add: str_replace_skip is_token_def)
qed simp

lemma str_replace_other:
  assumes "is_token t" "is_token u" "t \<noteq> u"
  shows "str_replace t new (u @ s) = u @ str_replace t new s"
proof -
  from assms(2) obtain y where u: "u = 60 # y" "60 \<notin> set y" by (cases u) (auto simp: is_token_def)
  have "\<not> prefix t (60 # y @ s)" using token_prefix [OF assms(1,2), of s] assms(3) u by auto
  with u assms(1) str_replace_plain [OF assms(1) u(2)] show ?thesis
    by (simp add: str_replace_skip is_token_def)
qed

lemma str_replace_pieces:
  assumes "is_token t" "list_all is_piece xs"
  shows "str_replace t new (concat xs) = concat (map (\<lambda>x. if x = t then new else x) xs)"
  using assms(2)
proof (induction xs)
  case Nil
  then show ?case using assms(1) by (auto simp: is_token_def)
next
  case (Cons x xs)
  consider "x = t" | "x \<noteq> t" "is_token x" | "x \<noteq> t" "60 \<notin> set x"
    using Cons.prems by (auto simp: is_piece_def)
  then show ?case
    using Cons str_replace_plain [OF assms(1)] str_replace_other [OF assms(1)] assms(1)
    by cases (auto simp: str_replace_hit is_token_def)
qed

text \<open>What restoring does to the pieces of an answer\<close>

definition fill :: "(pystr \<times> pystr) list \<Rightarrow> pystr \<Rightarrow> pystr" where
  "fill mappings x = (case map_of mappings x of None \<Rightarrow> x | Some original \<Rightarrow> original)"

lemma restore_pieces:
  assumes "\<forall>(r, v) \<in> set mps. is_token r \<and> 60 \<notin> set v" and "list_all is_piece xs"
  shows "restore mps (concat xs) = concat (map (fill mps) xs)"
  using assms
proof (induction mps arbitrary: xs)
  case Nil
  then show ?case by (simp add: restore_def fill_def cong: map_cong)
next
  case (Cons m mps)
  obtain r v where m: "m = (r, v)" by (cases m)
  with Cons.prems have r: "is_token r" "60 \<notin> set v" by auto
  let ?ys = "map (\<lambda>x. if x = r then v else x) xs"
  have step: "restore (m # mps) (concat xs) = restore mps (concat ?ys)"
    using str_replace_pieces [OF r(1) Cons.prems(2)] by (simp add: restore_def m)
  have ok: "list_all is_piece ?ys" using Cons.prems(2) r(2) by (auto simp: list_all_iff is_piece_def)
  have "v \<notin> fst ` set mps" using Cons.prems(1) r(2) by (cases v) (fastforce simp: is_token_def)+
  then have "map_of mps v = None" by (simp add: map_of_eq_None_iff)
  then have fill: "map (fill mps) ?ys = map (fill (m # mps)) xs" by (auto simp: m fill_def)
  have "restore mps (concat ?ys) = concat (map (fill mps) ?ys)"
    using Cons.IH [OF _ ok] Cons.prems(1) by simp
  with step fill show ?case by (simp only:)
qed

lemma token_text:
  assumes "60 \<notin> set y" "62 \<notin> set y"
  shows "is_token (60 # y @ [62])"
  using assms by (simp add: is_token_def butlast_append)

lemma hex_digit_plain: "60 \<noteq> hex_digit d \<and> 62 \<noteq> hex_digit d"
  by (simp add: hex_digit_def)

lemma token_hex8_plain: "60 \<notin> set (token_hex8 n) \<and> 62 \<notin> set (token_hex8 n)"
  using hex_digit_plain by (auto simp: token_hex8_def)

lemma pii_value_plain: "60 \<notin> set (pii_value t) \<and> 62 \<notin> set (pii_value t)"
  by (cases t) (simp_all add: lit_def)

abbreviation placeholder :: "strategy_map \<Rightarrow> pii_type \<Rightarrow> bool" where
  "placeholder sbt t \<equiv> strategy_for sbt t = TOKENIZE \<or> strategy_for sbt t = SYNTHETIC"

lemma tokenize_shape:
  "tokenize_mask r e = 60 # (lit ''TOKEN:'' @ pii_value (e_type e) @ lit '':'' @ token_hex8 r) @ [62]"
  "synthetic_mask r e = 60 # (lit ''SYNTHETIC:'' @ pii_value (e_type e) @ lit '':'' @ token_hex8 r) @ [62]"
  by (simp_all add: tokenize_mask_def synthetic_mask_def lit_def)

lemma placeholder_is_token: "is_token (tokenize_mask r e)" "is_token (synthetic_mask r e)"
  unfolding tokenize_shape
  by (rule token_text; use token_hex8_plain [of r] pii_value_plain [of "e_type e"] in \<open>simp add: lit_def\<close>)+

lemma placeholder_token:
  "placeholder sbt (e_type e) \<Longrightarrow> strategy_mask U r (strategy_for sbt (e_type e)) e = Inr x \<Longrightarrow>
   is_token x \<and> (\<exists>y. x = y @ token_hex8 r @ [62])"
  by (auto simp: placeholder_is_token) (simp_all add: tokenize_shape)

section \<open>The pieces of a masked text\<close>

fun splice_pieces :: "pystr \<Rightarrow> int \<Rightarrow> (pii_entity \<times> pystr) list \<Rightarrow> pystr list" where
  "splice_pieces src cur [] = [py_from src cur]"
| "splice_pieces src cur ((e, r) # ers) = py_slice src cur (e_start e) # r # splice_pieces src (e_end e) ers"

lemma concat_splice_pieces: "concat (splice_pieces src cur ers) = splice src cur ers"
  by (induction src cur ers rule: splice_pieces.induct) simp_all

lemma plain_slices:
  "60 \<notin> set src \<Longrightarrow> 60 \<notin> set (py_slice src a b) \<and> 60 \<notin> set (py_from src a)"
  using set_py_slice [of "src" a b] by (auto simp: py_from_def dest: in_set_dropD)

lemma pieces_of_splice:
  "60 \<notin> set src \<Longrightarrow> list_all is_token (map snd ers) \<Longrightarrow> list_all is_piece (splice_pieces src cur ers)"
  by (induction src cur ers rule: splice_pieces.induct) (auto simp: is_piece_def plain_slices)

lemma fill_plain:
  assumes "\<forall>(r, v) \<in> set mps. is_token r" and "60 \<notin> set x"
  shows "fill mps x = x"
proof -
  have "x \<notin> fst ` set mps" using assms by (cases x) (fastforce simp: is_token_def)+
  then have "map_of mps x = None" by (simp add: map_of_eq_None_iff)
  then show ?thesis by (simp add: fill_def)
qed

lemma fill_splice:
  "60 \<notin> set src \<Longrightarrow> \<forall>(r, v) \<in> set mps. is_token r \<Longrightarrow>
   concat (map (fill mps) (splice_pieces src cur ers)) = splice src cur (map (\<lambda>(e, r). (e, fill mps r)) ers)"
  by (induction src cur ers rule: splice_pieces.induct) (auto simp: plain_slices fill_plain)

text \<open>What the mask of a text with placeholders looks like\<close>

lemma mask_placeholders:
  assumes run: "mask U rnd clk src es sbt cr = Inr r"
    and sbt: "\<forall>e \<in> set es. placeholder sbt (e_type e)" and src: "60 \<notin> set src"
  shows "\<exists>ms reps. length reps = length ms \<and> mr_masked_text r = splice src 0 (zip ms reps)
    \<and> mr_mappings r = zip reps (map e_value ms) \<and> splice src 0 (zip ms (map e_value ms)) = src
    \<and> (\<forall>i < length ms. is_token (reps ! i) \<and> (\<exists>y. reps ! i = y @ token_hex8 (rnd i) @ [62]))
    \<and> (\<forall>e \<in> set ms. 60 \<notin> set (e_value e))"
proof -
  obtain rules where rules: "resolve_context_rules cr = Inr rules"
    using run by (auto simp: mask_def Let_def ebind_eq_Inr)
  let ?ms = "masked_entities src es rules"
  from mask_returns [OF run rules] obtain reps where reps: "length reps = length ?ms"
    "\<forall>i < length reps. strategy_mask U (rnd i) (strategy_for sbt (e_type (?ms ! i))) (?ms ! i) = Inr (reps ! i)"
    "mr_masked_text r = splice src 0 (zip ?ms reps)" "mr_mappings r = zip reps (map e_value ?ms)" by blast
  have ms: "e \<in> set es \<and> valid_span src e" if "e \<in> set ?ms" for e
    using that select_spans_valid [of e src es] by (auto simp: masked_entities_def Let_def)
  have "\<forall>i < length ?ms. is_token (reps ! i) \<and> (\<exists>y. reps ! i = y @ token_hex8 (rnd i) @ [62])"
    using reps(1,2) sbt ms placeholder_token by (metis nth_mem)
  moreover have "\<forall>e \<in> set ?ms. 60 \<notin> set (e_value e)"
    using ms plain_slices [OF src] by (metis valid_span_def)
  ultimately show ?thesis using reps splice_original [OF masked_entities_spans, of src es rules, unfolded py_from_0] by blast
qed

lemma mappings_tokens:
  fixes reps :: "pystr list"
  assumes "length reps = length ms" "\<forall>i < length ms. is_token (reps ! i)" "\<forall>e \<in> set ms. 60 \<notin> set (e_value e)"
  shows "\<forall>(r, v) \<in> set (zip reps (map e_value ms)). is_token r \<and> 60 \<notin> set v"
  using assms by (auto simp: set_zip)

section \<open>Properties\<close>

text \<open>
  C23: Placeholders are restored wherever the model puts them (functional).  Let every enabled type
  be masked by a placeholder and let the text hold no \<open><\<close>.  When the model answers with any
  sequence of tokens, in any order and number, and of pieces without \<open><\<close>, then the pipeline
  returns that sequence with each placeholder of the prompt replaced by its original and with
  everything else, unknown tokens included, as the model wrote it.
\<close>

theorem pipeline_restores:
  assumes "pl_mask L = mask U rnd clk" and "60 \<notin> set src"
    and "\<forall>t \<in> set (cp_enabled_types policy). placeholder (cp_masking policy) t"
    and "pl_detect L src (DetectionContext (cp_consumer_id policy)) = Inr d"
    and "mask U rnd clk src (enabled_entities policy d) (cp_masking policy) (cp_context_rules policy) = Inr r"
    and "pl_llm L (mr_masked_text r) = Inr (concat xs)" and "list_all is_piece xs"
  shows "pipeline_run L src policy = Inr (concat (map (fill (mr_mappings r)) xs))"
proof -
  have "\<forall>e \<in> set (enabled_entities policy d). placeholder (cp_masking policy) (e_type e)"
    using assms(3) by (simp add: enabled_entities_def)
  from mask_placeholders [OF assms(5) this assms(2)] mappings_tokens
  have "\<forall>(r, v) \<in> set (mr_mappings r). is_token r \<and> 60 \<notin> set v" by metis
  from restore_pieces [OF this assms(7)] assms show ?thesis by (simp add: pipeline_run_def Let_def)
qed

text \<open>
  Masking and restoring are inverse (round trip).  With the mock model, which repeats its prompt,
  placeholders for every enabled type, a text without \<open><\<close> and different random draws, the pipeline
  returns exactly the text it was given.
\<close>

theorem pipeline_roundtrip:
  assumes "pl_mask L = mask U rnd clk" and "pl_llm L = MockLLMAdapter" and src: "60 \<notin> set src"
    and sbt: "\<forall>t \<in> set (cp_enabled_types policy). placeholder (cp_masking policy) t"
    and "pl_detect L src (DetectionContext (cp_consumer_id policy)) = Inr d"
    and run: "mask U rnd clk src (enabled_entities policy d) (cp_masking policy) (cp_context_rules policy) = Inr r"
    and draws: "inj_on (\<lambda>i. token_hex8 (rnd i)) {..<length (mr_mappings r)}"
  shows "pipeline_run L src policy = Inr src"
proof -
  have "\<forall>e \<in> set (enabled_entities policy d). placeholder (cp_masking policy) (e_type e)"
    using sbt by (simp add: enabled_entities_def)
  from mask_placeholders [OF run this src] obtain ms reps where
    m: "length reps = length ms" "mr_masked_text r = splice src 0 (zip ms reps)"
      "mr_mappings r = zip reps (map e_value ms)" "splice src 0 (zip ms (map e_value ms)) = src"
      "\<forall>i < length ms. is_token (reps ! i) \<and> (\<exists>y. reps ! i = y @ token_hex8 (rnd i) @ [62])"
      "\<forall>e \<in> set ms. 60 \<notin> set (e_value e)" by blast
  have toks: "\<forall>(q, v) \<in> set (mr_mappings r). is_token q \<and> 60 \<notin> set v"
    using mappings_tokens [OF m(1) _ m(6)] m(3,5) by simp
  have len: "length (token_hex8 n) = 16" for n by (simp add: token_hex8_def)
  have "distinct reps"
  proof (rule distinct_conv_nth [THEN iffD2], intro allI impI)
    fix i j assume ij: "i < length reps" "j < length reps" "i \<noteq> j"
    with draws m(1,3) have "token_hex8 (rnd i) \<noteq> token_hex8 (rnd j)" by (auto dest: inj_onD)
    with ij m(1,5) len show "reps ! i \<noteq> reps ! j"
      by (metis append_eq_append_conv append_same_eq length_append)
  qed
  then have "fill (mr_mappings r) (reps ! i) = e_value (ms ! i)" if "i < length ms" for i
    using that m(1,3) by (simp add: fill_def map_of_zip_nth)
  then have vals: "map (\<lambda>(e, q). (e, fill (mr_mappings r) q)) (zip ms reps) = zip ms (map e_value ms)"
    using m(1) by (intro nth_equalityI) simp_all
  let ?xs = "splice_pieces src 0 (zip ms reps)"
  have reps: "list_all is_token (map snd (zip ms reps))" using m(1,5) by (simp add: list_all_length)
  have "restore (mr_mappings r) (concat ?xs) = concat (map (fill (mr_mappings r)) ?xs)"
    by (rule restore_pieces [OF toks pieces_of_splice [OF src reps]])
  moreover have "\<forall>(q, v) \<in> set (mr_mappings r). is_token q" using toks by auto
  ultimately have "restore (mr_mappings r) (mr_masked_text r) = src"
    using fill_splice [OF src, of "mr_mappings r" 0 "zip ms reps"] vals m(2,4) concat_splice_pieces by simp
  with assms show ?thesis by (simp add: pipeline_run_def Let_def MockLLMAdapter_def)
qed

section \<open>Examples\<close>

definition two_mails :: pystr where
  "two_mails = lit ''a@b.cc d@e.ff''"

definition mails_found :: detection_result where
  "mails_found = \<lparr>dr_entities = [PIIEntity EMAIL (lit ''a@b.cc'') 0 6 1 (lit ''regex''),
     PIIEntity EMAIL (lit ''d@e.ff'') 7 13 1 (lit ''regex'')], dr_processing_time = 0, dr_metadata = []\<rparr>"

definition mail_pipeline :: pipeline where
  "mail_pipeline = \<lparr>pl_detect = (\<lambda>_ _. Inr mails_found), pl_mask = mask ucd_ru (\<lambda>i. i) (\<lambda>_. 0),
     pl_llm = MockLLMAdapter\<rparr>"

definition mails_policy :: "strategy_map \<Rightarrow> consumer_policy" where
  "mails_policy m = ConsumerPolicy (lit ''c'')\<lparr>cp_enabled_types := [EMAIL], cp_masking := m\<rparr>"

lemma mails_selected:
  "select_spans two_mails (enabled_entities (mails_policy m) mails_found) = dr_entities mails_found"
  by (simp add: select_eval two_mails_def mails_found_def enabled_entities_def mails_policy_def ConsumerPolicy_def lit_def)

lemmas mail_eval = two_mails_def mails_found_def mails_policy_def ConsumerPolicy_def mask_def assemble_step_def
  assembly_init_def resolve_context_rules_def CONTEXT_REQUIRES_def strategy_for_def py_slice_def py_from_def
  clamp_ix_def lit_def insort_key_def

lemma mails_tokenized:
  "\<exists>r. mask ucd_ru (\<lambda>i. i) (\<lambda>_. 0) two_mails (enabled_entities (mails_policy [(EMAIL, TOKENIZE)]) mails_found)
       [(EMAIL, TOKENIZE)] (VList []) = Inr r
     \<and> mr_mappings r = [(tokenize_mask 0 (hd (dr_entities mails_found)), lit ''a@b.cc''),
                      (tokenize_mask 1 (hd (dr_entities mails_found)), lit ''d@e.ff'')]"
  using mails_selected [of "[(EMAIL, TOKENIZE)]"] by (simp add: mail_eval tokenize_mask_def)

lemma tokens_01: "token_hex8 0 \<noteq> token_hex8 (Suc 0)"
  by (simp add: token_hex8_def hex_digit_def upt_rec)

lemma tokens_differ: "inj_on (\<lambda>i. token_hex8 i) {..<2}"
  using tokens_01 by (auto simp: inj_on_def less_2_cases_iff)

lemma mails_plain: "60 \<notin> set two_mails"
  by (simp add: two_mails_def lit_def)

lemma mails_policy_sel [simp]:
  "cp_enabled_types (mails_policy m) = [EMAIL]" "cp_masking (mails_policy m) = m"
  "cp_context_rules (mails_policy m) = VList []" "cp_consumer_id (mails_policy m) = lit ''c''"
  by (simp_all add: mails_policy_def ConsumerPolicy_def)

theorem pipeline_roundtrip_witness:
  "pipeline_run mail_pipeline two_mails (mails_policy [(EMAIL, TOKENIZE)]) = Inr two_mails"
proof -
  from mails_tokenized obtain r where r: "mask ucd_ru (\<lambda>i. i) (\<lambda>_. 0) two_mails
      (enabled_entities (mails_policy [(EMAIL, TOKENIZE)]) mails_found) [(EMAIL, TOKENIZE)] (VList []) = Inr r"
    "length (mr_mappings r) = 2" by fastforce
  show ?thesis
    by (rule pipeline_roundtrip [where U = ucd_ru and rnd = "\<lambda>i. i" and clk = "\<lambda>_. 0" and d = mails_found and r = r])
       (simp_all add: mail_pipeline_def mails_plain strategy_for_def r tokens_differ)
qed

text \<open>A model that changes the order and repeats an address\<close>

definition chatty_answer :: "pystr list" where
  "chatty_answer = [tokenize_mask 1 (hd (dr_entities mails_found)), lit '' or '',
     tokenize_mask 0 (hd (dr_entities mails_found)), lit '', again '', tokenize_mask 1 (hd (dr_entities mails_found))]"

theorem pipeline_restores_witness:
  "pipeline_run (mail_pipeline\<lparr>pl_llm := \<lambda>_. Inr (concat chatty_answer)\<rparr>) two_mails (mails_policy [(EMAIL, TOKENIZE)])
     = Inr (lit ''d@e.ff or a@b.cc, again d@e.ff'')"
proof -
  from mails_tokenized obtain r where r: "mask ucd_ru (\<lambda>i. i) (\<lambda>_. 0) two_mails
      (enabled_entities (mails_policy [(EMAIL, TOKENIZE)]) mails_found) [(EMAIL, TOKENIZE)] (VList []) = Inr r"
    "mr_mappings r = [(tokenize_mask 0 (hd (dr_entities mails_found)), lit ''a@b.cc''),
                      (tokenize_mask 1 (hd (dr_entities mails_found)), lit ''d@e.ff'')]" by blast
  have ne: "tokenize_mask 0 e \<noteq> tokenize_mask 1 e" for e
    using tokens_01 by (simp add: tokenize_mask_def)
  have tok: "hd (tokenize_mask n e) = 60" for n e by (simp add: tokenize_mask_def lit_def)
  have plain: "x \<noteq> tokenize_mask n e" if "hd x \<noteq> 60" for x n e using that tok by metis
  have "list_all is_piece chatty_answer"
    by (simp add: chatty_answer_def is_piece_def placeholder_is_token) (simp add: lit_def)
  from pipeline_restores [where L = "mail_pipeline\<lparr>pl_llm := \<lambda>_. Inr (concat chatty_answer)\<rparr>",
      OF _ mails_plain _ _ _ _ this, where policy = "mails_policy [(EMAIL, TOKENIZE)]" and U = ucd_ru and rnd = "\<lambda>i. i"
        and clk = "\<lambda>_. 0" and d = mails_found and r = r] r
  have "pipeline_run (mail_pipeline\<lparr>pl_llm := \<lambda>_. Inr (concat chatty_answer)\<rparr>) two_mails
      (mails_policy [(EMAIL, TOKENIZE)]) = Inr (concat (map (fill (mr_mappings r)) chatty_answer))"
    by (simp add: mail_pipeline_def strategy_for_def)
  also have "concat (map (fill (mr_mappings r)) chatty_answer) = lit ''d@e.ff or a@b.cc, again d@e.ff''"
    using ne ne [symmetric] by (simp add: r(2) chatty_answer_def fill_def lit_def plain)
  finally show ?thesis .
qed

text \<open>
  Masks that collide are restored wrongly (safety, a flaw).  With the full mask, the default
  strategy, two different values of the same shape get the same mask, and the first original is put
  in both places: the pipeline does not return the text it was given.
\<close>

theorem pipeline_collides:
  "pipeline_run mail_pipeline two_mails (mails_policy []) = Inr (lit ''a@b.cc a@b.cc'')"
proof -
  have "\<exists>r. mask ucd_ru (\<lambda>i. i) (\<lambda>_. 0) two_mails (enabled_entities (mails_policy []) mails_found) [] (VList []) = Inr r
     \<and> mr_masked_text r = lit ''*@*.** *@*.**''
     \<and> mr_mappings r = [(lit ''*@*.**'', lit ''a@b.cc''), (lit ''*@*.**'', lit ''d@e.ff'')]"
    using mails_selected [of "[]"]
    by (simp add: mail_eval full_mask_def mask_all_alnum_def char_class_defs class_of_def ascii_class_def FULL_MASK_CHAR_def)
  then show ?thesis
    by (auto simp: pipeline_run_def mail_pipeline_def MockLLMAdapter_def restore_def lit_def str_replace.simps)
qed

end
