(* ===== verification/Logging.thy ===== *)
theory Logging
  imports Domain
begin

text \<open>
  \<open>app/observability/logging.py\<close>: the allowlist of \<open>JsonFormatter\<close> and the check of request ids.
  A log record is what the code passes to \<open>logger.info\<close> and the like; a formatted record is the
  dictionary that \<open>format\<close> hands to \<open>json.dumps\<close>.  The time stamp, the \<open>ContextVar\<close> with the
  current request id and the fresh UUID are arguments.
\<close>

section \<open>Definitions\<close>

definition LOGGER_NAME :: pystr where
  "LOGGER_NAME = lit ''pii_security_proxy''"

definition STRUCTURED_FIELDS :: "pystr list" where
  "STRUCTURED_FIELDS = map lit [''event'', ''request_id'', ''method'', ''path'', ''status_code'', ''operation'',
     ''consumer_id'', ''payload_id_hash'', ''detected_types'', ''entity_count'', ''duration_ms'', ''error_type'',
     ''exception_type'']"

record log_record =
  lr_level :: pystr
  lr_logger :: pystr
  lr_message :: pystr
  lr_extra :: "(pystr \<times> pyval) list"
  lr_exc_info :: "pystr option"

text \<open>\<open>get_logger(name)\<close>, and a call with the keyword \<open>extra\<close> and no exception\<close>

definition get_logger :: "string \<Rightarrow> pystr" where
  "get_logger name = LOGGER_NAME @ lit ''.'' @ lit name"

definition log_call :: "string \<Rightarrow> string \<Rightarrow> string \<Rightarrow> (string \<times> pyval) list \<Rightarrow> log_record" where
  "log_call level name message extra =
     \<lparr>lr_level = lit level, lr_logger = get_logger name, lr_message = lit message,
      lr_extra = map (\<lambda>(k, v). (lit k, v)) extra, lr_exc_info = None\<rparr>"

text \<open>\<open>getattr(record, field, default)\<close>\<close>

definition log_attr :: "log_record \<Rightarrow> pystr \<Rightarrow> pyval \<Rightarrow> pyval" where
  "log_attr r field dflt = (case map_of (lr_extra r) field of None \<Rightarrow> dflt | Some v \<Rightarrow> v)"

definition field_step :: "log_record \<Rightarrow> (pystr \<times> pyval) list \<Rightarrow> pystr \<Rightarrow> (pystr \<times> pyval) list" where
  "field_step r payload field =
     (let value = log_attr r field VNone
      in if value \<noteq> VNone then AList.update field value payload else payload)"

definition format_record :: "pystr \<Rightarrow> pyval \<Rightarrow> log_record \<Rightarrow> (pystr \<times> pyval) list" where
  "format_record timestamp current_id r =
     (let payload = [(lit ''timestamp'', VStr timestamp), (lit ''level'', VStr (lr_level r)),
            (lit ''logger'', VStr (lr_logger r)),
            (lit ''event'', log_attr r (lit ''event'') (VStr (lr_message r)))];
          attr_id = log_attr r (lit ''request_id'') VNone;
          request_id = (if truthy attr_id then attr_id else current_id);
          payload1 = (if request_id \<noteq> VNone then AList.update (lit ''request_id'') request_id payload else payload);
          payload2 = foldl (field_step r) payload1 STRUCTURED_FIELDS
      in case lr_exc_info r of None \<Rightarrow> payload2
         | Some exc_type \<Rightarrow> AList.update (lit ''exception_type'') (VStr exc_type) payload2)"

text \<open>\<open>^[A-Za-z0-9._-]{1,64}$\<close> with \<open>fullmatch\<close>\<close>

definition request_id_char :: "codepoint \<Rightarrow> bool" where
  "request_id_char c \<longleftrightarrow> 65 \<le> c \<and> c \<le> 90 \<or> 97 \<le> c \<and> c \<le> 122 \<or> 48 \<le> c \<and> c \<le> 57 \<or> c = 46 \<or> c = 95 \<or> c = 45"

definition REQUEST_ID_RE :: "pystr \<Rightarrow> bool" where
  "REQUEST_ID_RE s \<longleftrightarrow> 1 \<le> length s \<and> length s \<le> 64 \<and> list_all request_id_char s"

definition normalize_request_id :: "pystr \<Rightarrow> pystr option \<Rightarrow> pystr" where
  "normalize_request_id uuid candidate =
     (case candidate of None \<Rightarrow> uuid | Some c \<Rightarrow> if REQUEST_ID_RE c then c else uuid)"

section \<open>What a formatted record holds\<close>

lemma map_of_field_step:
  "map_of (field_step r p f) k = (if k = f \<and> log_attr r f VNone \<noteq> VNone then Some (log_attr r f VNone) else map_of p k)"
  by (simp add: field_step_def Let_def map_of_update)

lemma map_of_fields:
  "map_of (foldl (field_step r) p fs) k =
     (if k \<in> set fs \<and> log_attr r k VNone \<noteq> VNone then Some (log_attr r k VNone) else map_of p k)"
  by (induction fs arbitrary: p) (auto simp: map_of_field_step)

definition shown_id :: "pyval \<Rightarrow> log_record \<Rightarrow> pyval" where
  "shown_id cur r = (let v = log_attr r (lit ''request_id'') VNone in if truthy v then v else cur)"

definition head_fields :: "pystr \<Rightarrow> log_record \<Rightarrow> (pystr \<times> pyval) list" where
  "head_fields ts r = [(lit ''timestamp'', VStr ts), (lit ''level'', VStr (lr_level r)), (lit ''logger'', VStr (lr_logger r)),
     (lit ''event'', log_attr r (lit ''event'') (VStr (lr_message r)))]"

lemma log_fields_shown:
  "map_of (format_record ts cur r) k =
     (if k = lit ''exception_type'' \<and> lr_exc_info r \<noteq> None then map_option VStr (lr_exc_info r)
      else if k \<in> set STRUCTURED_FIELDS \<and> log_attr r k VNone \<noteq> VNone then Some (log_attr r k VNone)
      else if k = lit ''request_id'' \<and> shown_id cur r \<noteq> VNone then Some (shown_id cur r)
      else map_of (head_fields ts r) k)"
  unfolding format_record_def head_fields_def [symmetric] Let_def shown_id_def [unfolded Let_def, symmetric]
  by (simp add: map_of_update map_of_fields del: foldl.simps split: option.split)

text \<open>A formatted record shows nothing of a log record but its level, its logger, the allowed fields and,
  when there is no \<open>event\<close>, its message.\<close>

definition log_view :: "log_record \<Rightarrow> pystr \<times> pystr \<times> pyval \<times> (pystr \<Rightarrow> pyval) \<times> pystr option" where
  "log_view r = (lr_level r, lr_logger r, log_attr r (lit ''event'') (VStr (lr_message r)),
     (\<lambda>f. if f \<in> set STRUCTURED_FIELDS then log_attr r f VNone else VNone), lr_exc_info r)"

lemma format_keys:
  "map_of (format_record ts cur r) k \<noteq> None \<Longrightarrow>
   k \<in> set (map lit [''timestamp'', ''level'', ''logger''] @ STRUCTURED_FIELDS)"
  unfolding log_fields_shown
  by (cases "k \<in> set STRUCTURED_FIELDS") (auto simp: head_fields_def STRUCTURED_FIELDS_def split: if_splits)

section \<open>Properties\<close>


text \<open>A processing error of the API, once as it is logged and once with the payload in its message\<close>

definition plain_log :: log_record where
  "plain_log = log_call ''ERROR'' ''api.errors'' ''processing_error'' [(''event'', VStr (lit ''processing_error''))]"

definition chatty_log :: log_record where
  "chatty_log = plain_log\<lparr>lr_message := lit ''q@q.qq'',
     lr_extra := (lit ''payload'', VStr (lit ''q@q.qq'')) # lr_extra plain_log\<rparr>"


end
