(* ===== verification/Api.thy ===== *)
theory Api
  imports Process RateLimit Logging
begin

text \<open>
  \<open>app/main.py\<close> and \<open>app/api\<close>: the route handlers, the exception handlers and the middlewares, and
  their composition.  What Starlette and FastAPI do is taken from their documentation: the
  middleware added last is the outermost; a handler registered for an exception class serves its
  subclasses unless a nearer class has its own; the handler for \<open>Exception\<close> runs outside all
  middlewares.  Routing, the validation of the body and the framework's own answers are arguments.
\<close>

section \<open>Requests, responses and the state of the application\<close>

datatype route = Process_Route | Health_Route | Ready_Route | Metrics_Route

fun route_path :: "route \<Rightarrow> pystr" where
  "route_path Process_Route = lit ''/process''"
| "route_path Health_Route = lit ''/health''"
| "route_path Ready_Route = lit ''/health/ready''"
| "route_path Metrics_Route = lit ''/metrics''"

record response =
  rp_status :: int
  rp_content :: pyval
  rp_headers :: "(pystr \<times> pystr) list"

definition json_response :: "int \<Rightarrow> (string \<times> pyval) list \<Rightarrow> (pystr \<times> pystr) list \<Rightarrow> response" where
  "json_response status content headers =
     \<lparr>rp_status = status, rp_content = VDict (map (\<lambda>(k, v). (VStr (lit k), v)) content), rp_headers = headers\<rparr>"

text \<open>
  A request as the framework presents it, with what the environment gives while it is served: a UUID,
  the clock readings, the engines with their random draws and the environment of the store.
\<close>

record 'env http_request =
  hq_method :: pystr
  hq_path :: pystr
  hq_route :: "route option"
  hq_request_id :: "pystr option"
  hq_consumer_id :: "pystr option"
  hq_body :: "(pystr \<times> pystr) option"
  hq_uuid :: pystr
  hq_monotonic :: rat
  hq_clock :: "nat \<Rightarrow> rat"
  hq_services :: services
  hq_env_get :: 'env
  hq_env_trans :: 'env
  hq_timers :: "nat \<Rightarrow> rat"

text \<open>The parts of the application that are built once\<close>

record ('env, 'st, 'r) app_server =
  sr_get :: "'env \<Rightarrow> pystr \<Rightarrow> 'st \<Rightarrow> (exn + rstate option) \<times> 'st"
  sr_transition :: "'env \<Rightarrow> pystr \<Rightarrow> transition_fn \<Rightarrow> 'st \<Rightarrow> (exn + rstate option) \<times> 'st"
  sr_collectors :: "'r collectors"
  sr_policies :: policies
  sr_unicode :: ucd
  sr_default_consumer_id :: pystr
  sr_float_text :: "rat \<Rightarrow> pystr"
  sr_render :: "'r \<Rightarrow> pyval"
  sr_framework :: "'env http_request \<Rightarrow> response"

record ('st, 'r) world =
  w_store :: 'st
  w_metrics :: "'r metrics"
  w_limiter :: limiter
  w_logs :: "log_record list"

definition log_to :: "log_record \<Rightarrow> ('st, 'r) world \<Rightarrow> ('st, 'r) world" where
  "log_to r w = w\<lparr>w_logs := w_logs w @ [r]\<rparr>"

section \<open>Exception handlers\<close>

definition request_headers :: "pystr option \<Rightarrow> (pystr \<times> pystr) list" where
  "request_headers request_id = (case request_id of None \<Rightarrow> [] | Some r \<Rightarrow> [(lit ''X-Request-ID'', r)])"

definition opt_str :: "pystr option \<Rightarrow> pyval" where
  "opt_str s = (case s of None \<Rightarrow> VNone | Some x \<Rightarrow> VStr x)"

definition count_error :: "('env, 'st, 'r) app_server \<Rightarrow> pystr \<Rightarrow> ('st, 'r) world \<Rightarrow> ('st, 'r) world" where
  "count_error A ty w = w\<lparr>w_metrics := record_error (sr_collectors A) ty (w_metrics w)\<rparr>"

definition handle_domain_error ::
    "('env, 'st, 'r) app_server \<Rightarrow> pystr option \<Rightarrow> exn \<Rightarrow> ('st, 'r) world \<Rightarrow> response \<times> ('st, 'r) world" where
  "handle_domain_error A request_id e w =
     (let w1 = log_to (log_call ''WARNING'' ''api.errors'' ''request_error''
                 [(''event'', VStr (lit ''request_error'')), (''request_id'', opt_str request_id),
                  (''error_type'', VStr (error_type e)), (''status_code'', VInt (status_code e))])
                (count_error A (error_type e) w);
          headers = request_headers request_id
            @ (case e of ServiceOverloadedError m retry_after \<Rightarrow> [(lit ''Retry-After'', int_str retry_after)] | _ \<Rightarrow> [])
      in (json_response (status_code e) [(''error'', VStr (error_type e)), (''message'', VStr (exn_message e))] headers, w1))"

definition handle_processing_error ::
    "('env, 'st, 'r) app_server \<Rightarrow> pystr option \<Rightarrow> exn \<Rightarrow> ('st, 'r) world \<Rightarrow> response \<times> ('st, 'r) world" where
  "handle_processing_error A request_id e w =
     (json_response 500 [(''error'', VStr (lit ''PROCESSING_ERROR'')), (''message'', VStr (lit ''internal error''))]
        (request_headers request_id),
      log_to (log_call ''ERROR'' ''api.errors'' ''processing_error''
          [(''event'', VStr (lit ''processing_error'')), (''request_id'', opt_str request_id),
           (''error_type'', VStr (error_type e)), (''status_code'', VInt 500)])
        (count_error A (error_type e) w))"

text \<open>\<open>type(exc).__name__\<close>\<close>

fun exn_name :: "exn \<Rightarrow> pystr" where
  "exn_name (PIIProxyError m) = lit ''PIIProxyError''"
| "exn_name (ConsumerNotAllowedError m) = lit ''ConsumerNotAllowedError''"
| "exn_name (InvalidPayloadError m) = lit ''InvalidPayloadError''"
| "exn_name (BadRequestError m) = lit ''BadRequestError''"
| "exn_name (RestorationStateNotFoundError m) = lit ''RestorationStateNotFoundError''"
| "exn_name (ProcessingError m) = lit ''ProcessingError''"
| "exn_name (ServiceOverloadedError m r) = lit ''ServiceOverloadedError''"
| "exn_name (ServiceUnavailableError m) = lit ''ServiceUnavailableError''"
| "exn_name IndexError = lit ''IndexError''"
| "exn_name KeyError = lit ''KeyError''"
| "exn_name ValueError = lit ''ValueError''"
| "exn_name OverflowError = lit ''OverflowError''"
| "exn_name TypeError = lit ''TypeError''"
| "exn_name AttributeError = lit ''AttributeError''"
| "exn_name UnicodeEncodeError = lit ''UnicodeEncodeError''"
| "exn_name (RuntimeError m) = lit ''RuntimeError''"
| "exn_name (OSError m) = lit ''OSError''"
| "exn_name InvalidToken = lit ''InvalidToken''"

definition handle_unexpected ::
    "('env, 'st, 'r) app_server \<Rightarrow> pystr option \<Rightarrow> exn \<Rightarrow> ('st, 'r) world \<Rightarrow> response \<times> ('st, 'r) world" where
  "handle_unexpected A request_id e w =
     (json_response 500 [(''error'', VStr (lit ''INTERNAL_ERROR'')), (''message'', VStr (lit ''internal error''))]
        (request_headers request_id),
      log_to (log_call ''ERROR'' ''api.errors'' ''unexpected_error''
          [(''event'', VStr (lit ''unexpected_error'')), (''request_id'', opt_str request_id),
           (''error_type'', VStr (lit ''INTERNAL_ERROR'')), (''exception_type'', VStr (exn_name e)),
           (''status_code'', VInt 500)])
        (count_error A (lit ''INTERNAL_ERROR'') w))"

text \<open>The handlers registered for \<open>PIIProxyError\<close> and \<open>ProcessingError\<close>: \<open>None\<close> for any other class\<close>

definition handle_exception ::
    "('env, 'st, 'r) app_server \<Rightarrow> pystr option \<Rightarrow> exn \<Rightarrow> ('st, 'r) world \<Rightarrow> (exn + response) \<times> ('st, 'r) world" where
  "handle_exception A request_id e w =
     (case e of
        ProcessingError m \<Rightarrow> (case handle_processing_error A request_id e w of (r, w') \<Rightarrow> (Inr r, w'))
      | _ \<Rightarrow> if is_domain_error e
             then (case handle_domain_error A request_id e w of (r, w') \<Rightarrow> (Inr r, w'))
             else (Inl e, w))"

section \<open>Routes\<close>

definition get_consumer_id :: "('env, 'st, 'r) app_server \<Rightarrow> pystr option \<Rightarrow> pystr" where
  "get_consumer_id A x_consumer_id =
     (case x_consumer_id of
        None \<Rightarrow> sr_default_consumer_id A
      | Some x \<Rightarrow>
          let normalized = str_lower (sr_unicode A) (str_strip (sr_unicode A) x)
          in if normalized = [] then sr_default_consumer_id A else normalized)"

text \<open>The constraints of \<open>ProcessRequest\<close> on the two strings of the body\<close>

definition ProcessRequest :: "pystr \<times> pystr \<Rightarrow> bool" where
  "ProcessRequest body \<longleftrightarrow> 1 \<le> length (fst body) \<and> 1 \<le> length (snd body)"

definition process_completed :: "('env, 'st, 'r) app_server \<Rightarrow> outcome \<Rightarrow> pystr \<Rightarrow> pystr \<Rightarrow> log_record" where
  "process_completed A oc id_hash consumer_id =
     log_call ''INFO'' ''api.process'' ''process_completed''
       [(''event'', VStr (lit ''process_completed'')), (''operation'', VStr (operation_value (oc_operation oc))),
        (''payload_id_hash'', VStr id_hash), (''consumer_id'', VStr consumer_id),
        (''detected_types'', VList (map VStr (oc_detected_types oc))), (''entity_count'', VInt (oc_entity_count oc)),
        (''duration_ms'', VFloat (sr_float_text A (oc_duration_ms oc)))]"

definition process_route ::
    "('env, 'st, 'r) app_server \<Rightarrow> 'env http_request \<Rightarrow> pystr \<Rightarrow> pystr \<Rightarrow> ('st, 'r) world \<Rightarrow>
     (exn + response) \<times> ('st, 'r) world" where
  "process_route A q payload payload_id w =
     (let consumer_id = get_consumer_id A (hq_consumer_id q) in
      case get_policy (sr_policies A) consumer_id of
        Inl e \<Rightarrow> (Inl e, w)
      | Inr policy \<Rightarrow>
          (case process (sr_get A) (sr_transition A) (hq_services q) (sr_collectors A) (hq_env_get q) (hq_env_trans q)
                  (hq_timers q) payload payload_id policy (w_store w) (w_metrics w) of
             (r, st, m) \<Rightarrow>
               let w1 = w\<lparr>w_store := st, w_metrics := m\<rparr> in
               case r of
                 Inl e \<Rightarrow> (Inl e, w1)
               | Inr oc \<Rightarrow>
                   (case hash_identifier (sv_sha256 (hq_services q)) payload_id 12 of
                      Inl e \<Rightarrow> (Inl e, w1)
                    | Inr h \<Rightarrow> (Inr (json_response 200 [(''result'', VStr (oc_result oc))] []),
                                log_to (process_completed A oc h consumer_id) w1))))"

definition health_route :: response where
  "health_route = json_response 200 [(''status'', VStr (lit ''ok''))] []"

definition readiness_route ::
    "('env, 'st, 'r) app_server \<Rightarrow> 'env http_request \<Rightarrow> ('st, 'r) world \<Rightarrow> response \<times> ('st, 'r) world" where
  "readiness_route A q w =
     (let not_ready = json_response 503 [(''status'', VStr (lit ''not_ready''))] [] in
      case get_policy (sr_policies A) (lit ''default'') of
        Inl e \<Rightarrow> (not_ready, w)
      | Inr policy \<Rightarrow>
          (case sr_get A (hq_env_get q) (lit ''__readiness_probe__'') (w_store w) of
             (Inl e, st) \<Rightarrow> (not_ready, w\<lparr>w_store := st\<rparr>)
           | (Inr s, st) \<Rightarrow> (json_response 200 [(''status'', VStr (lit ''ready''))] [], w\<lparr>w_store := st\<rparr>)))"

definition metrics_route :: "('env, 'st, 'r) app_server \<Rightarrow> ('st, 'r) world \<Rightarrow> response" where
  "metrics_route A w =
     \<lparr>rp_status = 200, rp_content = sr_render A (mt_registry (w_metrics w)), rp_headers = []\<rparr>"

text \<open>The router inside the exception handlers: what \<open>call_next\<close> runs\<close>

definition call_next ::
    "('env, 'st, 'r) app_server \<Rightarrow> 'env http_request \<Rightarrow> pystr \<Rightarrow> ('st, 'r) world \<Rightarrow>
     (exn + response) \<times> ('st, 'r) world" where
  "call_next A q request_id w =
     (case hq_route q of
        None \<Rightarrow> (Inr (sr_framework A q), w)
      | Some Health_Route \<Rightarrow> (Inr health_route, w)
      | Some Ready_Route \<Rightarrow> (case readiness_route A q w of (r, w') \<Rightarrow> (Inr r, w'))
      | Some Metrics_Route \<Rightarrow> (Inr (metrics_route A w), w)
      | Some Process_Route \<Rightarrow>
          (case hq_body q of
             None \<Rightarrow> (Inr (sr_framework A q), w)
           | Some body \<Rightarrow>
               if \<not> ProcessRequest body then (Inr (sr_framework A q), w)
               else (case process_route A q (fst body) (snd body) w of
                       (Inr r, w') \<Rightarrow> (Inr r, w')
                     | (Inl e, w') \<Rightarrow> handle_exception A (Some request_id) e w')))"

section \<open>Middlewares\<close>

definition request_completed :: "('env, 'st, 'r) app_server \<Rightarrow> 'env http_request \<Rightarrow> pystr \<Rightarrow> pystr \<Rightarrow> int \<Rightarrow> log_record" where
  "request_completed A q request_id path status =
     log_call ''INFO'' ''http'' ''http_request_completed''
       [(''event'', VStr (lit ''http_request_completed'')), (''request_id'', VStr request_id),
        (''method'', VStr (hq_method q)), (''path'', VStr path), (''status_code'', VInt status),
        (''duration_ms'', VFloat (sr_float_text A ((hq_clock q 1 - hq_clock q 0) * 1000)))]"

definition observe_http_request ::
    "('env, 'st, 'r) app_server \<Rightarrow> 'env http_request \<Rightarrow> ('st, 'r) world \<Rightarrow> (exn + response) \<times> ('st, 'r) world" where
  "observe_http_request A q w =
     (let request_id = normalize_request_id (hq_uuid q) (hq_request_id q) in
      case track_inflight (sr_collectors A)
             (\<lambda>m. case call_next A q request_id (w\<lparr>w_metrics := m\<rparr>) of (r, w') \<Rightarrow> ((r, w'), w_metrics w'))
             (w_metrics w) of
        ((r, w1), m1) \<Rightarrow>
          let status = (case r of Inl e \<Rightarrow> 500 | Inr resp \<Rightarrow> rp_status resp);
              path = (case hq_route q of None \<Rightarrow> lit ''unmatched'' | Some rt \<Rightarrow> route_path rt);
              m2 = observe_http (sr_collectors A) (hq_method q) path (int_str status)
                     (hq_clock q 1 - hq_clock q 0) m1;
              w2 = log_to (request_completed A q request_id path status) (w1\<lparr>w_metrics := m2\<rparr>)
          in (case r of
                Inl e \<Rightarrow> Inl e
              | Inr resp \<Rightarrow>
                  Inr (resp\<lparr>rp_headers := AList.update (lit ''X-Request-ID'') request_id (rp_headers resp)\<rparr>), w2))"

definition too_many_requests :: response where
  "too_many_requests =
     json_response 429 [(''error'', VStr (lit ''SERVICE_OVERLOADED'')), (''message'', VStr (lit ''too many requests''))]
       [(lit ''content-type'', lit ''application/json''), (lit ''retry-after'', lit ''1'')]"

definition rate_limit ::
    "('env, 'st, 'r) app_server \<Rightarrow> 'env http_request \<Rightarrow> ('st, 'r) world \<Rightarrow> (exn + response) \<times> ('st, 'r) world" where
  "rate_limit A q w =
     (if hq_path q = lit ''/process''
      then (case allow (w_limiter w) (lit ''global'') (hq_monotonic q) of
              (True, l) \<Rightarrow> observe_http_request A q (w\<lparr>w_limiter := l\<rparr>)
            | (False, l) \<Rightarrow>
                (Inr too_many_requests,
                 log_to (log_call ''WARNING'' ''api.middleware'' ''rate_limited global'' []) (w\<lparr>w_limiter := l\<rparr>)))
      else observe_http_request A q w)"

text \<open>The application: the handler for \<open>Exception\<close> around the middlewares\<close>

definition serve_http ::
    "('env, 'st, 'r) app_server \<Rightarrow> 'env http_request \<Rightarrow> ('st, 'r) world \<Rightarrow> response \<times> ('st, 'r) world" where
  "serve_http A q w =
     (case rate_limit A q w of
        (Inr r, w') \<Rightarrow> (r, w')
      | (Inl e, w') \<Rightarrow> handle_unexpected A (Some (normalize_request_id (hq_uuid q) (hq_request_id q))) e w')"

section \<open>What the metrics see\<close>

text \<open>The collector and the labels of a call\<close>

fun call_metric :: "metric_call \<Rightarrow> metric_name" where
  "call_metric (Inc n l x) = n"
| "call_metric (Dec n l) = n"
| "call_metric (Observe n l x) = n"
| "call_metric (Set n l x) = n"

fun call_labels :: "metric_call \<Rightarrow> pystr list" where
  "call_labels (Inc n l x) = l"
| "call_labels (Dec n l) = l"
| "call_labels (Observe n l x) = l"
| "call_labels (Set n l x) = l"

text \<open>The time series that serving a request may touch besides those of the HTTP metrics: a fixed list\<close>

definition ERROR_TYPES :: "pystr list" where
  "ERROR_TYPES = map lit [''CONSUMER_NOT_ALLOWED'', ''INVALID_PAYLOAD'', ''BAD_REQUEST'', ''RESTORATION_STATE_NOT_FOUND'',
     ''PROCESSING_ERROR'', ''SERVICE_OVERLOADED'', ''SERVICE_UNAVAILABLE'', ''INTERNAL_ERROR'']"

definition STAGES :: "pystr list" where
  "STAGES = map lit [''state_lookup_ms'', ''prepare_ms'', ''transition_ms'']"

definition SERIES :: "(metric_name \<times> pystr list) list" where
  "SERIES = [(detected_entities, []), (payload_size, [])]
     @ concat (map (\<lambda>v. [(operations, [v]), (operation_duration, [v])]) [operation_value MASK, operation_value DEMASK])
     @ map (\<lambda>t. (errors, [t])) ERROR_TYPES
     @ concat (map (\<lambda>v. [(stage_duration, [v]), (stage_max, [v])]) STAGES)"

definition domain_call :: "metric_call \<Rightarrow> bool" where
  "domain_call c \<longleftrightarrow> (call_metric c, call_labels c) \<in> set SERIES"

lemma error_type_known: "error_type e \<in> set ERROR_TYPES" "lit ''INTERNAL_ERROR'' \<in> set ERROR_TYPES"
  by (cases e) (simp_all add: ERROR_TYPES_def)

lemma domain_call_simps:
  "domain_call (Inc operations [operation_value op] x)" "domain_call (Observe operation_duration [operation_value op] x)"
  "t \<in> set ERROR_TYPES \<Longrightarrow> domain_call (Inc errors [t] x)"
  "domain_call (Inc detected_entities [] x)" "domain_call (Observe payload_size [] x)"
  "v \<in> set STAGES \<Longrightarrow> domain_call (Observe stage_duration [v] x)"
  "v \<in> set STAGES \<Longrightarrow> domain_call (Set stage_max [v] x)"
  by (cases op; auto simp: domain_call_def SERIES_def)+

definition domain_calls :: "metric_call list metrics \<Rightarrow> metric_call list metrics \<Rightarrow> bool" where
  "domain_calls m m' \<longleftrightarrow> (\<exists>calls. mt_registry m' = mt_registry m @ calls \<and> (\<forall>c \<in> set calls. domain_call c))"

lemma domain_calls_refl [simp]: "domain_calls m m"
  by (simp add: domain_calls_def)

lemma domain_calls_trans [trans]: "domain_calls m m' \<Longrightarrow> domain_calls m' m'' \<Longrightarrow> domain_calls m m''"
  by (force simp: domain_calls_def)

lemma domain_calls_step:
  "domain_calls m m' \<Longrightarrow> domain_call c \<Longrightarrow> domain_calls m (safe log_calls c m')"
  by (force simp: domain_calls_def)

lemma domain_calls_table [simp]: "domain_calls m (m'\<lparr>mt_stage_max_values := t\<rparr>) = domain_calls m m'"
  by (simp add: domain_calls_def)

lemma domain_calls_stage:
  "domain_calls m0 m \<Longrightarrow> stage \<in> set STAGES \<Longrightarrow> domain_calls m0 (recorder_stage log_calls stage ms m)"
  unfolding recorder_stage_def record_stage_def Let_def
  by (auto intro!: domain_calls_step domain_call_simps)

lemma domain_calls_stages:
  "domain_calls m0 m \<Longrightarrow> fst ` set ts \<subseteq> set STAGES \<Longrightarrow>
   domain_calls m0 (foldl (\<lambda>m (stage, ms). recorder_stage log_calls stage ms m) m ts)"
proof (induction ts arbitrary: m)
  case (Cons t ts)
  obtain stage ms where t: "t = (stage, ms)" by (cases t)
  with Cons.prems have "domain_calls m0 (recorder_stage log_calls stage ms m)" by (auto intro: domain_calls_stage)
  from Cons.IH [OF this] Cons.prems t show ?case by simp
qed simp

lemma domain_calls_outcome:
  assumes "fst ` set (oc_stage_timings oc) \<subseteq> set STAGES" and "record_outcome log_calls oc payload m = (r, m')"
  shows "domain_calls m m'"
proof -
  let ?m1 = "record_entities log_calls (oc_entity_count oc)
    (recorder_request log_calls (operation_value (oc_operation oc)) (oc_duration_ms oc) m)"
  have m1: "domain_calls m ?m1"
    unfolding record_entities_def recorder_request_def record_operation_def
    by (intro domain_calls_step domain_calls_refl domain_call_simps)
  then have m2: "domain_calls m (record_payload_size log_calls n ?m1)" for n
    unfolding record_payload_size_def by (rule domain_calls_step) (rule domain_call_simps)
  from m1 domain_calls_stages [OF m2 assms(1)] assms(2) show "domain_calls m m'"
    by (auto simp: record_outcome_def Let_def split: sum.splits)
qed

lemma stage_timings_known: "(stage, ms) \<in> set (stage_timings clk prepared) \<Longrightarrow> stage \<in> set STAGES"
  by (auto simp: stage_timings_def STAGES_def)

lemma domain_calls_process:
  "process get transition S log_calls env1 env2 clk payload pid policy st m = (r, st', m') \<Longrightarrow> domain_calls m m'"
  by (auto simp: process_def intro: stage_timings_known split: if_splits sum.splits prod.splits
      dest!: domain_calls_outcome [rotated])

text \<open>A request inside the inflight gauge makes no calls on the HTTP metrics.\<close>

lemma domain_calls_count:
  "domain_calls m (w_metrics w) \<Longrightarrow> ty \<in> set ERROR_TYPES \<Longrightarrow> domain_calls m (record_error log_calls ty (w_metrics w))"
  unfolding record_error_def by (rule domain_calls_step) (simp_all add: domain_call_simps)

lemma domain_calls_next:
  assumes "sr_collectors A = log_calls" and "call_next A q rid w = (r, w')"
  shows "domain_calls (w_metrics w) (w_metrics w')"
proof -
  have route: "domain_calls (w_metrics w) (w_metrics w1)"
    if "process_route A q payload pid w = (x, w1)" for x w1 payload pid
    using that assms(1)
    by (auto simp: process_route_def Let_def log_to_def split: sum.splits prod.splits dest!: domain_calls_process)
  have handler: "domain_calls m (w_metrics w2)"
    if "handle_exception A rid' e w1 = (x, w2)" "domain_calls m (w_metrics w1)" for m e x w1 w2 rid'
    using that domain_calls_count [OF that(2) error_type_known(1) [of e]] assms(1)
    unfolding handle_exception_def handle_processing_error_def handle_domain_error_def count_error_def log_to_def Let_def
    by (cases e) auto
  show ?thesis using assms(2) route handler
    by (fastforce simp: call_next_def readiness_route_def Let_def
        split: option.splits route.splits if_splits prod.splits sum.splits)
qed

section \<open>Properties\<close>

definition limited :: "'env http_request \<Rightarrow> ('st, 'r) world \<Rightarrow> bool" where
  "limited q w \<longleftrightarrow> hq_path q = lit ''/process'' \<and> \<not> fst (allow (w_limiter w) (lit ''global'') (hq_monotonic q))"

lemma not_limited:
  assumes "\<not> limited q w"
  shows "\<exists>l. rate_limit A q w = observe_http_request A q (w\<lparr>w_limiter := l\<rparr>)"
proof -
  obtain b l where "allow (w_limiter w) (lit ''global'') (hq_monotonic q) = (b, l)" by (metis prod.exhaust)
  with assms have "rate_limit A q w = observe_http_request A q
      (w\<lparr>w_limiter := if hq_path q = lit ''/process'' then l else w_limiter w\<rparr>)"
    by (auto simp: limited_def rate_limit_def)
  then show ?thesis by blast
qed

definition path_label :: "'env http_request \<Rightarrow> pystr" where
  "path_label q = (case hq_route q of None \<Rightarrow> lit ''unmatched'' | Some rt \<Rightarrow> route_path rt)"

definition shown_request_id :: "'env http_request \<Rightarrow> pystr" where
  "shown_request_id q = normalize_request_id (hq_uuid q) (hq_request_id q)"

text \<open>One request: \<open>inner\<close> are the calls of the route, \<open>tail\<close> those of the handler for unexpected errors.\<close>

definition accounted :: "'env http_request \<Rightarrow> response \<Rightarrow> metric_call list \<Rightarrow> metric_call list \<Rightarrow> bool" where
  "accounted q r calls calls' \<longleftrightarrow> (\<exists>inner tail.
     calls' = calls @ [Inc inflight_requests [] 1] @ inner
       @ [Dec inflight_requests [], Inc http_requests [hq_method q, path_label q, int_str (rp_status r)] 1,
          Observe http_request_duration [hq_method q, path_label q] (hq_clock q 1 - hq_clock q 0)] @ tail
     \<and> (\<forall>c \<in> set (inner @ tail). domain_call c))"

lemma observed:
  assumes "sr_collectors A = log_calls" and "observe_http_request A q w = (x, w1)"
  shows "accounted q (case x of Inl e \<Rightarrow> json_response 500 c h | Inr r \<Rightarrow> r)
       (mt_registry (w_metrics w)) (mt_registry (w_metrics w1))
     \<and> (\<forall>r. x = Inr r \<longrightarrow> map_of (rp_headers r) (lit ''X-Request-ID'') = Some (shown_request_id q))"
proof -
  let ?m = "safe log_calls (Inc inflight_requests [] 1) (w_metrics w)"
  obtain y w2 where y: "call_next A q (shown_request_id q) (w\<lparr>w_metrics := ?m\<rparr>) = (y, w2)"
    by (metis prod.exhaust)
  from domain_calls_next [OF assms(1) y] obtain inner where
    "mt_registry (w_metrics w2) = mt_registry ?m @ inner" "\<forall>c \<in> set inner. domain_call c"
    by (auto simp: domain_calls_def)
  then have m2: "mt_registry (w_metrics w2) = mt_registry (w_metrics w) @ [Inc inflight_requests [] 1] @ inner"
    "\<forall>c \<in> set (inner @ []). domain_call c" by simp_all
  let ?r = "case x of Inl e \<Rightarrow> json_response 500 c h | Inr r \<Rightarrow> r"
  have "mt_registry (w_metrics w1) = mt_registry (w_metrics w) @ [Inc inflight_requests [] 1] @ inner
     @ [Dec inflight_requests [], Inc http_requests [hq_method q, path_label q, int_str (rp_status ?r)] 1,
        Observe http_request_duration [hq_method q, path_label q] (hq_clock q 1 - hq_clock q 0)] @ []"
    using y assms m2(1)
    by (auto simp: observe_http_request_def track_inflight_def Let_def observe_http_def log_to_def
        shown_request_id_def [symmetric] path_label_def [symmetric] json_response_def split: sum.splits)
  with m2(2) have "accounted q ?r (mt_registry (w_metrics w)) (mt_registry (w_metrics w1))"
    unfolding accounted_def by blast
  moreover have "\<forall>r. x = Inr r \<longrightarrow> map_of (rp_headers r) (lit ''X-Request-ID'') = Some (shown_request_id q)"
    using y assms
    by (auto simp: observe_http_request_def track_inflight_def Let_def shown_request_id_def [symmetric] map_of_update
        split: sum.splits)
  ultimately show ?thesis by blast
qed

lemma serve_accounted:
  assumes "sr_collectors A = log_calls" and "serve_http A q w = (r, w')"
  shows "if limited q w
     then r = too_many_requests \<and> w_metrics w' = w_metrics w \<and> w_store w' = w_store w
     else accounted q r (mt_registry (w_metrics w)) (mt_registry (w_metrics w'))
       \<and> map_of (rp_headers r) (lit ''X-Request-ID'') = Some (shown_request_id q)"
proof (cases "limited q w")
  case True
  with assms show ?thesis
    by (auto simp: limited_def serve_http_def rate_limit_def log_to_def split: prod.splits bool.splits)
next
  case False
  from not_limited [OF False] obtain l where l: "rate_limit A q w = observe_http_request A q (w\<lparr>w_limiter := l\<rparr>)"
    by blast
  obtain x w1 where x: "observe_http_request A q (w\<lparr>w_limiter := l\<rparr>) = (x, w1)" by (metis prod.exhaust)
  note obs = observed [OF assms(1) x]
  show ?thesis
  proof (cases x)
    case (Inr r1)
    with obs l x assms(2) False show ?thesis by (simp add: serve_http_def)
  next
    case (Inl e)
    obtain r1 w2 where h: "handle_unexpected A (Some (shown_request_id q)) e w1 = (r1, w2)" by (metis prod.exhaust)
    have "mt_registry (w_metrics w2) = mt_registry (w_metrics w1) @ [Inc errors [lit ''INTERNAL_ERROR''] 1]"
      using h assms(1) by (auto simp: handle_unexpected_def log_to_def count_error_def record_error_def)
    moreover have "domain_call (Inc errors [lit ''INTERNAL_ERROR''] 1)" by (simp add: domain_call_simps error_type_known)
    moreover have "rp_status r1 = 500" "map_of (rp_headers r1) (lit ''X-Request-ID'') = Some (shown_request_id q)"
      using h by (auto simp: handle_unexpected_def json_response_def request_headers_def)
    moreover have "r = r1" "w' = w2"
      using Inl l x h assms(2) by (simp_all add: serve_http_def shown_request_id_def)
    ultimately show ?thesis
      using obs False Inl unfolding accounted_def by (fastforce simp: json_response_def)
  qed
qed

text \<open>
  C25: Every admitted request is accounted for once (invariant).  A request that the rate limiter
  admits raises and lowers the gauge of requests in flight once, is counted once and timed once, under
  its method, the path of its route and the status of the response that is sent, also when an
  unexpected exception is answered; and the response carries the request id.  A request that the
  limiter refuses gets the fixed 429 response, and neither the metrics nor the store change.
\<close>

theorem http_accounting:
  assumes "sr_collectors A = log_calls" and "serve_http A q w = (r, w')"
  shows "if limited q w
     then r = too_many_requests \<and> w_metrics w' = w_metrics w \<and> w_store w' = w_store w
     else accounted q r (mt_registry (w_metrics w)) (mt_registry (w_metrics w'))
       \<and> map_of (rp_headers r) (lit ''X-Request-ID'') = Some (shown_request_id q)"
  by (rule serve_accounted [OF assms])

text \<open>The requests of a client, one after the other\<close>

fun serve_requests :: "('env, 'st, 'r) app_server \<Rightarrow> 'env http_request list \<Rightarrow> ('st, 'r) world \<Rightarrow> ('st, 'r) world" where
  "serve_requests A [] w = w"
| "serve_requests A (q # qs) w = serve_requests A qs (snd (serve_http A q w))"

text \<open>The time series known in advance, when \<open>meths\<close> are the methods of the requests\<close>

definition ROUTE_PATHS :: "pystr list" where
  "ROUTE_PATHS = lit ''unmatched'' # map route_path [Process_Route, Health_Route, Ready_Route, Metrics_Route]"

definition known_series :: "pystr set \<Rightarrow> metric_call \<Rightarrow> bool" where
  "known_series meths c \<longleftrightarrow> domain_call c \<or> (call_metric c, call_labels c) = (inflight_requests, [])
     \<or> (\<exists>m \<in> meths. \<exists>p \<in> set ROUTE_PATHS. (call_metric c, call_labels c) = (http_request_duration, [m, p])
          \<or> (\<exists>status. (call_metric c, call_labels c) = (http_requests, [m, p, int_str status])))"

lemma path_label_known: "path_label q \<in> set ROUTE_PATHS"
proof (cases "hq_route q")
  case (Some rt)
  then show ?thesis by (cases rt) (simp_all add: path_label_def ROUTE_PATHS_def)
qed (simp add: path_label_def ROUTE_PATHS_def)

lemma series_arity: "known_series meths c \<Longrightarrow> length (call_labels c) = length (snd (metric_id (call_metric c)))"
  by (cases c) (auto simp: known_series_def domain_call_def SERIES_def)

lemma known_series_mono: "known_series A c \<Longrightarrow> A \<subseteq> B \<Longrightarrow> known_series B c"
  unfolding known_series_def by blast

lemma accounted_known: "accounted q r calls calls' \<Longrightarrow> c \<in> set calls' \<Longrightarrow> c \<in> set calls \<or> known_series {hq_method q} c"
proof -
  assume "accounted q r calls calls'" "c \<in> set calls'"
  then obtain inner tail where "\<forall>c \<in> set (inner @ tail). domain_call c" and "c \<in> set (calls @ [Inc inflight_requests [] 1]
      @ inner @ [Dec inflight_requests [], Inc http_requests [hq_method q, path_label q, int_str (rp_status r)] 1,
        Observe http_request_duration [hq_method q, path_label q] (hq_clock q 1 - hq_clock q 0)] @ tail)"
    unfolding accounted_def by metis
  moreover have "known_series {hq_method q} (Inc inflight_requests [] 1)"
    "known_series {hq_method q} (Dec inflight_requests [])"
    "known_series {hq_method q} (Inc http_requests [hq_method q, path_label q, int_str (rp_status r)] 1)"
    "known_series {hq_method q} (Observe http_request_duration [hq_method q, path_label q] x)" for x
    using path_label_known [of q] unfolding known_series_def by fastforce+
  moreover have "domain_call c \<Longrightarrow> known_series {hq_method q} c" by (simp add: known_series_def)
  ultimately show ?thesis by (simp only: set_append set_simps Un_iff insert_iff empty_iff) blast
qed

text \<open>
  C26: Metric labels come from a fixed vocabulary (safety).  Whatever requests are served, every call on a
  collector names exactly the labels the collector was registered with, and their values are constants of
  the code, statuses, paths of routes or \<open>unmatched\<close>: nothing of a payload, a payload id, a request id, a
  consumer id or a requested path gets into a label.  The one exception is the label \<open>method\<close>, which is the
  method that the client sent.
\<close>

theorem metric_labels_fixed:
  assumes "sr_collectors A = log_calls" and "c \<in> set (mt_registry (w_metrics (serve_requests A qs w)))"
  shows "c \<in> set (mt_registry (w_metrics w))
     \<or> known_series (hq_method ` set qs) c \<and> length (call_labels c) = length (snd (metric_id (call_metric c)))"
  using assms(2)
proof (induction qs arbitrary: w)
  case (Cons q qs)
  obtain r w' where q: "serve_http A q w = (r, w')" by (metis prod.exhaust)
  from Cons.IH [of w'] Cons.prems q consider "c \<in> set (mt_registry (w_metrics w'))"
    | "known_series (hq_method ` set qs) c" by auto
  then have "c \<in> set (mt_registry (w_metrics w)) \<or> known_series (hq_method ` set (q # qs)) c"
  proof cases
    case 1
    with serve_accounted [OF assms(1) q] show ?thesis
      by (auto split: if_splits dest!: accounted_known intro: known_series_mono)
  next
    case 2
    then show ?thesis by (auto intro: known_series_mono)
  qed
  then show ?case using series_arity by blast
qed simp

section \<open>An example\<close>

definition probe :: "unit http_request" where
  "probe = \<lparr>hq_method = lit ''GET'', hq_path = lit ''/health'', hq_route = Some Health_Route, hq_request_id = None,
     hq_consumer_id = None, hq_body = None, hq_uuid = lit ''u-1'', hq_monotonic = 0, hq_clock = of_nat,
     hq_services = \<lparr>sv_detect = \<lambda>_ _. Inl ValueError, sv_mask = \<lambda>_ _ _ _. Inl ValueError, sv_sha256 = \<lambda>_. [],
       sv_blake2b = \<lambda>_. [], sv_now = \<lparr>d_date = (2026, 1, 1), d_hour = 0, d_minute = 0, d_second = 0, d_micro = 0\<rparr>\<rparr>,
     hq_env_get = (), hq_env_trans = (), hq_timers = of_nat\<rparr>"

definition idle_server :: "(unit, unit, metric_call list) app_server" where
  "idle_server = \<lparr>sr_get = \<lambda>_ _ s. (Inr None, s), sr_transition = \<lambda>_ _ _ s. (Inr None, s), sr_collectors = log_calls,
     sr_policies = [], sr_unicode = ucd_ru, sr_default_consumer_id = lit ''default'', sr_float_text = \<lambda>_. lit ''1.0'',
     sr_render = \<lambda>_. VNone, sr_framework = \<lambda>_. json_response 404 [] []\<rparr>"

definition idle_world :: "(unit, metric_call list) world" where
  "idle_world = \<lparr>w_store = (), w_metrics = \<lparr>mt_registry = [], mt_stage_max_values = []\<rparr>,
     w_limiter = SlidingWindowRateLimiter 0 1, w_logs = []\<rparr>"

theorem http_accounting_witness:
  "rp_status (fst (serve_http idle_server probe idle_world)) = 200
   \<and> accounted probe (fst (serve_http idle_server probe idle_world)) []
       (mt_registry (w_metrics (snd (serve_http idle_server probe idle_world))))
   \<and> fst (serve_http idle_server (probe\<lparr>hq_path := lit ''/process''\<rparr>) idle_world) = too_many_requests"
proof -
  have A: "sr_collectors idle_server = log_calls" by (simp add: idle_server_def)
  have free: "\<not> limited probe idle_world" by (simp add: limited_def probe_def)
  have full: "limited (probe\<lparr>hq_path := lit ''/process''\<rparr>) idle_world"
    by (simp add: limited_def idle_world_def allow_def SlidingWindowRateLimiter_def Let_def window_of_def)
  have "rp_status (fst (serve_http idle_server probe idle_world)) = 200"
    by (simp add: serve_http_def rate_limit_def probe_def observe_http_request_def call_next_def health_route_def
        track_inflight_def Let_def json_response_def)
  with http_accounting [OF A surjective_pairing, of probe idle_world] free
    http_accounting [OF A surjective_pairing, of "probe\<lparr>hq_path := lit ''/process''\<rparr>" idle_world] full
  show ?thesis by (simp add: idle_world_def)
qed

theorem metric_labels_fixed_witness:
  "Inc http_requests [lit ''GET'', lit ''/health'', lit ''200''] 1
     \<in> set (mt_registry (w_metrics (serve_requests idle_server [probe] idle_world)))
   \<and> known_series {lit ''GET''} (Inc http_requests [lit ''GET'', lit ''/health'', lit ''200''] 1)"
proof -
  let ?c = "Inc http_requests [lit ''GET'', lit ''/health'', lit ''200''] 1"
  have A: "sr_collectors idle_server = log_calls" by (simp add: idle_server_def)
  have "int_str 200 = lit ''200''" by code_simp
  then have c: "?c \<in> set (mt_registry (w_metrics (serve_requests idle_server [probe] idle_world)))"
    by (simp add: serve_http_def rate_limit_def probe_def observe_http_request_def call_next_def health_route_def
        track_inflight_def Let_def json_response_def observe_http_def A log_to_def)
  have "mt_registry (w_metrics idle_world) = []" by (simp add: idle_world_def)
  with metric_labels_fixed [OF A c] c show ?thesis by (simp add: probe_def)
qed

end
