(* ===== verification/Proxy.thy ===== *)
theory Proxy
  imports Process RedisStore
begin

text \<open>
  The proxy as \<open>app/api/dependencies.py\<close> composes it by default: the regex detector, the masking
  engine and a restoration store behind one \<open>ProcessService\<close>; the properties that need all of them.
\<close>

section \<open>Masks add only ASCII characters\<close>

abbreviation from_text :: "pystr \<Rightarrow> pystr \<Rightarrow> bool" where
  "from_text v x \<equiv> set x \<subseteq> set v \<union> {c. c < 128}"

lemma lit_ascii: "set (lit s) \<subseteq> {c. c < 256}"
  by (auto simp: lit_def)

lemma runs_from_sub: "x \<in> set (runs_from P cur s) \<Longrightarrow> set x \<subseteq> set cur \<union> set s"
  by (induction P cur s rule: runs_from.induct) (fastforce split: if_splits)+

lemma runs_sub: "x \<in> set (runs P s) \<Longrightarrow> set x \<subseteq> set s"
  using runs_from_sub [of x P "[]" s] by (auto simp: runs_def)

lemma join_sub: "set (str_join sep xs) \<subseteq> set sep \<union> \<Union> (set ` set xs)"
  by (induction sep xs rule: str_join.induct) auto

lemma edges_sub: "edges_loop U ds k v = Inr x \<Longrightarrow> set x \<subseteq> set ds \<union> set v \<union> {FULL_MASK_CHAR}"
  by (induction U ds k v arbitrary: x rule: edges_loop.induct)
    (auto simp: ebind_eq_Inr subset_iff split: if_splits dest: nth_mem)

lemma initials_sub: "from_text v (mask_initials U v)"
proof (cases "runs (is_word U) v = []")
  case False
  have "set (str_join (lit '' '') (map (\<lambda>word. [hd word] @ lit ''.'') (runs (is_word U) v)))
      \<subseteq> set (lit '' '') \<union> \<Union> (set ` set (map (\<lambda>word. [hd word] @ lit ''.'') (runs (is_word U) v)))"
    by (rule join_sub)
  also have "\<dots> \<subseteq> set v \<union> {c. c < 128}"
  proof -
    have "hd w \<in> set v" if "w \<in> set (runs (is_word U) v)" for w
      using runs_sub [OF that] runs_nonempty [of "is_word U" v] that by (metis hd_in_set subsetD)
    then show ?thesis by (auto simp: lit_def)
  qed
  finally show ?thesis using False by (simp add: mask_initials_def Let_def)
qed (simp add: mask_initials_def)

lemma partition_sub:
  "str_partition c s = (a, b, d) \<Longrightarrow> set a \<subseteq> set s \<and> set d \<subseteq> set s"
  by (auto simp: str_partition_def Let_def dest: set_takeWhileD set_dropWhileD in_set_dropD)

lemma strategy_sub:
  assumes "strategy_mask U r s e = Inr x"
  shows "from_text (e_value e) x"
proof -
  have alnum: "from_text v (mask_all_alnum U v)" and digs: "from_text v (mask_digits U v)" for v
    by (auto simp: mask_all_alnum_def mask_digits_def FULL_MASK_CHAR_def)
  have email: "from_text v (mask_email U v)" for v
  proof -
    obtain a b d where p: "str_partition 64 v = (a, b, d)" by (metis prod_cases3)
    have "set d \<subseteq> set v" "a \<noteq> [] \<Longrightarrow> hd a \<in> set v" using partition_sub [OF p] hd_in_set by auto
    then show ?thesis using alnum [of v]
      by (auto simp: mask_email_def FULL_MASK_CHAR_def lit_def Let_def p)
  qed
  have edges: "from_text v y" if "mask_numeric_edges U v = Inr y" for v y
    using that digs edges_sub [of U "filter (is_decimal U) v" 0 v y]
    by (auto simp: mask_numeric_edges_def Let_def FULL_MASK_CHAR_def split: if_splits)
  have hex: "set (token_hex8 n) \<subseteq> {c. c < 128}" for n
  proof -
    have "hex_digit (k mod 16) < 128" for k
      using mod_less_divisor [of 16 k] by (simp add: hex_digit_def) linarith
    then show ?thesis by (auto simp: token_hex8_def)
  qed
  have ty: "set (pii_value t) \<subseteq> {c. c < 128}" for t by (cases t) (simp_all add: lit_def)
  show ?thesis
  proof (cases s)
    case PARTIAL_MASK
    note parts = initials_sub [of U "e_value e"] edges [of "e_value e" x] alnum [of "e_value e"]
      digs [of "e_value e"] email [of "e_value e"]
    from PARTIAL_MASK assms have "partial_mask U e = Inr x" by simp
    with parts show ?thesis
      unfolding partial_mask_def Let_def by (simp only: sum.inject split: if_splits)
  next
    case FULL_MASK
    with assms alnum [of "e_value e"] show ?thesis by (simp add: full_mask_def)
  next
    case TOKENIZE
    with assms hex [of r] ty [of "e_type e"] show ?thesis
      by (auto simp: tokenize_mask_def lit_def dest: subsetD)
  next
    case SYNTHETIC
    with assms hex [of r] ty [of "e_type e"] show ?thesis
      by (auto simp: synthetic_mask_def lit_def dest: subsetD)
  qed
qed

lemma splice_sub:
  "set (splice t cur ers) \<subseteq> set t \<union> \<Union> (set ` snd ` set ers)"
proof (induction t cur ers rule: splice.induct)
  case (1 t cur)
  then show ?case by (auto simp: py_from_def dest: in_set_dropD)
next
  case (2 t cur e r ers)
  with set_py_slice [of t cur "e_start e"] show ?case by auto
qed

lemma from_text_scalar: "from_text v x \<Longrightarrow> list_all is_scalar v \<Longrightarrow> list_all is_scalar x"
  by (fastforce simp: list_all_iff is_scalar_def)

text \<open>So a masked text can be stored and sent when the text can.\<close>

lemma mask_scalar:
  assumes run: "mask U rnd clk t es sbt cr = Inr r" and sc: "list_all is_scalar t"
  shows "list_all is_scalar (mr_masked_text r)
    \<and> list_all (\<lambda>(a, b). list_all is_scalar a \<and> list_all is_scalar b) (mr_mappings r)"
proof -
  obtain rules where rules: "resolve_context_rules cr = Inr rules"
    using run by (auto simp: mask_def Let_def ebind_eq_Inr)
  let ?ms = "masked_entities t es rules"
  from mask_returns [OF run rules] obtain reps where
    reps: "length reps = length ?ms"
      "\<forall>i < length reps. strategy_mask U (rnd i) (strategy_for sbt (e_type (?ms ! i))) (?ms ! i) = Inr (reps ! i)"
      "mr_masked_text r = splice t 0 (zip ?ms reps)" "mr_mappings r = zip reps (map e_value ?ms)" by blast
  have val: "set (e_value e) \<subseteq> set t" if "e \<in> set ?ms" for e
  proof -
    have "valid_span t e" using that select_spans_valid [of e t es] by (auto simp: masked_entities_def Let_def)
    then show ?thesis using set_py_slice [of t "e_start e" "e_end e"] by (simp add: valid_span_def)
  qed
  have rep: "from_text t x" if "x \<in> set reps" for x
  proof -
    from that obtain i where i: "i < length reps" "x = reps ! i" by (auto simp: in_set_conv_nth)
    with reps(1,2) strategy_sub have "from_text (e_value (?ms ! i)) x" by blast
    moreover have "set (e_value (?ms ! i)) \<subseteq> set t" using i reps(1) by (intro val) simp
    ultimately show ?thesis by blast
  qed
  have "from_text t (splice t 0 (zip ?ms reps))"
    using splice_sub [of t 0 "zip ?ms reps"] rep by (fastforce dest: set_zip_rightD)
  then have "list_all is_scalar (mr_masked_text r)" using from_text_scalar [OF _ sc] reps(3) by simp
  moreover have "list_all is_scalar a \<and> list_all is_scalar b" if "(a, b) \<in> set (mr_mappings r)" for a b
  proof -
    from that reps(4) have "a \<in> set reps" "b \<in> e_value ` set ?ms"
      by (auto dest: set_zip_leftD set_zip_rightD)
    with rep val have "from_text t a" "from_text t b" by blast+
    with from_text_scalar [OF _ sc] show ?thesis by blast
  qed
  ultimately show ?thesis by (auto simp: list_all_iff)
qed

section \<open>The number of entities\<close>

lemma count_bound:
  assumes "sorted_wrt before es" and "\<forall>e \<in> set es. valid_span t e"
  shows "length es \<le> length t"
proof -
  have "int (length es) \<le> int (length t) - k"
    if "sorted_wrt before es" "\<forall>e \<in> set es. valid_span t e \<and> k \<le> e_start e" "k \<le> int (length t)" for k es
    using that
  proof (induction es arbitrary: k)
    case (Cons e es)
    have "int (length es) \<le> int (length t) - e_end e"
      by (rule Cons.IH) (use Cons.prems in \<open>auto simp: valid_span_def\<close>)
    moreover have "k < e_end e" using Cons.prems by (auto simp: valid_span_def)
    ultimately show ?case by simp
  qed simp
  from this [of es 0] assms show ?thesis by (auto simp: valid_span_def)
qed

lemma nat_str_bound_Suc: "n < 10 ^ Suc k \<Longrightarrow> length (nat_str n) \<le> Suc k"
proof (induction k arbitrary: n)
  case 0
  then show ?case by (simp add: nat_str.simps [of n])
next
  case (Suc k)
  then have "n div 10 < 10 ^ Suc k" by (simp add: div_less_iff_less_mult)
  with Suc.IH show ?case by (simp add: nat_str.simps [of n])
qed

lemma nat_str_bound: "n < 10 ^ k \<Longrightarrow> 0 < k \<Longrightarrow> length (nat_str n) \<le> k"
  using nat_str_bound_Suc [of n "k - 1"] by simp

section \<open>The composed service\<close>

text \<open>
  The engines of one request: the detectors are those of \<open>get_detection_engine\<close> with
  \<open>detection_llm_enabled\<close> off.
\<close>

definition proxy_services ::
    "ucd \<Rightarrow> date \<Rightarrow> (nat \<Rightarrow> nat) \<Rightarrow> (nat \<Rightarrow> rat) \<Rightarrow> digest \<Rightarrow> digest \<Rightarrow> datetime \<Rightarrow> services" where
  "proxy_services U today rnd clk sha256 blake2b now =
     \<lparr>sv_detect = engine_detect clk [regex_detector U today],
      sv_mask = mask U rnd clk, sv_sha256 = sha256, sv_blake2b = blake2b, sv_now = now\<rparr>"

definition digest_text :: "digest \<Rightarrow> bool" where
  "digest_text h \<longleftrightarrow> (\<forall>x. list_all is_scalar (h x))"

text \<open>Consumer ids come from HTTP headers and file names: they have no surrogates.\<close>

definition policy_text :: "consumer_policy \<Rightarrow> bool" where
  "policy_text policy \<longleftrightarrow> list_all is_scalar (cp_consumer_id policy)"

text \<open>\<open>json\<close> reads integers of up to 4300 digits: the bound for the entity count\<close>

definition storable :: "pystr \<Rightarrow> bool" where
  "storable payload \<longleftrightarrow> length payload < 10 ^ 4300"

lemma proxy_detect:
  "\<exists>d. engine_detect clk [regex_detector U today] payload ctx = Inr d
     \<and> sorted_wrt before (dr_entities d) \<and> (\<forall>e \<in> set (dr_entities d). valid_span payload e)"
  using regexd.engine_alone [of clk U today payload ctx] by blast

lemma proxy_services_ok:
  assumes "digest_text sha256" "digest_text blake2b" "valid_datetime now" "policy_text policy" "storable payload"
  shows "services_ok (proxy_services U today rnd clk sha256 blake2b now) policy payload"
  unfolding services_ok_def
proof (intro conjI allI impI)
  let ?S = "proxy_services U today rnd clk sha256 blake2b now"
  show "list_all is_scalar (sv_sha256 ?S x)" for x
    using assms(1) by (simp add: proxy_services_def digest_text_def)
  fix key s assume key: "list_all is_scalar key" and run: "prepare_mask ?S payload key policy = Inr s"
  obtain d where d: "engine_detect clk [regex_detector U today] payload (DetectionContext (cp_consumer_id policy)) = Inr d"
      "sorted_wrt before (dr_entities d)" "\<forall>e \<in> set (dr_entities d). valid_span payload e"
    using proxy_detect by blast
  let ?es = "enabled_entities policy d"
  from run d(1) obtain r h where
    r: "mask U rnd clk payload ?es (cp_masking policy) (cp_context_rules policy) = Inr r" and
    h: "hash_payload blake2b payload = Inr h" and
    s: "s = \<lparr>rs_payload_id = key, rs_original_hash = h, rs_original_text = payload,
            rs_masked_text = mr_masked_text r, rs_mappings = mr_mappings r,
            rs_entity_count = int (length ?es), rs_detected_types = detected_types ?es,
            rs_state = MASKED, rs_created_at = now, rs_expires_at = None,
            rs_consumer_id = cp_consumer_id policy\<rparr>"
    by (auto simp: prepare_mask_def proxy_services_def ebind_eq_Inr Let_def)
  have payload: "list_all is_scalar payload"
    using h encode_total [of payload] by (auto simp: hash_payload_def ebind_eq_Inr)
  have hash: "list_all is_scalar h"
    using h assms(2) by (auto simp: hash_payload_def ebind_eq_Inr digest_text_def)
  have "length ?es \<le> length (dr_entities d)" by (simp add: enabled_entities_def)
  also have "\<dots> \<le> length payload" using count_bound [OF d(2,3)] .
  finally have "length ?es < 10 ^ 4300" using assms(5) unfolding storable_def by (rule le_less_trans)
  then have "length (nat_str (length ?es)) \<le> 4300" by (rule nat_str_bound) simp
  then have count: "length (int_str (int (length ?es))) \<le> 4300" by (simp add: int_str_def)
  have types: "list_all (list_all is_scalar) (detected_types ?es)"
  proof -
    have "list_all is_scalar (pii_value t)" for t by (cases t) simp_all
    then show ?thesis by (simp add: detected_types_def list_all_iff)
  qed
  show "state_ok s"
    using key payload hash count types mask_scalar [OF r payload] assms(3,4)
    by (simp add: s state_ok_def policy_text_def)
qed

section \<open>Masking succeeds and is not empty\<close>

lemma engine_numeric:
  assumes "letters_no_digits U" and "engine_detect clk [regex_detector U today] t ctx = Inr d"
    and "e \<in> set (dr_entities d)"
  shows "maskable U e"
proof -
  from assms(2) obtain es where es: "regex_detect U today t = Inr es" "dr_entities d = resolve_spans es"
    by (auto simp: engine_detect_def regex_detector_def context_resolve_def ebind_eq_Inr)
  with assms(3) resolve_spans_subset [of es] have "e \<in> set es" by auto
  with regex_detect_numeric [OF assms(1) es(1)] show ?thesis .
qed

lemma prepare_total:
  assumes U: "letters_no_digits U" and rules: "cp_context_rules policy = VList (map VDict ds)"
    and payload: "list_all is_scalar payload"
  shows "\<exists>s. prepare_mask (proxy_services U today rnd clk sha256 blake2b now) payload key policy = Inr s"
proof -
  obtain d where d: "engine_detect clk [regex_detector U today] payload (DetectionContext (cp_consumer_id policy)) = Inr d"
    using proxy_detect by blast
  have "e \<in> set (dr_entities d)" if "e \<in> set (select_spans payload (enabled_entities policy d))" for e
    using select_spans_valid [OF that] that set_sorted_valid select_spans_selected
      [of payload "enabled_entities policy d"]
    by (auto simp: enabled_entities_def selected_for_def)
  then have "\<forall>e \<in> set (select_spans payload (enabled_entities policy d)). maskable U e"
    using engine_numeric [OF U d] by blast
  then obtain r where "mask U rnd clk payload (enabled_entities policy d) (cp_masking policy) (cp_context_rules policy) = Inr r"
    using mask_total resolve_rules_total [of ds] rules by metis
  moreover obtain bs where "encode payload = Inr bs" using payload encode_total by blast
  ultimately show ?thesis using d
    by (simp add: prepare_mask_def proxy_services_def hash_payload_def Let_def)
qed

lemma strategy_nonempty:
  assumes "strategy_mask U r s e = Inr x" and "e_value e \<noteq> []"
  shows "x \<noteq> []"
proof -
  have edges: "length y = length v" if "edges_loop U ds k v = Inr y" for ds k v y
    using that by (induction U ds k v arbitrary: y rule: edges_loop.induct) (auto simp: ebind_eq_Inr split: if_splits)
  have init: "mask_initials U v \<noteq> []" if "v \<noteq> []" for v
  proof (cases "runs (is_word U) v")
    case (Cons w ws)
    then show ?thesis by (cases ws) (simp_all add: mask_initials_def lit_def)
  qed (use that in \<open>simp add: mask_initials_def\<close>)
  have "mask_digits U v \<noteq> []" "mask_email U v \<noteq> []" "mask_numeric_edges U v = Inr y \<Longrightarrow> y \<noteq> []"
    if "v \<noteq> []" for v y
  proof -
    show "mask_digits U v \<noteq> []" using that by (simp add: mask_digits_def)
    show "mask_email U v \<noteq> []"
      using that by (auto simp: mask_email_def mask_all_alnum_def split: prod.split)
    show "mask_numeric_edges U v = Inr y \<Longrightarrow> y \<noteq> []"
      using that edges [of _ 0 v y] by (auto simp: mask_numeric_edges_def Let_def mask_digits_def split: if_splits)
  qed
  note parts = this [OF assms(2)] init [OF assms(2)]
  show ?thesis
  proof (cases s)
    case PARTIAL_MASK
    with assms parts show ?thesis
      by (auto simp: partial_mask_def Let_def mask_all_alnum_def split: if_splits)
  qed (use assms in \<open>auto simp: full_mask_def mask_all_alnum_def tokenize_mask_def synthetic_mask_def lit_def\<close>)
qed

lemma mask_nonempty:
  assumes run: "mask U rnd clk t es sbt cr = Inr r" and t: "t \<noteq> []"
  shows "mr_masked_text r \<noteq> []"
proof -
  obtain rules where rules: "resolve_context_rules cr = Inr rules"
    using run by (auto simp: mask_def Let_def ebind_eq_Inr)
  let ?ms = "masked_entities t es rules"
  from mask_returns [OF run rules] obtain reps where
    reps: "length reps = length ?ms"
      "\<forall>i < length reps. strategy_mask U (rnd i) (strategy_for sbt (e_type (?ms ! i))) (?ms ! i) = Inr (reps ! i)"
      "mr_masked_text r = splice t 0 (zip ?ms reps)" by blast
  show ?thesis
  proof (cases ?ms)
    case Nil
    with reps(3) t show ?thesis by simp
  next
    case (Cons e ms)
    with reps(1) obtain x xs where x: "reps = x # xs" by (cases reps) auto
    have "valid_span t e"
      using Cons select_spans_valid [of e t es] by (auto simp: masked_entities_def Let_def dest: filter_eq_ConsD)
    then have "e_value e \<noteq> []" using length_py_slice [of "e_start e" "e_end e" t] by (auto simp: valid_span_def)
    with strategy_nonempty reps(2) Cons x have "x \<noteq> []" by fastforce
    with reps(3) Cons x show ?thesis by simp
  qed
qed

section \<open>What the composition relies on\<close>

text \<open>What the composition relies on: digests are texts, times are valid, consumer ids are texts.\<close>

definition setup_ok :: "digest \<Rightarrow> digest \<Rightarrow> datetime \<Rightarrow> consumer_policy \<Rightarrow> pystr \<Rightarrow> bool" where
  "setup_ok sha256 blake2b now policy payload \<longleftrightarrow>
     digest_text sha256 \<and> digest_text blake2b \<and> valid_datetime now \<and> policy_text policy \<and> storable payload"

lemma setup_services:
  "setup_ok sha256 blake2b now policy payload \<Longrightarrow>
   services_ok (proxy_services U today rnd clk sha256 blake2b now) policy payload"
  by (simp add: setup_ok_def proxy_services_ok)

lemma process_ids: "process get transition S P env1 env2 clk payload payload_id policy st m = (Inr oc, st', m') \<Longrightarrow>
    payload \<noteq> [] \<and> payload_id \<noteq> []
    \<and> (\<exists>key. state_key (sv_sha256 S) (cp_consumer_id policy) payload_id = Inr key)"
  by (auto simp: process_def split: if_splits sum.splits)

section \<open>The proxy over any store\<close>

context restoration_store
begin

lemma proxy_kept:
  fixes U today clk sha256 blake2b
  defines "S \<equiv> \<lambda>rnd now. proxy_services U today rnd clk sha256 blake2b now"
  assumes inv: "inv st" and conf: "setup_ok sha256 blake2b now policy payload"
    and key: "state_key sha256 (cp_consumer_id policy) pid = Inr key"
    and fresh: "look st key (ttrans env2) = None" and env: "envok env1" "envok env2" "tget env1 \<le> ttrans env2"
    and first: "process get transition (S rnd now) P env1 env2 clk1 payload pid policy st m = (Inr oc, st1, m1)"
    and others: "in_time envok tget ttrans tend (tend env2) qs t1" "serve_all get transition P qs st1 m1 = (st2, m2)"
    and env': "envok env3" "envok env4" "tget env3 \<le> ttrans env4" "t1 \<le> ttrans env4" "ttrans env4 < tend env2 + life st"
    and policy': "cp_consumer_id policy' = cp_consumer_id policy" "cp_demasking_enabled policy'"
    and masked: "storable (oc_result oc)" "hash_payload blake2b (oc_result oc) \<noteq> hash_payload blake2b payload"
  shows "\<exists>oc' st' m'. process get transition (S rnd' now) P env3 env4 clk2 (oc_result oc) pid policy' st2 m2 = (Inr oc', st', m')
    \<and> oc_result oc' = payload \<and> oc_operation oc' = DEMASK"
proof -
  have ids: "payload \<noteq> []" "pid \<noteq> []" using process_ids [OF first] by auto
  have k: "state_key (sv_sha256 (S rnd now)) (cp_consumer_id policy) pid = Inr key"
    using key by (simp add: S_def proxy_services_def)
  from first_mask [OF inv env _ k fresh first] setup_services [OF conf] obtain c where
    c: "prepare_mask (S rnd now) payload key policy = Inr c" "oc_result oc = rs_masked_text c"
      "inv st1" "life st1 = life st"
      "keeps st1 key c (tend env2) (tend env2 + life st)"
    unfolding S_def by blast
  note cf = prepare_mask_fields [OF c(1)]
  have "tend env2 + life st \<le> tend env2 + life st1" using c(4) by simp
  from serve_all_keeps [OF c(3) others(1) c(5) this others(2)] have
    st2: "inv st2" "keeps st2 key c t1 (tend env2 + life st)" by auto
  have ok: "state_ok c"
    using setup_services [OF conf] c(1) state_key_scalar [OF _ k] unfolding services_ok_def S_def by blast
  have ne: "rs_masked_text c \<noteq> []"
    using c(1) mask_nonempty ids(1) by (auto simp: prepare_mask_def S_def proxy_services_def ebind_eq_Inr Let_def)
  have "setup_ok sha256 blake2b now policy' (rs_masked_text c)"
    using conf policy'(1) masked(1) c(2) by (simp add: setup_ok_def policy_text_def)
  from setup_services [OF this] have s': "services_ok (S rnd' now) policy' (rs_masked_text c)" unfolding S_def .
  have k': "state_key (sv_sha256 (S rnd' now)) (cp_consumer_id policy') pid = Inr key"
    using key policy'(1) by (simp add: S_def proxy_services_def)
  have cid: "rs_consumer_id c = cp_consumer_id policy'" using cf policy'(1) by simp
  have h: "hash_payload (sv_blake2b (S rnd' now)) (rs_masked_text c) \<noteq> Inr (rs_original_hash c)"
    using cf masked(2) c(2) by (simp add: S_def proxy_services_def)
  from demask_kept [OF st2(1) env'(1-3) s' ids(2) k' st2(2) env'(4,5) cid policy'(2) ne ok h, of P clk2 m2] cf c(2)
  show ?thesis by auto
qed

lemma demasks_own:
  assumes inv: "inv st" and S: "services_ok S policy payload" and env: "envok env1" "envok env2" "tget env1 \<le> ttrans env2"
    and run: "process get transition S P env1 env2 clk payload pid policy st m = (Inr oc, st', m')"
    and oper: "oc_operation oc = DEMASK"
  shows "\<exists>key c. state_key (sv_sha256 S) (cp_consumer_id policy) pid = Inr key
    \<and> look st key (ttrans env2) = Some c \<and> rs_consumer_id c = cp_consumer_id policy
    \<and> rs_masked_text c = payload \<and> oc_result oc = rs_original_text c
    \<and> (cp_demasking_enabled policy \<or> rs_state c = DEMASKED)"
proof -
  from process_effect [OF inv env S, of P clk pid m] run obtain key s where
    s: "state_key (sv_sha256 S) (cp_consumer_id policy) pid = Inr key"
      "lifecycle S policy key payload (look st key (ttrans env2)) = Inr s" "answers s (Inr oc)" by auto
  from s(3) oper have d: "rs_state s \<noteq> MASKED" "oc_result oc = rs_original_text s"
    by (auto simp: answers_def outcome_of_def make_outcome_def split: if_splits)
  show ?thesis
  proof (cases "look st key (ttrans env2)")
    case None
    with s(2) prepare_mask_fields [of S payload key policy s] d(1) show ?thesis
      by (simp add: lifecycle_def transition_state_def)
  next
    case (Some c)
    then have "rs_consumer_id c = cp_consumer_id policy \<and> rs_masked_text c = payload
        \<and> rs_original_text s = rs_original_text c \<and> (cp_demasking_enabled policy \<or> rs_state c = DEMASKED)"
      using s(2) d(1) state_status.exhaust [of "rs_state c"]
      by (auto simp: lifecycle_def transition_state_def ebind_eq_Inr demask_state_def split: if_splits)
    with Some s(1) d(2) show ?thesis by auto
  qed
qed

end

section \<open>The proxy over the in-memory store\<close>

abbreviation mem_process where
  "mem_process F \<equiv> process (mem_get F) (mem_transition F)"

abbreviation mem_time where
  "mem_time \<equiv> in_time env_ok (\<lambda>e. en_clock e 0) (\<lambda>e. en_clock e 1) (\<lambda>e. en_clock e 2)"

abbreviation calls_ok :: "env \<Rightarrow> env \<Rightarrow> bool" where
  "calls_ok env1 env2 \<equiv> env_ok env1 \<and> env_ok env2 \<and> en_clock env1 0 \<le> en_clock env2 1"

text \<open>
  C20: Masking is reversible through the proxy (round trip).  Let a first request with a new payload
  id be answered, and let any other requests follow, by any consumers, for any payload ids and with
  any payloads, this one included.  Within the life time of the record the same consumer who presents
  the masked text under the same payload id gets exactly the original payload, unless the masked text
  has the same digest as the original, and provided demasking is enabled.
\<close>

theorem proxy_roundtrip:
  fixes U today clk sha256 blake2b
  defines "S \<equiv> \<lambda>rnd now. proxy_services U today rnd clk sha256 blake2b now"
  assumes F: "fernet_ok F" and st: "mem_inv F st" and conf: "setup_ok sha256 blake2b now policy payload"
    and key: "state_key sha256 (cp_consumer_id policy) pid = Inr key"
    and fresh: "mem_look F st key (en_clock env2 1) = None" and env: "calls_ok env1 env2"
    and first: "mem_process F (S rnd now) P env1 env2 clk1 payload pid policy st m = (Inr oc, st1, m1)"
    and others: "mem_time (en_clock env2 2) qs t1" "serve_all (mem_get F) (mem_transition F) P qs st1 m1 = (st2, m2)"
    and env': "calls_ok env3 env4" "t1 \<le> en_clock env4 1" "en_clock env4 1 < en_clock env2 2 + ms_ttl_seconds st"
    and policy': "cp_consumer_id policy' = cp_consumer_id policy" "cp_demasking_enabled policy'"
    and masked: "storable (oc_result oc)" "hash_payload blake2b (oc_result oc) \<noteq> hash_payload blake2b payload"
  shows "\<exists>oc' st' m'. mem_process F (S rnd' now) P env3 env4 clk2 (oc_result oc) pid policy' st2 m2 = (Inr oc', st', m')
    \<and> oc_result oc' = payload \<and> oc_operation oc' = DEMASK"
  using mem.proxy_kept [of F st sha256 blake2b now policy payload pid key env2 env1 U today rnd clk P clk1 m oc st1 m1
      qs t1 st2 m2 env3 env4 policy' rnd' clk2] assms
  unfolding S_def by blast


text \<open>
  On texts without surrogates, with the default engines, a request is answered or refused with an
  exception of the domain, and a refused request leaves what the store shows under every key as it was.
\<close>

lemma mem_process_errors:
  assumes F: "fernet_ok F" and st: "mem_inv F st" and conf: "setup_ok sha256 blake2b now policy payload"
    and U: "letters_no_digits U" and rules: "cp_context_rules policy = VList (map VDict ds)"
    and strs: "list_all is_scalar payload" "list_all is_scalar pid" and env: "calls_ok env1 env2"
    and run: "mem_process F (proxy_services U today rnd clk sha256 blake2b now) P env1 env2 clk1 payload pid policy st m
      = (Inl e, st', m')"
  shows "is_domain_error e \<and> mem_inv F st'
     \<and> (\<forall>q t. en_clock env2 2 \<le> t \<longrightarrow> mem_look F st' q t = mem_look F st q t)"
proof -
  let ?S = "proxy_services U today rnd clk sha256 blake2b now"
  have inv: "fernet_ok F \<and> mem_inv F st" using F st by blast
  have e1: "env_ok env1" "env_ok env2" "en_clock env1 0 \<le> en_clock env2 1" using env by auto
  note S = setup_services [OF conf, of U today rnd clk]
  have un: "mem.unchanged F st st' (en_clock env2 2)"
    using mem.process_effect [OF inv e1 S, of P clk1 pid m] run by (auto simp: answers_def)
  have "is_domain_error e"
  proof (cases "payload = [] \<or> pid = []")
    case True
    then show ?thesis using run by (auto simp: process_def)
  next
    case False
    then have ne: "payload \<noteq> []" "pid \<noteq> []" by auto
    have "list_all is_scalar (cp_consumer_id policy @ [0] @ pid)"
      using conf strs(2) by (simp add: setup_ok_def policy_text_def is_scalar_def)
    then obtain bs where "encode (cp_consumer_id policy @ [0] @ pid) = Inr bs" using encode_total by blast
    then obtain key where key: "state_key (sv_sha256 ?S) (cp_consumer_id policy) pid = Inr key"
      by (simp add: state_key_def)
    note sc = state_key_scalar [OF S key]
    show ?thesis
    proof (cases "lifecycle ?S policy key payload (mem_look F st key (en_clock env2 1))")
      case (Inr s)
      from mem.process_accept [OF inv e1 S ne key Inr, of P clk1 m] run show ?thesis by (auto simp: answers_def)
    next
      case (Inl e')
      from mem.process_reject [OF inv e1 ne key sc Inl, of P clk1 m] run have e': "e' = e" by auto
      obtain bs where "encode payload = Inr bs" using strs(1) encode_total by blast
      moreover obtain s where "prepare_mask ?S payload key policy = Inr s"
        using prepare_total [OF U rules strs(1)] by blast
      ultimately show ?thesis using Inl e'
        by (auto simp: lifecycle_def transition_state_def hash_payload_def mismatch_def demask_state_def
            split: option.splits if_splits)
    qed
  qed
  with un show ?thesis unfolding mem.unchanged_def by blast
qed

end
