(* ===== verification/Service.thy ===== *)
theory Service
  imports Api Proxy
begin

text \<open>
  The application over the in-memory store with the default engines: what a client of
  \<open>POST /process\<close> can be answered.
\<close>

section \<open>Answers\<close>

text \<open>The status and body that the API makes of a domain exception\<close>

definition error_answer :: "exn \<Rightarrow> int \<times> pyval" where
  "error_answer e =
     (case e of
        ProcessingError m \<Rightarrow> (500, VDict [(VStr (lit ''error''), VStr (lit ''PROCESSING_ERROR'')),
                                    (VStr (lit ''message''), VStr (lit ''internal error''))])
      | _ \<Rightarrow> (status_code e, VDict [(VStr (lit ''error''), VStr (error_type e)),
                                 (VStr (lit ''message''), VStr (exn_message e))]))"

definition answered_with :: "response \<Rightarrow> pystr \<Rightarrow> bool" where
  "answered_with r result \<longleftrightarrow> rp_status r = 200 \<and> rp_content r = VDict [(VStr (lit ''result''), VStr result)]"

definition refused_with :: "response \<Rightarrow> exn \<Rightarrow> bool" where
  "refused_with r e \<longleftrightarrow> is_domain_error e \<and> (rp_status r, rp_content r) = error_answer e"

lemma handle_domain:
  "is_domain_error e \<Longrightarrow> \<exists>r w'. handle_exception A rid e w = (Inr r, w') \<and> refused_with r e \<and> w_store w' = w_store w"
  by (cases e) (auto simp: handle_exception_def handle_processing_error_def handle_domain_error_def refused_with_def
      error_answer_def json_response_def Let_def log_to_def count_error_def)

lemma hash_id_total: "list_all is_scalar pid \<Longrightarrow> \<exists>h. hash_identifier sha256 pid n = Inr h"
  using encode_total [of pid] by (auto simp: hash_identifier_def)

text \<open>The policies the application was started with\<close>

definition policies_ok :: "policies \<Rightarrow> bool" where
  "policies_ok ps \<longleftrightarrow> (\<forall>c policy. get_policy ps c = Inr policy \<longrightarrow>
     policy_text policy \<and> (\<exists>ds. cp_context_rules policy = VList (map VDict ds)))"

definition texts_ok :: "digest \<Rightarrow> digest \<Rightarrow> datetime \<Rightarrow> pystr \<times> pystr \<Rightarrow> bool" where
  "texts_ok sha256 blake2b now body \<longleftrightarrow> digest_text sha256 \<and> digest_text blake2b \<and> valid_datetime now
     \<and> storable (fst body) \<and> list_all is_scalar (fst body) \<and> list_all is_scalar (snd body)"

definition shows_same :: "fernet \<Rightarrow> mstore \<Rightarrow> mstore \<Rightarrow> rat \<Rightarrow> bool" where
  "shows_same F st st' t0 \<longleftrightarrow> (\<forall>key t. t0 \<le> t \<longrightarrow> mem_look F st' key t = mem_look F st key t)"

lemma route_answers:
  assumes A: "sr_get A = mem_get F" "sr_transition A = mem_transition F" "policies_ok (sr_policies A)"
    and q: "hq_services q = proxy_services U today rnd clk sha256 blake2b now"
      "calls_ok (hq_env_get q) (hq_env_trans q)" "texts_ok sha256 blake2b now (payload, pid)"
    and U: "letters_no_digits U" and st: "fernet_ok F" "mem_inv F (w_store w)"
    and run: "process_route A q payload pid w = (x, w')"
  shows "mem_inv F (w_store w') \<and>
    (case x of Inr r \<Rightarrow> \<exists>t. answered_with r t
     | Inl e \<Rightarrow> is_domain_error e \<and> shows_same F (w_store w) (w_store w') (en_clock (hq_env_trans q) 2))"
proof (cases "get_policy (sr_policies A) (get_consumer_id A (hq_consumer_id q))")
  case (Inl e)
  then have "is_domain_error e" by (auto simp: get_policy_def split: option.splits if_splits)
  with Inl run st show ?thesis by (auto simp: process_route_def Let_def shows_same_def)
next
  case (Inr policy)
  let ?S = "proxy_services U today rnd clk sha256 blake2b now"
  from A(3) Inr obtain ds where policy: "policy_text policy" "cp_context_rules policy = VList (map VDict ds)"
    unfolding policies_ok_def by blast
  obtain y st' m' where p: "mem_process F ?S (sr_collectors A) (hq_env_get q) (hq_env_trans q) (hq_timers q)
      payload pid policy (w_store w) (w_metrics w) = (y, st', m')" by (metis prod.exhaust)
  have conf: "setup_ok sha256 blake2b now policy payload" and strs: "list_all is_scalar payload" "list_all is_scalar pid"
    using q(3) policy(1) by (auto simp: texts_ok_def setup_ok_def)
  from hash_id_total [OF strs(2)] obtain h where h: "hash_identifier sha256 pid 12 = Inr h" by blast
  have sha: "sv_sha256 ?S = sha256" by (simp add: proxy_services_def)
  show ?thesis
  proof (cases y)
    case (Inl e)
    from mem_process_errors [OF st conf U policy(2) strs q(2) p [unfolded Inl]]
    show ?thesis using run Inr p Inl A q(1) by (auto simp: process_route_def Let_def shows_same_def)
  next
    case ok: (Inr oc)
    have inv: "fernet_ok F \<and> mem_inv F (w_store w)" using st by blast
    from q(2) have e: "env_ok (hq_env_get q)" "env_ok (hq_env_trans q)"
      "en_clock (hq_env_get q) 0 \<le> en_clock (hq_env_trans q) 1" by auto
    from mem.process_effect [OF inv e setup_services [OF conf], of U today rnd clk "sr_collectors A" "hq_timers q" pid
        "w_metrics w"] p have "mem_inv F st'" by (auto simp: mem.unchanged_def mem.advanced_def)
    moreover have "answered_with (json_response 200 [(''result'', VStr (oc_result oc))] []) (oc_result oc)"
      by (simp add: answered_with_def json_response_def)
    ultimately show ?thesis using run Inr p ok A q(1) h sha
      by (auto simp: process_route_def Let_def log_to_def)
  qed
qed

section \<open>Property\<close>

text \<open>
  C27: The API has no unexpected errors (error behaviour).  A valid request to \<open>/process\<close> whose strings
  have no surrogates is answered with status 200 and a result, is turned away by the rate limiter, or
  is refused with the status and the body of a domain exception, with \<open>internal error\<close> as the only
  message of a processing error; the answer of the handler for unexpected exceptions is never sent.  A
  refused request leaves what the store shows under every key as it was, and every request preserves
  the invariant of the store.
\<close>

theorem api_process_answers:
  assumes "sr_get A = mem_get F" "sr_transition A = mem_transition F" "policies_ok (sr_policies A)"
    and "hq_services q = proxy_services U today rnd clk sha256 blake2b now"
      "calls_ok (hq_env_get q) (hq_env_trans q)" "texts_ok sha256 blake2b now body"
    and "letters_no_digits U" and "fernet_ok F" "mem_inv F (w_store w)"
    and q: "hq_route q = Some Process_Route" "hq_body q = Some body" "ProcessRequest body"
    and run: "serve_http A q w = (r, w')"
  shows "mem_inv F (w_store w') \<and>
    ((\<exists>result. answered_with r result)
     \<or> (r = too_many_requests \<or> (\<exists>e. refused_with r e))
       \<and> shows_same F (w_store w) (w_store w') (en_clock (hq_env_trans q) 2))"
proof (cases "limited q w")
  case True
  then have "r = too_many_requests \<and> w_store w' = w_store w"
    using run by (auto simp: limited_def serve_http_def rate_limit_def log_to_def split: prod.splits bool.splits)
  with assms(9) show ?thesis by (simp add: shows_same_def)
next
  case False
  obtain payload pid where body: "body = (payload, pid)" by (cases body)
  from not_limited [OF False] obtain l where l: "rate_limit A q w = observe_http_request A q (w\<lparr>w_limiter := l\<rparr>)"
    by blast
  let ?w = "w\<lparr>w_limiter := l, w_metrics := safe (sr_collectors A) (Inc inflight_requests [] 1) (w_metrics w)\<rparr>"
  obtain x w1 where x: "process_route A q payload pid ?w = (x, w1)" by (metis prod.exhaust)
  have "mem_inv F (w_store ?w)" using assms(9) by simp
  note route = route_answers [OF assms(1-5) assms(6) [unfolded body] assms(7,8) this x]
  obtain r2 w2 where answer: "call_next A q (shown_request_id q) ?w = (Inr r2, w2)" "w_store w2 = w_store w1"
    "case x of Inr r1 \<Rightarrow> r2 = r1 | Inl e \<Rightarrow> refused_with r2 e"
  proof (cases x)
    case (Inr r1)
    with x q body that show ?thesis by (simp add: call_next_def)
  next
    case (Inl e)
    with route have "is_domain_error e" by simp
    from handle_domain [OF this, of A "Some (shown_request_id q)" w1] obtain r2 w2 where
      "handle_exception A (Some (shown_request_id q)) e w1 = (Inr r2, w2)" "refused_with r2 e" "w_store w2 = w_store w1"
      by blast
    with x q body Inl that show ?thesis by (simp add: call_next_def)
  qed
  then have w': "w_store w' = w_store w1" "rp_status r = rp_status r2" "rp_content r = rp_content r2"
    using run l answer(1,2) by (auto simp: serve_http_def observe_http_request_def track_inflight_def Let_def log_to_def
        shown_request_id_def)
  with route answer(3) show ?thesis
    by (cases x) (auto simp: answered_with_def refused_with_def shows_same_def)
qed

end
