(* ===== verification/DetectionExample.thy ===== *)
theory DetectionExample
  imports Detection
begin

text \<open>
  A concrete run of the detection engine, on the text \<open>q@q.qq\<close>: every pattern but the one for e-mail
  addresses demands a character that the text does not have.
\<close>

section \<open>What the detector finds\<close>

text \<open>Every match of the expression contains a character of the class.\<close>

primrec demands :: "(codepoint \<Rightarrow> bool) \<Rightarrow> rx \<Rightarrow> bool" where
  "demands P Eps = False"
| "demands P (Cls Q) = (\<forall>c. Q c \<longrightarrow> P c)"
| "demands P (Seq a b) = (demands P a \<or> demands P b)"
| "demands P (Alt a b) = (demands P a \<and> demands P b)"
| "demands P (Rep lo hi gr a) = (lo > 0 \<and> demands P a)"
| "demands P (Grp a) = demands P a"
| "demands P (NotBehind Q) = False"
| "demands P (NotAhead Q) = False"
| "demands P (WordB W) = False"
| "demands P EndA = False"

definition mail :: pystr where
  "mail = [113, 64, 113, 46, 113, 113]"

lemma demands_seqs: "demands P (seqs rs) \<longleftrightarrow> (\<exists>r \<in> set rs. demands P r)"
  by (induction rs rule: seqs.induct) auto

lemma demands_alts: "rs \<noteq> [] \<Longrightarrow> demands P (alts rs) \<longleftrightarrow> (\<forall>r \<in> set rs. demands P r)"
  by (induction rs rule: alts.induct) auto

lemma demands_word: "demands P (word_rx s) \<longleftrightarrow> (\<exists>c \<in> set s. P c)"
  by (auto simp: word_rx_def demands_seqs one_of_def)

lemma matches_demands:
  "demands P r \<Longrightarrow> s' \<in> set (matches r t s) \<Longrightarrow> \<exists>i < length t. P (t ! i)"
proof (induction r arbitrary: s s')
  case (Rep lo hi gr a)
  then obtain n where lo: "lo = Suc n" and st: "demands P a" by (cases lo) auto
  from Rep.prems(2) obtain y where "y \<in> set (matches a t s)" by (auto simp: lo)
  with Rep.IH [OF st] show ?case by blast
qed (fastforce split: if_splits)+

lemma finditer_none:
  assumes "demands P r" and "\<forall>c \<in> set t. \<not> P c"
  shows "finditer r t = []"
proof (cases "finditer r t")
  case (Cons m ms)
  obtain a b g where "m = (a, b, g)" by (cases m)
  with Cons finditer_sound [of a b g r t] matches_demands [OF assms(1)] have "\<exists>i < length t. P (t ! i)" by fastforce
  with assms(2) show ?thesis by auto
qed

lemma demands_ci_word: "demands P (ci_word U s) \<longleftrightarrow> (\<exists>p \<in> set s. demands P (ci_char U p))"
  by (simp add: ci_word_def demands_seqs)

abbreviation foreign :: "codepoint \<Rightarrow> bool" where
  "foreign \<equiv> \<lambda>c. c \<notin> set mail"

lemma demands_ci_char: "p \<notin> {46, 64, 113} \<Longrightarrow> demands foreign (ci_char U p)"
  by (auto simp: ci_char_def mail_def lower1_def ascii_lower_def extra_cases_def)

lemma foreign_classes:
  "cyr_upper c \<Longrightarrow> foreign c" "cyr_lower c \<Longrightarrow> foreign c" "cyr_letter c \<Longrightarrow> foreign c"
  "ascii_digit_char c \<Longrightarrow> foreign c" "latin_upper c \<Longrightarrow> foreign c" "is_decimal U c \<Longrightarrow> foreign c"
  by (auto simp: cyr_upper_def cyr_lower_def cyr_letter_def ascii_digit_char_def latin_upper_def
      is_decimal_def class_of_def ascii_class_def mail_def)

lemma foreign_chars: "foreign 8470" "foreign 45"
  by (simp_all add: mail_def)

lemma others_demand: "\<forall>(t, r) \<in> set (tl (RULES ucd_ru)). demands foreign r"
  apply (simp add: RULES_def pattern_defs piece_defs lit_def demands_word demands_seqs demands_ci_word
    demands_alts demands_ci_char foreign_classes
      foreign_chars)
  done

lemma mail_found: "finditer (EMAIL_RE ucd_ru) mail = [(0, 6, None)]"
  by code_simp

definition mail_entity :: pii_entity where
  "mail_entity = PIIEntity EMAIL mail 0 6 1 (lit ''regex'')"

lemma detect_mail: "regex_detect ucd_ru today mail = Inr [mail_entity]"
proof -
  have "efold (detect_rule ucd_ru today mail) es rs = Inr es" if "\<forall>(t, r) \<in> set rs. finditer r mail = []" for es rs
    using that by (induction rs) (auto simp: detect_rule_def)
  moreover have "\<forall>(t, r) \<in> set (tl (RULES ucd_ru)). finditer r mail = []"
    using others_demand by (auto intro!: finditer_none [of foreign])
  ultimately have rest: "efold (detect_rule ucd_ru today mail) es (tl (RULES ucd_ru)) = Inr es" for es by blast
  have "py_slice mail 0 6 = mail" by (simp add: py_slice_def clamp_ix_def mail_def)
  then have "detect_rule ucd_ru today mail [] (EMAIL, EMAIL_RE ucd_ru) = Inr [mail_entity]"
    by (simp add: detect_rule_def mail_found detect_match_def match_span_def keep_value_def GROUPED_TYPES_def
        VALIDATORS_def MARKER_TYPES_def mail_entity_def ADDRESS_COMPONENT_TYPES_def)
  moreover have "RULES ucd_ru = (EMAIL, EMAIL_RE ucd_ru) # tl (RULES ucd_ru)" by (simp add: RULES_def)
  ultimately show ?thesis using rest unfolding regex_detect_def by (metis ebind_Inr efold.simps(2))
qed

lemma engine_mail:
  "\<exists>d. engine_detect clk [regex_detector ucd_ru today] mail ctx = Inr d \<and> dr_entities d = [mail_entity]"
proof -
  have "resolve_spans [mail_entity] = [mail_entity]"
    by (rule resolve_spans_fixed) (simp_all add: mail_entity_def)
  then show ?thesis
    by (simp add: engine_detect_def regex_detector_def detect_mail context_resolve_def)
qed

end
