(* ===== verification/ProxyExample.thy ===== *)
theory ProxyExample
  imports Service DetectionExample
begin

text \<open>
  A concrete run of the composed proxy, on the text \<open>q@q.qq\<close>: the witnesses of \<open>Proxy\<close> and \<open>Service\<close>.
\<close>

section \<open>A run\<close>

definition mail_mask :: pystr where
  "mail_mask = [42, 64, 42, 46, 42, 42]"

definition toy_digest :: digest where
  "toy_digest bs = (if bs = mail then [49] else [48])"

definition mail_policy :: consumer_policy where
  "mail_policy = \<lparr>cp_consumer_id = lit ''c'', cp_enabled = True, cp_enabled_types = [EMAIL], cp_masking = [],
     cp_demasking_enabled = True, cp_context_rules = VList (map VDict [])\<rparr>"

definition noon :: datetime where
  "noon = \<lparr>d_date = (2024, 2, 29), d_hour = 12, d_minute = 0, d_second = 0, d_micro = 5\<rparr>"

abbreviation mail_services :: services where
  "mail_services \<equiv> proxy_services ucd_ru (2024, 2, 29) (\<lambda>_. 0) (\<lambda>_. 0) toy_digest toy_digest noon"

lemma mail_mask_digest: "hash_payload toy_digest mail_mask \<noteq> hash_payload toy_digest mail"
  by (simp add: hash_payload_def encode_def mail_mask_def mail_def toy_digest_def utf8_char_def is_scalar_def)

lemma mail_setup: "length t < 100 \<Longrightarrow> setup_ok toy_digest toy_digest noon mail_policy t"
proof -
  assume "length t < 100"
  also have "(100 :: nat) = 10 ^ 2" by simp
  also have "\<dots> \<le> 10 ^ 4300" by (rule power_increasing) simp_all
  finally have "storable t" unfolding storable_def .
  then show ?thesis
    by (simp add: setup_ok_def digest_text_def toy_digest_def policy_text_def mail_policy_def noon_def
        valid_datetime_def valid_date_def days_in_month_def leap_year_def is_scalar_def)
qed

lemma mail_prepared:
  "\<exists>c. prepare_mask mail_services mail key mail_policy = Inr c \<and> rs_masked_text c = mail_mask"
proof -
  obtain d where d: "engine_detect (\<lambda>_. 0) [regex_detector ucd_ru (2024, 2, 29)] mail (DetectionContext (lit ''c'')) = Inr d"
    "dr_entities d = [mail_entity]" using engine_mail by blast
  have "enabled_entities mail_policy d = [mail_entity]"
    by (simp add: enabled_entities_def d(2) mail_policy_def mail_entity_def)
  moreover have "\<exists>r. mask ucd_ru (\<lambda>_. 0) (\<lambda>_. 0) mail [mail_entity] [] (VList (map VDict [])) = Inr r
      \<and> mr_masked_text r = mail_mask"
    by (simp add: mask_eval mail_def mail_entity_def mail_mask_def context_allows_def)
  moreover have "\<exists>bs. encode mail = Inr bs"
    using encode_total [of mail] by (simp add: mail_def is_scalar_def)
  ultimately show ?thesis using d(1)
    by (auto simp: prepare_mask_def proxy_services_def mail_policy_def hash_payload_def Let_def)
qed

text \<open>An empty store has room for the first record.\<close>

lemma empty_accepts:
  assumes F: "fernet_ok F" and c: "state_ok c" "rs_payload_id c = key" and fn: "fn None = Inr (Some c)" and m: "0 < m"
  shows "\<exists>st'. mem_transition F env key fn (InMemoryRestorationStore ttl m) = (Inr (Some c), st')"
proof -
  let ?e = "InMemoryRestorationStore ttl m"
  have "evict_expired t ?e = ?e" for t by (simp add: evict_expired_def InMemoryRestorationStore_def)
  then have b: "trans_begin F env key ?e = (Inr None, ?e)"
    by (simp add: trans_begin_def) (simp add: InMemoryRestorationStore_def)
  have "mem_inv F ?e" by (simp add: mem_inv_def InMemoryRestorationStore_def)
  moreover have "has_key key ?e \<or> int (length (ms_data ?e)) < ms_max_entries ?e"
    using m by (simp add: InMemoryRestorationStore_def)
  ultimately obtain st' where "store_entry F (en_clock env 2) (en_nonce env) key c ?e = (Inr (), st')"
    using store_entry_ok [OF F _ c] by blast
  then show ?thesis using b fn by (simp add: mem_transition_def trans_commit_def)
qed

definition no_metrics :: "unit metrics" where
  "no_metrics = \<lparr>mt_registry = (), mt_stage_max_values = []\<rparr>"

abbreviation mail_process where
  "mail_process env1 env2 payload st m \<equiv>
     mem_process clear_fernet mail_services (\<lambda>_ r. Inr r) env1 env2 (\<lambda>_. 0) payload (lit ''1'') mail_policy st m"

lemma mail_key: "\<exists>key. state_key toy_digest (cp_consumer_id mail_policy) (lit ''1'') = Inr key"
proof -
  have "list_all is_scalar (lit ''c'' @ [0] @ lit ''1'')" by (simp add: lit_def is_scalar_def)
  then obtain bs where "encode (lit ''c'' @ [0] @ lit ''1'') = Inr bs" using encode_total by blast
  then show ?thesis by (simp add: state_key_def mail_policy_def)
qed

lemma mail_state_ok:
  assumes "state_key toy_digest (cp_consumer_id mail_policy) (lit ''1'') = Inr key"
    and "prepare_mask mail_services mail key mail_policy = Inr c"
  shows "state_ok c"
proof -
  have S: "services_ok mail_services mail_policy mail"
    using setup_services [OF mail_setup [of mail]] by (simp add: mail_def)
  have "state_key (sv_sha256 mail_services) (cp_consumer_id mail_policy) (lit ''1'') = Inr key"
    using assms(1) by (simp add: proxy_services_def)
  with S assms(2) state_key_scalar [OF S] show ?thesis unfolding services_ok_def by blast
qed

text \<open>The first request over any store that shows nothing under the key and takes the record\<close>

abbreviation mail_step :: "pystr \<Rightarrow> rstate \<Rightarrow> transition_fn" where
  "mail_step key c \<equiv> \<lambda>current.
     ebind (transition_state mail_services current mail key mail_policy (Some c)) (\<lambda>s. Inr (Some s))"

lemma mail_first_any:
  assumes key: "state_key toy_digest (cp_consumer_id mail_policy) (lit ''1'') = Inr key"
    and c: "prepare_mask mail_services mail key mail_policy = Inr c" "rs_masked_text c = mail_mask"
    and g: "get env1 key st = (Inr None, st)" and t: "transition env2 key (mail_step key c) st = (Inr (Some c), st')"
  shows "\<exists>oc m1. process get transition mail_services (\<lambda>_ r. Inr r) env1 env2 (\<lambda>_. 0) mail (lit ''1'') mail_policy st no_metrics
      = (Inr oc, st', m1) \<and> oc_result oc = mail_mask"
proof -
  have S: "services_ok mail_services mail_policy mail"
    using setup_services [OF mail_setup [of mail]] by (simp add: mail_def)
  have k: "state_key (sv_sha256 mail_services) (cp_consumer_id mail_policy) (lit ''1'') = Inr key"
    using key by (simp add: proxy_services_def)
  have o: "oc_result (outcome_of c) = mail_mask"
    using prepare_mask_fields [OF c(1)] c(2) by (simp add: outcome_of_def make_outcome_def)
  have ne: "mail \<noteq> []" "lit ''1'' \<noteq> []" by (simp_all add: mail_def lit_def)
  from lifecycle_ok [OF S state_key_scalar [OF S k], of None c] c(1) obtain bs where "encode mail = Inr bs"
    by (auto simp: lifecycle_def transition_state_def)
  from record_outcome_answers [OF this] obtain m' where
    "record_outcome (\<lambda>_ r. Inr r) ((outcome_of c)\<lparr>oc_duration_ms := elapsed_ms (\<lambda>_. 0) 0 7,
        oc_stage_timings := stage_timings (\<lambda>_. 0) True\<rparr>) mail no_metrics
      = (Inr ((outcome_of c)\<lparr>oc_duration_ms := elapsed_ms (\<lambda>_. 0) 0 7,
        oc_stage_timings := stage_timings (\<lambda>_. 0) True\<rparr>), m')" by blast
  with k c(1) t g ne o show ?thesis
    by (simp add: process_def outcome_from_state_def)
qed

lemma mail_first:
  "\<exists>oc st1 m1. mail_process (at_time 0) (at_time 0) mail (InMemoryRestorationStore 10 5) no_metrics = (Inr oc, st1, m1)
     \<and> oc_result oc = mail_mask"
proof -
  obtain key where key: "state_key toy_digest (cp_consumer_id mail_policy) (lit ''1'') = Inr key" using mail_key by blast
  obtain c where c: "prepare_mask mail_services mail key mail_policy = Inr c" "rs_masked_text c = mail_mask"
    using mail_prepared by blast
  have "mail_step key c None = Inr (Some c)" by (simp add: transition_state_def)
  from empty_accepts [where fn = "mail_step key c" and key = key and m = 5 and ttl = 10 and env = "at_time 0",
      OF clear_fernet_ok mail_state_ok [OF key c(1)] _ this] prepare_mask_fields [OF c(1)] obtain st' where
    t: "mem_transition clear_fernet (at_time 0) key (mail_step key c) (InMemoryRestorationStore 10 5) = (Inr (Some c), st')"
    by auto
  have "mem_get clear_fernet (at_time 0) key (InMemoryRestorationStore 10 5) = (Inr None, InMemoryRestorationStore 10 5)"
    by (simp add: mem_get_def InMemoryRestorationStore_def)
  from mail_first_any [where get = "mem_get clear_fernet" and transition = "mem_transition clear_fernet", OF key c this t]
  show ?thesis by blast
qed

text \<open>A store that holds the record demasks.\<close>

lemma demask_run:
  "\<exists>st2 (m2 :: unit metrics) oc' st' m'. mem_inv clear_fernet st2
     \<and> mail_process (at_time 2) (at_time 2) mail_mask st2 m2 = (Inr oc', st', m') \<and> oc_operation oc' = DEMASK"
proof -
  obtain key where key: "state_key toy_digest (cp_consumer_id mail_policy) (lit ''1'') = Inr key" using mail_key by blast
  have k: "state_key (sv_sha256 mail_services) (cp_consumer_id mail_policy) (lit ''1'') = Inr key"
    using key by (simp add: proxy_services_def)
  obtain oc st1 m1 where first:
    "mail_process (at_time 0) (at_time 0) mail (InMemoryRestorationStore 10 5) no_metrics = (Inr oc, st1, m1)"
    using mail_first by blast
  have inv: "fernet_ok clear_fernet \<and> mem_inv clear_fernet (InMemoryRestorationStore 10 5)"
    using clear_fernet_ok by (simp add: mem_inv_def InMemoryRestorationStore_def)
  have fresh: "mem_look clear_fernet (InMemoryRestorationStore 10 5) key (en_clock (at_time 0) 1) = None"
    by (simp add: mem_look_def InMemoryRestorationStore_def)
  have e0: "env_ok (at_time t)" "en_clock (at_time t) 0 \<le> en_clock (at_time t) 1" for t
    by (simp_all add: at_time_def env_ok_def)
  have S: "services_ok mail_services mail_policy mail"
    using setup_services [OF mail_setup [of mail]] by (simp add: mail_def)
  from mem.first_mask [OF inv e0(1) e0(1) e0(2) S k fresh first] obtain c where
    c: "prepare_mask mail_services mail key mail_policy = Inr c" "fernet_ok clear_fernet \<and> mem_inv clear_fernet st1"
      "mem.keeps clear_fernet st1 key c (en_clock (at_time 0) 2) (en_clock (at_time 0) 2 + 10)"
    by (auto simp: InMemoryRestorationStore_def)
  have m: "rs_masked_text c = mail_mask" using mail_prepared [of key] c(1) by auto
  have S': "services_ok mail_services mail_policy (rs_masked_text c)"
    using setup_services [OF mail_setup [of mail_mask]] by (simp add: m mail_mask_def)
  have ok: "state_ok c" using S c(1) state_key_scalar [OF S k] unfolding services_ok_def by blast
  have t: "en_clock (at_time 0) 2 \<le> en_clock (at_time 2) 1" "en_clock (at_time 2) 1 < en_clock (at_time 0) 2 + 10"
    by (simp_all add: at_time_def)
  from mail_mask_digest have h: "hash_payload (sv_blake2b mail_services) (rs_masked_text c) \<noteq> Inr (rs_original_hash c)"
    using prepare_mask_fields [OF c(1)] by (simp add: m proxy_services_def)
  have p: "lit ''1'' \<noteq> []" "rs_consumer_id c = cp_consumer_id mail_policy" "cp_demasking_enabled mail_policy"
    "rs_masked_text c \<noteq> []"
    using prepare_mask_fields [OF c(1)] by (simp_all add: m mail_mask_def lit_def mail_policy_def)
  from mem.demask_kept [OF c(2) e0(1) e0(1) e0(2) S' p(1) k c(3) t p(2,3,4) ok h,
      of "\<lambda>_ r. Inr r" "\<lambda>_. 0" no_metrics] c(2) m show ?thesis by metis
qed

theorem proxy_roundtrip_witness:
  "\<exists>st2 (m2 :: unit metrics) oc' st' m'. mail_process (at_time 2) (at_time 2) mail_mask st2 m2 = (Inr oc', st', m')
     \<and> oc_result oc' = mail \<and> oc_operation oc' = DEMASK"
proof -
  obtain key where key: "state_key toy_digest (cp_consumer_id mail_policy) (lit ''1'') = Inr key" using mail_key by blast
  obtain oc st1 m1 where first:
    "mail_process (at_time 0) (at_time 0) mail (InMemoryRestorationStore 10 5) no_metrics = (Inr oc, st1, m1)"
    and mask: "oc_result oc = mail_mask" using mail_first by blast
  have inv: "mem_inv clear_fernet (InMemoryRestorationStore 10 5)"
    by (simp add: mem_inv_def InMemoryRestorationStore_def)
  have conf: "setup_ok toy_digest toy_digest noon mail_policy mail" by (rule mail_setup) (simp add: mail_def)
  have stor: "storable (oc_result oc)"
    using mail_setup [of mail_mask] mask by (simp add: setup_ok_def mail_mask_def)
  have fresh: "mem_look clear_fernet (InMemoryRestorationStore 10 5) key (en_clock (at_time 0) 1) = None"
    by (simp add: mem_look_def InMemoryRestorationStore_def)
  have env: "calls_ok (at_time t) (at_time t)" for t by (simp add: at_time_def env_ok_def)
  have others: "mem_time (en_clock (at_time 0) 2) [] 1"
    "serve_all (mem_get clear_fernet) (mem_transition clear_fernet) (\<lambda>_ r. Inr r) [] st1 m1 = (st1, m1)"
    by (simp_all add: at_time_def)
  have times: "1 \<le> en_clock (at_time 2) 1"
    "en_clock (at_time 2) 1 < en_clock (at_time 0) 2 + ms_ttl_seconds (InMemoryRestorationStore 10 5)"
    by (simp_all add: at_time_def InMemoryRestorationStore_def)
  from mail_mask_digest have h: "hash_payload toy_digest (oc_result oc) \<noteq> hash_payload toy_digest mail" by (simp add: mask)
  have pol: "cp_consumer_id mail_policy = cp_consumer_id mail_policy" "cp_demasking_enabled mail_policy"
    by (simp_all add: mail_policy_def)
  from proxy_roundtrip [OF clear_fernet_ok inv conf key fresh env first others env times pol stor h,
      of "\<lambda>_. 0" "\<lambda>_. 0"]
  show ?thesis unfolding mask by blast
qed


section \<open>A request to the API\<close>

definition mail_server :: "(env, mstore, unit) app_server" where
  "mail_server = \<lparr>sr_get = mem_get clear_fernet, sr_transition = mem_transition clear_fernet, sr_collectors = \<lambda>_ r. Inr r,
     sr_policies = [(lit ''c'', mail_policy)], sr_unicode = ucd_ru, sr_default_consumer_id = lit ''c'',
     sr_float_text = \<lambda>_. lit ''1.0'', sr_render = \<lambda>_. VNone, sr_framework = \<lambda>_. json_response 404 [] []\<rparr>"

definition mail_request :: "env http_request" where
  "mail_request = \<lparr>hq_method = lit ''POST'', hq_path = lit ''/process'', hq_route = Some Process_Route,
     hq_request_id = None, hq_consumer_id = Some (lit '' C ''), hq_body = Some (mail, lit ''1''), hq_uuid = lit ''u-1'',
     hq_monotonic = 0, hq_clock = \<lambda>_. 0, hq_services = mail_services, hq_env_get = at_time 0, hq_env_trans = at_time 0,
     hq_timers = \<lambda>_. 0\<rparr>"

definition mail_world :: "(mstore, unit) world" where
  "mail_world = \<lparr>w_store = InMemoryRestorationStore 10 5, w_metrics = no_metrics,
     w_limiter = SlidingWindowRateLimiter 1000 1, w_logs = []\<rparr>"

lemma mail_policies: "policies_ok (sr_policies mail_server)"
  by (auto simp: policies_ok_def mail_server_def get_policy_def mail_policy_def policy_text_def lit_scalar
      split: if_splits)

lemma mail_consumer: "get_consumer_id mail_server (Some (lit '' C '')) = lit ''c''"
  by (simp add: get_consumer_id_def mail_server_def lit_def str_strip_def rstrip_by_def is_space_def class_of_def
      ascii_class_def str_lower_def ascii_lower_def)

lemma mail_served: "\<exists>r w'. serve_http mail_server mail_request mail_world = (r, w') \<and> answered_with r mail_mask"
proof -
  obtain oc st1 m1 where first:
    "mail_process (at_time 0) (at_time 0) mail (InMemoryRestorationStore 10 5) no_metrics = (Inr oc, st1, m1)"
    and mask: "oc_result oc = mail_mask" using mail_first by blast
  obtain h where h: "hash_identifier (sv_sha256 mail_services) (lit ''1'') 12 = Inr h"
    using hash_id_total [of "lit ''1''"] lit_scalar by blast
  have free: "\<not> limited mail_request mail_world"
    by (simp add: limited_def mail_world_def allow_def SlidingWindowRateLimiter_def Let_def window_of_def)
  then obtain l where l: "rate_limit mail_server mail_request mail_world
      = observe_http_request mail_server mail_request (mail_world\<lparr>w_limiter := l\<rparr>)" using not_limited by blast
  have safe: "safe (\<lambda>_ r. Inr r) c m = m" for c and m :: "unit metrics" by (simp add: safe_def)
  have body: "ProcessRequest (mail, lit ''1'')" by (simp add: ProcessRequest_def mail_def lit_def)
  have pol: "get_policy [(lit ''c'', mail_policy)] (lit ''c'') = Inr mail_policy"
    by (simp add: get_policy_def mail_policy_def)
  have col: "sr_collectors mail_server = (\<lambda>_ r. Inr r)" "sr_get mail_server = mem_get clear_fernet"
    "sr_transition mail_server = mem_transition clear_fernet" "sr_policies mail_server = [(lit ''c'', mail_policy)]"
    by (simp_all add: mail_server_def)
  have req: "hq_route mail_request = Some Process_Route" "hq_body mail_request = Some (mail, lit ''1'')"
    "hq_services mail_request = mail_services" "hq_env_get mail_request = at_time 0" "hq_env_trans mail_request = at_time 0"
    "hq_timers mail_request = (\<lambda>_. 0)" "hq_consumer_id mail_request = Some (lit '' C '')"
    by (simp_all add: mail_request_def)
  have "\<exists>w1. process_route mail_server mail_request mail (lit ''1'') (mail_world\<lparr>w_limiter := l\<rparr>)
      = (Inr (json_response 200 [(''result'', VStr (oc_result oc))] []), w1)"
    using first h by (simp add: process_route_def Let_def mail_consumer col req pol mail_world_def)
  then obtain w1 where w1: "process_route mail_server mail_request mail (lit ''1'') (mail_world\<lparr>w_limiter := l\<rparr>)
      = (Inr (json_response 200 [(''result'', VStr mail_mask)] []), w1)" by (auto simp: mask)
  have upd: "mail_world\<lparr>w_limiter := l, w_metrics := w_metrics mail_world\<rparr> = mail_world\<lparr>w_limiter := l\<rparr>"
    by (simp add: mail_world_def)
  show ?thesis
    by (simp add: serve_http_def l observe_http_request_def track_inflight_def safe col call_next_def req body Let_def
        upd w1 answered_with_def json_response_def)
qed

theorem api_process_answers_witness:
  "\<exists>r w'. serve_http mail_server mail_request mail_world = (r, w') \<and> answered_with r mail_mask
     \<and> mem_inv clear_fernet (w_store w')"
proof -
  obtain r w' where r: "serve_http mail_server mail_request mail_world = (r, w')" "answered_with r mail_mask"
    using mail_served by blast
  have A: "sr_get mail_server = mem_get clear_fernet" "sr_transition mail_server = mem_transition clear_fernet"
    by (simp_all add: mail_server_def)
  have q: "hq_services mail_request = mail_services" "calls_ok (hq_env_get mail_request) (hq_env_trans mail_request)"
    "hq_route mail_request = Some Process_Route" "hq_body mail_request = Some (mail, lit ''1'')"
    "ProcessRequest (mail, lit ''1'')"
    by (simp_all add: mail_request_def at_time_def env_ok_def ProcessRequest_def mail_def lit_def)
  have t: "texts_ok toy_digest toy_digest noon (mail, lit ''1'')"
    using mail_setup [of mail] lit_scalar [of "''1''"] by (simp add: texts_ok_def setup_ok_def mail_def is_scalar_def)
  have U: "letters_no_digits ucd_ru"
    by (auto simp: letters_no_digits_def cyr_upper_def is_digit_def class_of_def ascii_class_def ucd_ru_def ru_class_def)
  have inv: "mem_inv clear_fernet (w_store mail_world)"
    by (simp add: mem_inv_def InMemoryRestorationStore_def mail_world_def)
  from api_process_answers [OF A mail_policies q(1,2) t U clear_fernet_ok inv q(3,4,5) r(1)] r
  show ?thesis by blast
qed

end
