(* ===== verification/Doubles.thy ===== *)
theory Doubles
  imports Complex_Main
begin

text \<open>
  The rounding of Python's floats: IEEE 754 doubles with round-half-to-even, as a function on rationals.  The
  result of an arithmetic operation is the exact result rounded by \<open>fl\<close>.  Small results are subnormal; a
  result of \<open>2 ^ 1024\<close> or more, which would be an infinity, is left to the callers.
\<close>

section \<open>Rounding to integers\<close>

definition round_half_even :: "rat \<Rightarrow> int" where
  "round_half_even x =
     (let f = \<lfloor>x\<rfloor>; d = x - of_int f in
      if d < 1 / 2 then f else if 1 / 2 < d then f + 1 else if even f then f else f + 1)"

lemma round_half_even_close: "\<bar>of_int (round_half_even x) - x\<bar> \<le> 1 / 2"
proof -
  define d where "d = x - of_int \<lfloor>x\<rfloor>"
  have "0 \<le> d" "d < 1" unfolding d_def by linarith+
  then show ?thesis
    unfolding round_half_even_def Let_def d_def [symmetric] by (auto simp: abs_if d_def split: if_splits) linarith+
qed

lemma round_half_even_int [simp]: "round_half_even (of_int n) = n"
  by (simp add: round_half_even_def)

lemma round_half_even_nonneg: "0 \<le> x \<Longrightarrow> 0 \<le> round_half_even x"
  by (simp add: round_half_even_def Let_def)

lemma round_half_even_mono:
  assumes "x \<le> y"
  shows "round_half_even x \<le> round_half_even y"
proof (cases "\<lfloor>x\<rfloor> = \<lfloor>y\<rfloor>")
  case True
  with assms show ?thesis by (simp add: round_half_even_def Let_def)
next
  case False
  have "round_half_even x \<le> \<lfloor>x\<rfloor> + 1" "\<lfloor>y\<rfloor> \<le> round_half_even y" by (simp_all add: round_half_even_def Let_def)
  moreover have "\<lfloor>x\<rfloor> + 1 \<le> \<lfloor>y\<rfloor>" using False floor_mono [OF assms] by linarith
  ultimately show ?thesis by linarith
qed

section \<open>Rounding to doubles\<close>

text \<open>The bits of a positive integer\<close>

fun bit_count :: "int \<Rightarrow> nat" where
  "bit_count n = (if n \<le> 0 then 0 else Suc (bit_count (n div 2)))"

declare bit_count.simps [simp del]

text \<open>The exponent of a positive rational: \<open>2 powi e \<le> x < 2 powi (e + 1)\<close>\<close>

definition binary_exponent :: "rat \<Rightarrow> int" where
  "binary_exponent x =
     (case quotient_of x of (n, d) \<Rightarrow>
        let e = int (bit_count n) - int (bit_count d) in if 2 powi e \<le> x then e else e - 1)"

definition ulp_exponent :: "rat \<Rightarrow> int" where
  "ulp_exponent x = max (binary_exponent \<bar>x\<bar>) (-1022) - 52"

definition fl :: "rat \<Rightarrow> rat" where
  "fl x = (if x = 0 then 0 else of_int (round_half_even (x / 2 powi ulp_exponent x)) * 2 powi ulp_exponent x)"

text \<open>The numbers that \<open>fl\<close> does not change\<close>

definition is_double :: "rat \<Rightarrow> bool" where
  "is_double x \<longleftrightarrow> fl x = x"

lemma two_powi_pos [simp]: "0 < (2 powi e :: rat)"
  by (simp add: zero_less_power_int)

lemma two_powi_mono: "a \<le> b \<Longrightarrow> (2 powi a :: rat) \<le> 2 powi b"
  by (simp add: power_int_increasing)

lemma two_powi_strict: "a < b \<Longrightarrow> (2 powi a :: rat) < 2 powi b"
  by (simp add: power_int_strict_increasing)

lemma bit_count_bounds: "0 < n \<Longrightarrow> 2 ^ bit_count n \<le> 2 * n \<and> n < 2 ^ bit_count n"
proof (induction n rule: bit_count.induct)
  case (1 n)
  have "2 * (n div 2) \<le> n" "n \<le> 2 * (n div 2) + 1" by linarith+
  then show ?case
    using 1 bit_count.simps [of n] bit_count.simps [of 0] by (cases "0 < n div 2") auto
qed

lemma bit_count_rat:
  assumes "0 < n"
  shows "(2::rat) ^ bit_count n \<le> 2 * of_int n" "of_int n < (2::rat) ^ bit_count n"
proof -
  have "of_int (2 ^ bit_count n) \<le> (of_int (2 * n) :: rat)" "of_int n < (of_int (2 ^ bit_count n) :: rat)"
    using bit_count_bounds [OF assms] by (simp_all only: of_int_le_iff of_int_less_iff)
  then show "(2::rat) ^ bit_count n \<le> 2 * of_int n" "of_int n < (2::rat) ^ bit_count n" by simp_all
qed

lemma binary_exponent_bounds:
  assumes "0 < x"
  shows "2 powi binary_exponent x \<le> x" "x < 2 powi (binary_exponent x + 1)"
proof -
  obtain n d where q: "quotient_of x = (n, d)" by fastforce
  then have d: "0 < d" and x: "x = of_int n / of_int d" by (auto simp: quotient_of_denom_pos quotient_of_div)
  with assms have n: "0 < n" by (simp add: zero_less_divide_iff)
  define N D where "N = (2::rat) ^ bit_count n" and "D = (2::rat) ^ bit_count d"
  define e where "e = int (bit_count n) - int (bit_count d)"
  have b: "N \<le> 2 * of_int n" "of_int n < N" "D \<le> 2 * of_int d" "of_int d < D"
    using bit_count_rat [of n] bit_count_rat [of d] n d by (simp_all add: N_def D_def)
  have e: "2 powi e = N / D" by (simp add: e_def N_def D_def power_int_diff)
  have p: "(0::rat) < of_int n" "(0::rat) < of_int d" "0 < D" using n d by (simp_all add: D_def)
  have "N * of_int d \<le> 2 * of_int n * of_int d" using b(1) p(2) by (simp add: mult_right_mono)
  also have "\<dots> < 2 * of_int n * D" using b(4) p(1) by simp
  finally have low: "N / (2 * D) < x" using p by (simp add: x divide_less_eq less_divide_eq mult.commute mult.left_commute)
  have "D * of_int n \<le> 2 * of_int d * of_int n" using b(3) p(1) by (simp add: mult_right_mono)
  also have "\<dots> < 2 * of_int d * N" using b(2) p(2) by simp
  finally have up: "x < 2 * N / D" using p by (simp add: x divide_less_eq less_divide_eq mult.commute mult.left_commute)
  have q': "binary_exponent x = (if 2 powi e \<le> x then e else e - 1)"
    by (simp add: binary_exponent_def q e_def)
  have half: "2 powi (e - 1) = N / (2 * D)" "2 powi (e + 1) = 2 * N / D"
    by (simp_all add: power_int_diff power_int_add e)
  show "2 powi binary_exponent x \<le> x" using low by (simp add: q' half(1))
  show "x < 2 powi (binary_exponent x + 1)" using up by (simp add: q' half(2))
qed

lemma binary_exponent_unique:
  assumes "2 powi e \<le> x" "x < 2 powi (e + 1)"
  shows "binary_exponent x = e"
proof -
  have "0 < x" using assms(1) two_powi_pos by (rule less_le_trans [rotated])
  note b = binary_exponent_bounds [OF this]
  have "\<not> binary_exponent x + 1 \<le> e" using two_powi_mono [of "binary_exponent x + 1" e] b assms by linarith
  moreover have "\<not> e + 1 \<le> binary_exponent x" using two_powi_mono [of "e + 1" "binary_exponent x"] b assms by linarith
  ultimately show ?thesis by linarith
qed

lemma binary_exponent_mono: "0 < x \<Longrightarrow> x \<le> y \<Longrightarrow> binary_exponent x \<le> binary_exponent y"
proof (rule ccontr)
  assume x: "0 < x" "x \<le> y" and "\<not> binary_exponent x \<le> binary_exponent y"
  then have "(2::rat) powi (binary_exponent y + 1) \<le> 2 powi binary_exponent x" by (intro two_powi_mono) simp
  with binary_exponent_bounds [OF x(1)] binary_exponent_bounds [of y] x show False by linarith
qed

lemma fl_zero [simp]: "fl 0 = 0"
  by (simp add: fl_def)

lemma fl_close: "\<bar>fl x - x\<bar> \<le> 2 powi ulp_exponent x / 2"
proof (cases "x = 0")
  case False
  let ?u = "2 powi ulp_exponent x :: rat"
  have "fl x - x = (of_int (round_half_even (x / ?u)) - x / ?u) * ?u"
    using False by (simp add: fl_def left_diff_distrib)
  then have "\<bar>fl x - x\<bar> = \<bar>of_int (round_half_even (x / ?u)) - x / ?u\<bar> * ?u" by (simp add: abs_mult)
  also have "\<dots> \<le> 1 / 2 * ?u" by (rule mult_right_mono [OF round_half_even_close]) simp
  finally show ?thesis by simp
qed simp

lemma fl_multiple:
  assumes "x / 2 powi ulp_exponent x = of_int j"
  shows "fl x = x"
proof (cases "x = 0")
  case False
  from assms have "x = of_int j * 2 powi ulp_exponent x" by (simp add: nonzero_divide_eq_eq)
  with assms False show ?thesis by (simp add: fl_def)
qed simp

text \<open>A number with 53 significant bits that is not too small is a double.\<close>

lemma fl_exact:
  assumes "\<bar>m\<bar> \<le> 2 ^ 53" "-1074 \<le> k"
  shows "fl (of_int m * 2 powi k) = of_int m * 2 powi k"
proof (cases "m = 0")
  case False
  let ?x = "of_int m * 2 powi k :: rat"
  have x: "0 < \<bar>?x\<bar>" using False by (simp add: abs_mult)
  note b = binary_exponent_bounds [OF x]
  show ?thesis
  proof (cases "\<bar>m\<bar> = 2 ^ 53")
    case True
    have abs: "\<bar>?x\<bar> = 2 powi (53 + k)"
      using True by (simp add: abs_mult power_int_add del: of_int_abs add: of_int_abs [symmetric])
    then have "binary_exponent \<bar>?x\<bar> = 53 + k" by (intro binary_exponent_unique) (simp_all add: two_powi_strict)
    then have "ulp_exponent ?x = k + 1" using assms(2) by (simp add: ulp_exponent_def)
    moreover have "?x / 2 powi (k + 1) = of_int (m div 2)"
    proof -
      have "m = 2 ^ 53 \<or> m = - (2 ^ 53)" using True by linarith
      then show ?thesis by (auto simp: power_int_add)
    qed
    ultimately show ?thesis using fl_multiple [of ?x "m div 2"] by simp
  next
    case less: False
    then have "\<bar>m\<bar> < 2 ^ 53" using assms(1) by linarith
    then have "(of_int \<bar>m\<bar> :: rat) < of_int (2 ^ 53)" by (simp only: of_int_less_iff)
    then have "\<bar>?x\<bar> < 2 powi (53 + k)" by (simp add: abs_mult power_int_add)
    with b(1) have "(2::rat) powi binary_exponent \<bar>?x\<bar> < 2 powi (53 + k)" by linarith
    then have "binary_exponent \<bar>?x\<bar> < 53 + k" using two_powi_mono [of "53 + k" "binary_exponent \<bar>?x\<bar>"] by linarith
    then have u: "ulp_exponent ?x \<le> k" using assms(2) by (simp add: ulp_exponent_def)
    define v where "v = ulp_exponent ?x"
    have "(2::rat) powi k / 2 powi v = 2 powi (k - v)" by (simp add: power_int_diff)
    also have "\<dots> = 2 ^ nat (k - v)" using u by (simp add: v_def power_int_def)
    finally have "?x / 2 powi ulp_exponent ?x = of_int (m * 2 ^ nat (k - v))"
      unfolding v_def [symmetric] by (simp add: times_divide_eq_right [symmetric] del: times_divide_eq_right)
    then show ?thesis by (rule fl_multiple)
  qed
qed simp

lemma ulp_exponent_ge: "-1074 \<le> ulp_exponent x"
  by (simp add: ulp_exponent_def)

lemma ulp_exponent_bound:
  assumes "x \<noteq> 0"
  shows "\<bar>x\<bar> < 2 powi (ulp_exponent x + 53)"
proof -
  have "\<bar>x\<bar> < 2 powi (binary_exponent \<bar>x\<bar> + 1)" using assms by (simp add: binary_exponent_bounds)
  also have "\<dots> \<le> 2 powi (ulp_exponent x + 53)" by (rule two_powi_mono) (simp add: ulp_exponent_def)
  finally show ?thesis .
qed

lemma scaled_bound:
  assumes "x \<noteq> 0"
  shows "\<bar>round_half_even (x / 2 powi ulp_exponent x)\<bar> \<le> 2 ^ 53"
proof -
  let ?u = "2 powi ulp_exponent x :: rat"
  have "\<bar>x\<bar> < 2 ^ 53 * ?u" using ulp_exponent_bound [OF assms] by (simp add: power_int_add mult.commute)
  then have "x < 2 ^ 53 * ?u" "- (2 ^ 53 * ?u) < x" by linarith+
  then have "x / ?u \<le> of_int (2 ^ 53)" "of_int (- (2 ^ 53)) \<le> x / ?u" by (simp_all add: divide_le_eq le_divide_eq)
  from this [THEN round_half_even_mono] show ?thesis unfolding round_half_even_int by linarith
qed

lemma fl_double [simp]: "is_double (fl x)" "fl (fl x) = fl x"
proof -
  show "fl (fl x) = fl x"
  proof (cases "x = 0")
    case False
    then show ?thesis using fl_exact [OF scaled_bound [OF False] ulp_exponent_ge] by (simp add: fl_def)
  qed simp
  then show "is_double (fl x)" by (simp add: is_double_def)
qed

lemma fl_of_int: "\<bar>m\<bar> \<le> 2 ^ 53 \<Longrightarrow> fl (of_int m) = of_int m"
  using fl_exact [of m 0] by simp

lemma round_half_even_minus: "round_half_even (- x) = - round_half_even x"
proof (cases "x = of_int \<lfloor>x\<rfloor>")
  case True
  then have "- x = of_int (- \<lfloor>x\<rfloor>)" by simp
  then show ?thesis using True round_half_even_int by metis
next
  case False
  then have "of_int \<lfloor>x\<rfloor> < x" by linarith
  then have "\<lfloor>- x\<rfloor> = - \<lfloor>x\<rfloor> - 1" by linarith
  then show ?thesis by (auto simp: round_half_even_def Let_def)
qed

lemma fl_minus: "fl (- x) = - fl x"
  by (simp add: fl_def ulp_exponent_def round_half_even_minus)

lemma fl_nonneg: "0 \<le> x \<Longrightarrow> 0 \<le> fl x"
  by (simp add: fl_def round_half_even_nonneg)

lemma fl_mono_pos:
  assumes "0 < x" "x \<le> y"
  shows "fl x \<le> fl y"
proof -
  let ?u = "ulp_exponent x" and ?v = "ulp_exponent y"
  have u: "?u \<le> ?v" using binary_exponent_mono [OF assms] assms by (simp add: ulp_exponent_def)
  have fl: "fl x = of_int (round_half_even (x / 2 powi ?u)) * 2 powi ?u"
    "fl y = of_int (round_half_even (y / 2 powi ?v)) * 2 powi ?v" using assms by (simp_all add: fl_def)
  show ?thesis
  proof (cases "?u = ?v")
    case True
    have "x / 2 powi ?u \<le> y / 2 powi ?v" using True assms(2) by (simp add: divide_right_mono)
    from round_half_even_mono [OF this] show ?thesis using True by (simp add: fl mult_right_mono)
  next
    case False
    then have less: "?u + 1 \<le> ?v" using u by linarith
    then have v: "?v = binary_exponent \<bar>y\<bar> - 52" using ulp_exponent_ge [of x] by (auto simp: ulp_exponent_def max_def split: if_splits)
    have "(of_int (round_half_even (x / 2 powi ?u)) :: rat) \<le> of_int (2 ^ 53)"
      unfolding of_int_le_iff using scaled_bound [of x] assms(1) by linarith
    then have "fl x \<le> of_int (2 ^ 53) * 2 powi ?u" unfolding fl by (rule mult_right_mono) simp
    also have "\<dots> = 2 ^ 52 * 2 powi (?u + 1)" by (simp add: power_int_add)
    also have "\<dots> \<le> 2 ^ 52 * 2 powi ?v" using two_powi_mono [OF less] by simp
    also have "\<dots> \<le> fl y"
    proof -
      have "2 powi (?v + 52) \<le> y" using binary_exponent_bounds(1) [of y] assms v by simp
      then have "of_int (2 ^ 52) \<le> y / 2 powi ?v" by (simp add: le_divide_eq power_int_add mult.commute)
      from round_half_even_mono [OF this] have "2 ^ 52 \<le> round_half_even (y / 2 powi ?v)" by (simp only: round_half_even_int)
      then have "(of_int (2 ^ 52) :: rat) \<le> of_int (round_half_even (y / 2 powi ?v))" by (simp only: of_int_le_iff)
      then show ?thesis unfolding fl by simp
    qed
    finally show ?thesis .
  qed
qed

lemma fl_mono:
  assumes "x \<le> y"
  shows "fl x \<le> fl y"
proof -
  consider "0 < x" | "x \<le> 0" "0 \<le> y" | "y < 0" by linarith
  then show ?thesis
  proof cases
    case 2
    then show ?thesis using fl_nonneg [of y] fl_nonneg [of "- x"] by (simp add: fl_minus)
  next
    case 3
    then show ?thesis using fl_mono_pos [of "- y" "- x"] assms by (simp add: fl_minus)
  qed (use assms fl_mono_pos in blast)
qed

text \<open>The error, for numbers of a known size and relatively\<close>

lemma fl_abs:
  assumes "\<bar>x\<bar> \<le> 2 powi k" "-1021 \<le> k"
  shows "\<bar>fl x - x\<bar> \<le> 2 powi (k - 53)"
proof (cases "x = 0")
  case False
  have "2 powi binary_exponent \<bar>x\<bar> \<le> (2::rat) powi k" using binary_exponent_bounds(1) [of "\<bar>x\<bar>"] False assms(1) by linarith
  then have "binary_exponent \<bar>x\<bar> \<le> k" using two_powi_strict [of k "binary_exponent \<bar>x\<bar>"] by linarith
  then have "ulp_exponent x \<le> k - 52" using assms(2) by (simp add: ulp_exponent_def)
  then have "(2::rat) powi ulp_exponent x / 2 \<le> 2 powi (k - 52) / 2" using two_powi_mono by simp
  moreover have "(2::rat) powi (k - 52) / 2 = 2 powi (k - 53)" by (simp add: power_int_diff)
  ultimately show ?thesis using fl_close [of x] by linarith
qed simp

lemma fl_relative:
  assumes "2 powi (-1022) \<le> \<bar>x\<bar>"
  shows "\<bar>fl x - x\<bar> \<le> \<bar>x\<bar> / 2 ^ 53"
proof -
  have x: "0 < \<bar>x\<bar>" using assms two_powi_pos [of "-1022"] by (rule less_le_trans [rotated])
  note b = binary_exponent_bounds [OF this]
  have "(2::rat) powi (-1022) < 2 powi (binary_exponent \<bar>x\<bar> + 1)" using assms b(2) by linarith
  then have "-1022 < binary_exponent \<bar>x\<bar> + 1" using two_powi_mono [of "binary_exponent \<bar>x\<bar> + 1" "-1022"] by linarith
  then have "ulp_exponent x = binary_exponent \<bar>x\<bar> - 52" by (simp add: ulp_exponent_def)
  then have "(2::rat) powi ulp_exponent x / 2 = 2 powi binary_exponent \<bar>x\<bar> / 2 ^ 53" by (simp add: power_int_diff)
  also have "\<dots> \<le> \<bar>x\<bar> / 2 ^ 53" using b(1) by (simp add: divide_right_mono)
  finally show ?thesis using fl_close [of x] by linarith
qed

section \<open>Relative errors of a computation\<close>

text \<open>\<open>y\<close> is \<open>x\<close> up to the errors of \<open>k\<close> roundings.\<close>

definition near :: "nat \<Rightarrow> rat \<Rightarrow> rat \<Rightarrow> bool" where
  "near k y x \<longleftrightarrow> 0 < x \<and> x \<le> y * (1 + 1 / 2 ^ 52) ^ k \<and> y \<le> x * (1 + 1 / 2 ^ 52) ^ k"

lemma err_ge_1: "1 \<le> (1 + 1 / 2 ^ 52 :: rat) ^ k"
  by (rule one_le_power) simp

lemma near_pos: "near k y x \<Longrightarrow> 0 < x \<and> 0 < y"
  using err_ge_1 [of k] by (auto simp: near_def zero_less_mult_iff dest: less_le_trans)

lemma near_refl: "0 < x \<Longrightarrow> near k x x"
  using err_ge_1 [of k] by (simp add: near_def mult_le_cancel_left1)

lemma near_weaken:
  assumes "near j y x" "j \<le> k"
  shows "near k y x"
proof -
  have "(1 + 1 / 2 ^ 52 :: rat) ^ j \<le> (1 + 1 / 2 ^ 52) ^ k" using assms(2) by (intro power_increasing) simp_all
  then have "y * (1 + 1 / 2 ^ 52) ^ j \<le> y * (1 + 1 / 2 ^ 52) ^ k" "x * (1 + 1 / 2 ^ 52) ^ j \<le> x * (1 + 1 / 2 ^ 52) ^ k"
    using near_pos [OF assms(1)] by (simp_all only: mult_left_mono order_less_imp_le)
  with assms(1) show ?thesis unfolding near_def by linarith
qed

lemma near_mult:
  assumes "near j y x" "near k z w"
  shows "near (j + k) (y * z) (x * w)"
proof -
  note pos = near_pos [OF assms(1)] near_pos [OF assms(2)]
  have "x * w \<le> (y * (1 + 1 / 2 ^ 52) ^ j) * (z * (1 + 1 / 2 ^ 52) ^ k)"
    "y * z \<le> (x * (1 + 1 / 2 ^ 52) ^ j) * (w * (1 + 1 / 2 ^ 52) ^ k)"
    using assms pos unfolding near_def by (intro mult_mono; simp)+
  then show ?thesis using pos by (simp add: near_def power_add ac_simps)
qed

lemma near_inverse:
  assumes "near k z w"
  shows "near k (1 / z) (1 / w)"
  using assms near_pos [OF assms] by (simp add: near_def divide_le_eq le_divide_eq mult.commute)

lemma near_divide: "near j y x \<Longrightarrow> near k z w \<Longrightarrow> near (j + k) (y / z) (x / w)"
  using near_mult [OF _ near_inverse] by simp

lemma near_add: "near k y x \<Longrightarrow> near k z w \<Longrightarrow> near k (y + z) (x + w)"
  by (simp add: near_def distrib_right)

lemma near_fl:
  assumes "near k y x" "1 / 2 ^ 900 \<le> x" "k \<le> 10"
  shows "near (Suc k) (fl y) x"
proof -
  note pos = near_pos [OF assms(1)]
  have "(1 + 1 / 2 ^ 52 :: rat) ^ k \<le> (1 + 1 / 2 ^ 52) ^ 10" using assms(3) by (intro power_increasing) simp_all
  also have "\<dots> \<le> 2" by (simp add: power_divide)
  finally have "y * (1 + 1 / 2 ^ 52) ^ k \<le> y * 2" using pos by (simp only: mult_left_mono order_less_imp_le)
  with assms(1,2) have "1 / 2 ^ 901 \<le> y" unfolding near_def by simp
  moreover have "(2::rat) powi (-1022) \<le> 2 powi (-901)" by (rule two_powi_mono) simp
  moreover have "(2::rat) powi (-901) = 1 / 2 ^ 901" by (simp only: power_int_minus_divide power_int_numeral)
  ultimately have "\<bar>fl y - y\<bar> \<le> y / 2 ^ 53" using fl_relative [of y] pos by simp
  then have "fl y - y \<le> y / 2 ^ 53" "y - fl y \<le> y / 2 ^ 53" by linarith+
  then have fl: "fl y \<le> y * (1 + 1 / 2 ^ 52)" "y * (1 - 1 / 2 ^ 53) \<le> fl y" using pos by simp_all
  have "y \<le> y * ((1 - 1 / 2 ^ 53) * (1 + 1 / 2 ^ 52))" using pos by (simp add: mult_le_cancel_left1)
  also have "\<dots> \<le> fl y * (1 + 1 / 2 ^ 52)" using fl(2) by (simp only: mult.assoc [symmetric] mult_right_mono) simp
  finally have up: "y \<le> fl y * (1 + 1 / 2 ^ 52)" .
  define E where "E = (1 + 1 / 2 ^ 52 :: rat)"
  have E: "0 \<le> E" "0 \<le> E ^ k" by (simp_all add: E_def)
  have x: "0 < x" "x \<le> y * E ^ k" "y \<le> x * E ^ k" using assms(1) by (simp_all only: near_def E_def)
  have y: "y \<le> fl y * E" "fl y \<le> y * E" using up fl(1) by (simp_all only: E_def)
  have "x \<le> fl y * E * E ^ k" using x(2) mult_right_mono [OF y(1) E(2)] by linarith
  moreover have "fl y \<le> x * E ^ k * E" using y(2) mult_right_mono [OF x(3) E(1)] by linarith
  ultimately show ?thesis using x(1) unfolding near_def E_def [symmetric] by (simp add: ac_simps)
qed

text \<open>Comparisons that the errors cannot turn around\<close>

lemma ten_errors: "k \<le> 10 \<Longrightarrow> (1 + 1 / 2 ^ 52 :: rat) ^ k \<le> 1 + 1 / 2 ^ 48"
proof -
  assume "k \<le> 10"
  then have "(1 + 1 / 2 ^ 52 :: rat) ^ k \<le> (1 + 1 / 2 ^ 52) ^ 10" by (intro power_increasing) simp_all
  also have "\<dots> \<le> 1 + 1 / 2 ^ 48" by (simp add: power_divide)
  finally show ?thesis .
qed

lemma near_bounds:
  assumes "near k y x" "k \<le> 10"
  shows "x \<le> y * (1 + 1 / 2 ^ 48)" "y \<le> x * (1 + 1 / 2 ^ 48)"
  using assms near_pos [OF assms(1)] mult_left_mono [OF ten_errors [OF assms(2)], of x]
    mult_left_mono [OF ten_errors [OF assms(2)], of y]
  unfolding near_def by linarith+

lemma near_swap: "near k y x \<Longrightarrow> near k x y"
  using near_pos [of k y x] by (simp add: near_def)

lemma near_trans:
  assumes "near j z y" "near k y x"
  shows "near (j + k) z x"
proof -
  have "near (j + k) (z * y / y) (y * x / y)" using assms near_pos [OF assms(1)]
    using near_divide [OF near_mult [OF assms] near_refl [of y 0]] by (simp add: mult.commute)
  then show ?thesis using near_pos [OF assms(1)] by simp
qed

lemma near_below:
  assumes "near j y x" "near k c z" "j + k \<le> 10" "x * (1 + 1 / 2 ^ 48) < z"
  shows "y < c"
proof (rule ccontr)
  assume "\<not> y < c"
  have "near (j + k) (y * z) (x * c)" by (rule near_mult [OF assms(1) near_swap [OF assms(2)]])
  from near_bounds(2) [OF this assms(3)] have "y * z \<le> c * (x * (1 + 1 / 2 ^ 48))" by (simp add: ac_simps)
  also have "\<dots> < c * z" using assms(4) near_pos [OF assms(2)] by simp
  finally show False using \<open>\<not> y < c\<close> near_pos [OF assms(2)] by simp
qed

lemma near_above:
  assumes "near j y x" "near k c z" "j + k \<le> 10" "z * (1 + 1 / 2 ^ 48) < x"
  shows "c < y"
  using near_below [OF assms(2,1)] assms(3,4) by (simp add: add.commute)

text \<open>Fractions of small integers that differ, differ by more than ten errors.\<close>

lemma fraction_gap:
  fixes a b p q :: int
  assumes "0 < b" "b \<le> 2 ^ 42" "0 < p" "p \<le> 8" "0 < q"
  shows "q * a < p * b \<Longrightarrow> of_int a / of_int b * (1 + 1 / 2 ^ 48) < (of_int p / of_int q :: rat)"
    and "p * b < q * a \<Longrightarrow> of_int p / of_int q * (1 + 1 / 2 ^ 48) < (of_int a / of_int b :: rat)"
proof -
  define A B P Q where "A = (of_int a :: rat)" and "B = (of_int b :: rat)" and "P = (of_int p :: rat)" and "Q = (of_int q :: rat)"
  have "B \<le> of_int (2 ^ 42)" "P \<le> of_int 8" unfolding B_def P_def of_int_le_iff using assms by auto
  then have b: "0 < B" "B \<le> 2 ^ 42" "0 < P" "P \<le> 8" "0 < Q" using assms by (simp_all add: B_def P_def Q_def)
  have "P * B \<le> 8 * 2 ^ 42" using b by (intro mult_mono) simp_all
  then have pb: "P * B / 2 ^ 48 < 1" by simp
  { assume "q * a < p * b"
    then have "q * a + 1 \<le> p * b" by simp
    then have "(of_int (q * a + 1) :: rat) \<le> of_int (p * b)" by (simp only: of_int_le_iff)
    then have le: "Q * A + 1 \<le> P * B" by (simp add: A_def B_def P_def Q_def)
    have "Q * A * (1 + 1 / 2 ^ 48) < P * B" using le pb by (simp add: distrib_left)
    then show "of_int a / of_int b * (1 + 1 / 2 ^ 48) < (of_int p / of_int q :: rat)"
      using b unfolding A_def [symmetric] B_def [symmetric] P_def [symmetric] Q_def [symmetric]
      by (simp add: divide_less_eq less_divide_eq ac_simps) }
  { assume "p * b < q * a"
    then have "p * b + 1 \<le> q * a" by simp
    then have "(of_int (p * b + 1) :: rat) \<le> of_int (q * a)" by (simp only: of_int_le_iff)
    then have le: "P * B + 1 \<le> Q * A" by (simp add: A_def B_def P_def Q_def)
    have "P * B * (1 + 1 / 2 ^ 48) < Q * A" using le pb by (simp add: distrib_left)
    then show "of_int p / of_int q * (1 + 1 / 2 ^ 48) < (of_int a / of_int b :: rat)"
      using b unfolding A_def [symmetric] B_def [symmetric] P_def [symmetric] Q_def [symmetric]
      by (simp add: divide_less_eq less_divide_eq ac_simps) }
qed

end
