(* ===== verification/Score.thy ===== *)
theory Score
  imports Detection Doubles
begin

text \<open>
  \<open>benchmarks/score.py\<close>: the comparison of the detector with a labelled dataset and the quality gate.
  A case of the dataset is taken after its YAML values were converted; ratios are doubles, rounded after every
  operation as Python rounds them; a violation is kept as data; its printed sentence is in \<open>Reports\<close>.
\<close>

section \<open>Counting\<close>

type_synonym span_key = "pystr \<times> int \<times> int"

record bench_case =
  bc_id :: pystr
  bc_text :: pystr
  bc_expected :: "(span_key \<times> pystr) list"

record tallies =
  ta_tp :: "(pystr \<times> int) list"
  ta_fp :: "(pystr \<times> int) list"
  ta_fn :: "(pystr \<times> int) list"
  ta_false_positives :: "(pystr \<times> pystr \<times> pystr) list"

definition no_tallies :: tallies where
  "no_tallies = \<lparr>ta_tp = [], ta_fp = [], ta_fn = [], ta_false_positives = []\<rparr>"

text \<open>\<open>d[k]\<close> and \<open>d[k] += 1\<close> on a \<open>defaultdict(int)\<close>\<close>

definition count_of :: "(pystr \<times> int) list \<Rightarrow> pystr \<Rightarrow> int" where
  "count_of d k = (case map_of d k of None \<Rightarrow> 0 | Some n \<Rightarrow> n)"

definition bump :: "pystr \<Rightarrow> (pystr \<times> int) list \<Rightarrow> (pystr \<times> int) list" where
  "bump k d = AList.update k (count_of d k + 1) d"

text \<open>The dictionary comprehensions: a later entry with the same key replaces the value\<close>

definition to_dict :: "('k \<times> 'v) list \<Rightarrow> ('k \<times> 'v) list" where
  "to_dict kvs = foldl (\<lambda>d (k, v). AList.update k v d) [] kvs"

definition entity_key :: "pii_entity \<Rightarrow> span_key \<times> pystr" where
  "entity_key e = ((pii_value (e_type e), e_start e, e_end e), e_value e)"

definition found_step :: "pystr \<Rightarrow> (span_key \<times> pystr) list \<Rightarrow> tallies \<Rightarrow> span_key \<times> pystr \<Rightarrow> tallies" where
  "found_step case_id expected_spans a kv =
     (let key = fst kv; ty = fst key in
      if key \<in> fst ` set expected_spans then a\<lparr>ta_tp := bump ty (ta_tp a)\<rparr>
      else let a1 = a\<lparr>ta_fp := bump ty (ta_fp a)\<rparr> in
           if expected_spans = []
           then a1\<lparr>ta_false_positives := ta_false_positives a1 @ [(case_id, ty, snd kv)]\<rparr> else a1)"

definition missed_step :: "(span_key \<times> pystr) list \<Rightarrow> tallies \<Rightarrow> span_key \<times> pystr \<Rightarrow> tallies" where
  "missed_step found_spans a kv =
     (let key = fst kv in
      if key \<notin> fst ` set found_spans then a\<lparr>ta_fn := bump (fst key) (ta_fn a)\<rparr> else a)"

definition score_case :: "(pystr \<Rightarrow> exn + detection_result) \<Rightarrow> tallies \<Rightarrow> bench_case \<Rightarrow> exn + tallies" where
  "score_case detect a c =
     ebind (detect (bc_text c)) (\<lambda>result.
     let found_spans = to_dict (map entity_key (dr_entities result));
         expected_spans = to_dict (bc_expected c);
         a1 = foldl (found_step (bc_id c) expected_spans) a found_spans
     in Inr (foldl (missed_step found_spans) a1 expected_spans))"

definition score :: "(pystr \<Rightarrow> exn + detection_result) \<Rightarrow> bench_case list \<Rightarrow> exn + tallies" where
  "score detect cases = efold (score_case detect) no_tallies cases"

section \<open>The quality gate\<close>

definition MIN_RECALL :: rat where "MIN_RECALL = 1 / 2"

definition MIN_OVERALL_RECALL :: rat where "MIN_OVERALL_RECALL = fl (4 / 5)"

definition MIN_OVERALL_F1 :: rat where "MIN_OVERALL_F1 = fl (4 / 5)"

definition REQUIRED_TYPES :: "pii_type list" where
  "REQUIRED_TYPES = [PERSON_NAME, BIRTH_DATE, BIRTH_PLACE, PASSPORT_NUMBER, CITIZENSHIP, PASSPORT_ISSUER,
     PASSPORT_DIVISION_CODE, PASSPORT_ISSUE_DATE, DRIVER_LICENSE, ADDRESS, COUNTRY, POSTAL_CODE, CITY, STREET, HOUSE,
     APARTMENT, EMAIL, PHONE, INN, BANK_CARD, CVV, PIN, CARDHOLDER_NAME]"

text \<open>\<open>x / (x + y) if x + y else 0.0\<close>; the division of integers is rounded once.\<close>

definition ratio :: "int \<Rightarrow> int \<Rightarrow> rat" where
  "ratio x y = (if x + y \<noteq> 0 then fl (of_int x / of_int (x + y)) else 0)"

definition f1_score :: "rat \<Rightarrow> rat \<Rightarrow> rat" where
  "f1_score precision recall =
     (let total = fl (precision + recall)
      in if total \<noteq> 0 then fl (fl (fl (2 * precision) * recall) / total) else 0)"

definition total_of :: "(pystr \<times> int) list \<Rightarrow> int" where
  "total_of d = sum_list (map snd d)"

datatype violation =
  Zero_Recall pii_type
| Low_Recall pii_type rat
| Low_Overall_Recall rat
| Low_Overall_F1 rat

definition type_violation :: "tallies \<Rightarrow> pii_type \<Rightarrow> violation list" where
  "type_violation a ty =
     (let t = count_of (ta_tp a) (pii_value ty); n = count_of (ta_fn a) (pii_value ty); type_recall = ratio t n
      in if t + n = 0 then []
         else if type_recall = 0 then [Zero_Recall ty]
         else if type_recall < MIN_RECALL then [Low_Recall ty type_recall] else [])"

definition violations :: "tallies \<Rightarrow> violation list" where
  "violations a =
     (let tp = total_of (ta_tp a); fp = total_of (ta_fp a); fn = total_of (ta_fn a);
          precision = ratio tp fp; recall = ratio tp fn; f1 = f1_score precision recall
      in concat (map (type_violation a) (sort REQUIRED_TYPES))
         @ (if recall < MIN_OVERALL_RECALL then [Low_Overall_Recall recall] else [])
         @ (if f1 < MIN_OVERALL_F1 then [Low_Overall_F1 f1] else []))"

definition score_main :: "(pystr \<Rightarrow> exn + detection_result) \<Rightarrow> bench_case list \<Rightarrow> exn + int" where
  "score_main detect cases =
     ebind (score detect cases) (\<lambda>a. Inr (if violations a \<noteq> [] then 1 else 0))"

section \<open>Dictionaries and counters\<close>

lemma map_of_to_dict: "map_of (foldl (\<lambda>d (k, v). AList.update k v d) d0 kvs) k =
    (case map_of (rev kvs) k of None \<Rightarrow> map_of d0 k | Some v \<Rightarrow> Some v)"
  by (induction kvs arbitrary: d0)
     (auto simp: map_of_update map_add_def split: option.splits)

lemma keys_to_dict: "fst ` set (to_dict kvs) = fst ` set kvs"
proof -
  have "map_of (to_dict kvs) k = map_of (rev kvs) k" for k
    by (simp add: to_dict_def map_of_to_dict split: option.split)
  then have "dom (map_of (to_dict kvs)) = dom (map_of (rev kvs))" by (simp add: dom_def)
  then show ?thesis by (simp add: dom_map_of_conv_image_fst)
qed

lemma distinct_to_dict: "distinct (map fst (to_dict kvs))"
proof -
  have "distinct (map fst d0) \<Longrightarrow> distinct (map fst (foldl (\<lambda>d (k, v). AList.update k v d) d0 kvs))" for d0
    by (induction kvs arbitrary: d0) (auto simp: distinct_update)
  then show ?thesis by (simp add: to_dict_def)
qed

lemma count_bump: "count_of (bump k d) k' = count_of d k' + (if k' = k then 1 else 0)"
  by (simp add: count_of_def bump_def map_of_update)

lemma total_bump: "total_of (bump k d) = total_of d + 1"
proof -
  have "total_of (AList.update k v d) = total_of d - count_of d k + v" for v
    by (induction d) (auto simp: total_of_def count_of_def)
  then show ?thesis by (simp add: bump_def)
qed

text \<open>A counter read for one type, or in total\<close>

definition counted :: "pystr option \<Rightarrow> (pystr \<times> int) list \<Rightarrow> int" where
  "counted ty d = (case ty of None \<Rightarrow> total_of d | Some t \<Rightarrow> count_of d t)"

definition typed :: "pystr option \<Rightarrow> span_key set \<Rightarrow> int" where
  "typed ty ks = int (card {k \<in> ks. ty = None \<or> ty = Some (fst k)})"

lemma counted_bump: "counted ty (bump k d) = counted ty d + (if ty = None \<or> ty = Some k then 1 else 0)"
  by (auto simp: counted_def count_bump total_bump split: option.split)

lemma typed_empty [simp]: "typed ty {} = 0"
  by (simp add: typed_def)

lemma typed_insert:
  assumes "finite ks" "k \<notin> ks"
  shows "typed ty (insert k ks) = typed ty ks + (if ty = None \<or> ty = Some (fst k) then 1 else 0)"
proof -
  let ?P = "\<lambda>x. ty = None \<or> ty = Some (fst x)"
  have "{x \<in> insert k ks. ?P x} = (if ?P k then insert k {x \<in> ks. ?P x} else {x \<in> ks. ?P x})" by auto
  with assms show ?thesis by (simp add: typed_def)
qed

lemma found_counts:
  "distinct (map fst kvs) \<Longrightarrow>
   counted ty (ta_tp (foldl (found_step i ex) a kvs)) = counted ty (ta_tp a) + typed ty (fst ` set kvs \<inter> fst ` set ex)
   \<and> counted ty (ta_fp (foldl (found_step i ex) a kvs)) = counted ty (ta_fp a) + typed ty (fst ` set kvs - fst ` set ex)
   \<and> ta_fn (foldl (found_step i ex) a kvs) = ta_fn a"
proof (induction kvs arbitrary: a)
  case (Cons kv kvs)
  have new: "fst kv \<notin> fst ` set kvs" using Cons.prems by simp
  let ?a = "found_step i ex a kv"
  have step: "counted ty (ta_tp ?a) = counted ty (ta_tp a)
      + (if fst kv \<in> fst ` set ex \<and> (ty = None \<or> ty = Some (fst (fst kv))) then 1 else 0)"
    "counted ty (ta_fp ?a) = counted ty (ta_fp a)
      + (if fst kv \<notin> fst ` set ex \<and> (ty = None \<or> ty = Some (fst (fst kv))) then 1 else 0)"
    "ta_fn ?a = ta_fn a"
    by (simp_all add: found_step_def Let_def counted_bump)
  have sets: "typed ty (fst ` set (kv # kvs) \<inter> fst ` set ex) = typed ty (fst ` set kvs \<inter> fst ` set ex)
      + (if fst kv \<in> fst ` set ex \<and> (ty = None \<or> ty = Some (fst (fst kv))) then 1 else 0)"
    "typed ty (fst ` set (kv # kvs) - fst ` set ex) = typed ty (fst ` set kvs - fst ` set ex)
      + (if fst kv \<notin> fst ` set ex \<and> (ty = None \<or> ty = Some (fst (fst kv))) then 1 else 0)"
    using new typed_insert [of "fst ` set kvs \<inter> fst ` set ex" "fst kv"] typed_insert [of "fst ` set kvs - fst ` set ex" "fst kv"]
    by (auto simp: insert_Diff_if Int_insert_left)
  have d: "distinct (map fst kvs)" using Cons.prems by simp
  show ?case using Cons.IH [OF d, of ?a] step sets by (simp del: set_simps)
qed simp

lemma missed_counts:
  "distinct (map fst kvs) \<Longrightarrow>
   counted ty (ta_fn (foldl (missed_step fs) a kvs)) = counted ty (ta_fn a) + typed ty (fst ` set kvs - fst ` set fs)
   \<and> ta_tp (foldl (missed_step fs) a kvs) = ta_tp a \<and> ta_fp (foldl (missed_step fs) a kvs) = ta_fp a"
proof (induction kvs arbitrary: a)
  case (Cons kv kvs)
  have new: "fst kv \<notin> fst ` set kvs" using Cons.prems by simp
  let ?a = "missed_step fs a kv"
  have step: "counted ty (ta_fn ?a) = counted ty (ta_fn a)
      + (if fst kv \<notin> fst ` set fs \<and> (ty = None \<or> ty = Some (fst (fst kv))) then 1 else 0)"
    "ta_tp ?a = ta_tp a" "ta_fp ?a = ta_fp a"
    by (simp_all add: missed_step_def Let_def counted_bump)
  have sets: "typed ty (fst ` set (kv # kvs) - fst ` set fs) = typed ty (fst ` set kvs - fst ` set fs)
      + (if fst kv \<notin> fst ` set fs \<and> (ty = None \<or> ty = Some (fst (fst kv))) then 1 else 0)"
    using new typed_insert [of "fst ` set kvs - fst ` set fs" "fst kv"] by (simp add: insert_Diff_if)
  have d: "distinct (map fst kvs)" using Cons.prems by simp
  show ?case using Cons.IH [OF d, of ?a] step sets by (simp del: set_simps)
qed simp

section \<open>The counts as sets\<close>

definition found_keys :: "(pystr \<Rightarrow> exn + detection_result) \<Rightarrow> bench_case \<Rightarrow> span_key set" where
  "found_keys detect c = (case detect (bc_text c) of Inl e \<Rightarrow> {} | Inr r \<Rightarrow> (fst \<circ> entity_key) ` set (dr_entities r))"

definition expected_keys :: "bench_case \<Rightarrow> span_key set" where
  "expected_keys c = fst ` set (bc_expected c)"

definition hits :: "(pystr \<Rightarrow> exn + detection_result) \<Rightarrow> bench_case list \<Rightarrow> pystr option \<Rightarrow> int" where
  "hits detect cases ty = (\<Sum>c\<leftarrow>cases. typed ty (found_keys detect c \<inter> expected_keys c))"

definition spurious :: "(pystr \<Rightarrow> exn + detection_result) \<Rightarrow> bench_case list \<Rightarrow> pystr option \<Rightarrow> int" where
  "spurious detect cases ty = (\<Sum>c\<leftarrow>cases. typed ty (found_keys detect c - expected_keys c))"

definition missed :: "(pystr \<Rightarrow> exn + detection_result) \<Rightarrow> bench_case list \<Rightarrow> pystr option \<Rightarrow> int" where
  "missed detect cases ty = (\<Sum>c\<leftarrow>cases. typed ty (expected_keys c - found_keys detect c))"

lemma case_counts:
  assumes "score_case detect a c = Inr a'"
  shows "counted ty (ta_tp a') = counted ty (ta_tp a) + typed ty (found_keys detect c \<inter> expected_keys c)
    \<and> counted ty (ta_fp a') = counted ty (ta_fp a) + typed ty (found_keys detect c - expected_keys c)
    \<and> counted ty (ta_fn a') = counted ty (ta_fn a) + typed ty (expected_keys c - found_keys detect c)"
proof -
  from assms obtain r where r: "detect (bc_text c) = Inr r" by (auto simp: score_case_def ebind_eq_Inr)
  let ?f = "to_dict (map entity_key (dr_entities r))" and ?e = "to_dict (bc_expected c)"
  have a': "a' = foldl (missed_step ?f) (foldl (found_step (bc_id c) ?e) a ?f) ?e"
    using assms r by (simp add: score_case_def Let_def)
  have keys: "fst ` set ?f = found_keys detect c" "fst ` set ?e = expected_keys c"
    using r by (simp_all add: keys_to_dict found_keys_def expected_keys_def image_comp)
  from found_counts [OF distinct_to_dict, of ty "bc_id c" ?e a] missed_counts [OF distinct_to_dict, of ty ?f]
  show ?thesis unfolding a' keys [symmetric] by simp
qed

lemma fold_counts:
  "efold (score_case detect) a cases = Inr a' \<Longrightarrow>
   counted ty (ta_tp a') = counted ty (ta_tp a) + hits detect cases ty
   \<and> counted ty (ta_fp a') = counted ty (ta_fp a) + spurious detect cases ty
   \<and> counted ty (ta_fn a') = counted ty (ta_fn a) + missed detect cases ty"
proof (induction cases arbitrary: a)
  case Nil
  then show ?case by (simp add: hits_def spurious_def missed_def)
next
  case (Cons c cases)
  then obtain a1 where a1: "score_case detect a c = Inr a1" "efold (score_case detect) a1 cases = Inr a'"
    by (auto simp: ebind_eq_Inr)
  from Cons.IH [OF a1(2)] case_counts [OF a1(1), of ty] show ?case
    by (simp add: hits_def spurious_def missed_def)
qed

lemma score_counts:
  "score detect cases = Inr a \<Longrightarrow> counted ty (ta_tp a) = hits detect cases ty
   \<and> counted ty (ta_fp a) = spurious detect cases ty \<and> counted ty (ta_fn a) = missed detect cases ty"
proof -
  have zero: "counted ty [] = 0" by (simp add: counted_def count_of_def total_of_def split: option.split)
  assume "score detect cases = Inr a"
  from fold_counts [OF this [unfolded score_def], of ty] zero show ?thesis by (simp add: no_tallies_def)
qed

text \<open>The counts of one type are part of the totals.\<close>

lemma typed_le: "finite ks \<Longrightarrow> typed ty ks \<le> typed None ks"
  by (auto simp: typed_def intro: card_mono)

lemma keys_finite: "finite (found_keys detect c)" "finite (expected_keys c)"
  by (auto simp: found_keys_def expected_keys_def split: sum.split)

lemma counts_type: "hits detect cases (Some ty) \<le> hits detect cases None" "missed detect cases (Some ty) \<le> missed detect cases None"
  unfolding hits_def missed_def by (auto intro!: sum_list_mono typed_le simp: keys_finite)

section \<open>The gate\<close>

lemma typed_nonneg [simp]: "0 \<le> typed ty ks"
  by (simp add: typed_def)

lemma counts_nonneg: "0 \<le> hits detect cases ty" "0 \<le> spurious detect cases ty" "0 \<le> missed detect cases ty"
  by (auto simp: hits_def spurious_def missed_def intro!: sum_list_nonneg)

text \<open>The rounded ratios against their thresholds, for up to \<open>2 ^ 40\<close> spans\<close>

lemma ratio_near:
  assumes "0 < x" "0 \<le> y" "x + y \<le> 2 ^ 40"
  shows "near 1 (ratio x y) (of_int x / of_int (x + y))" "1 / 2 ^ 40 \<le> (of_int x / of_int (x + y) :: rat)"
proof -
  have "(of_int (x + y) :: rat) \<le> of_int (2 ^ 40)" "(of_int 1 :: rat) \<le> of_int x"
    unfolding of_int_le_iff using assms by simp_all
  then have b: "(of_int (x + y) :: rat) \<le> 2 ^ 40" "(1 :: rat) \<le> of_int x" by simp_all
  have "(of_int 0 :: rat) < of_int (x + y)" unfolding of_int_less_iff using assms by simp
  then have p: "(0 :: rat) < of_int (x + y)" by simp
  note b(1)
  also have "(2 ^ 40 :: rat) \<le> of_int x * 2 ^ 40" using b(2) by simp
  finally have "of_int (x + y) \<le> of_int x * (2 ^ 40 :: rat)" .
  then show low: "1 / 2 ^ 40 \<le> (of_int x / of_int (x + y) :: rat)" using p by (simp add: divide_le_eq le_divide_eq)
  have "0 < (of_int x / of_int (x + y) :: rat)" using p b by (simp only: divide_pos_pos)
  moreover have "(1 :: rat) / 2 ^ 900 \<le> 1 / 2 ^ 40" by simp
  ultimately show "near 1 (ratio x y) (of_int x / of_int (x + y))"
    using near_fl [OF near_refl [of "of_int x / of_int (x + y)" 0]] low assms by (simp add: ratio_def)
qed

lemma ratio_zero: "0 \<le> t \<Longrightarrow> 0 \<le> n \<Longrightarrow> t + n \<noteq> 0 \<Longrightarrow> t + n \<le> 2 ^ 40 \<Longrightarrow> ratio t n = 0 \<longleftrightarrow> t = 0"
  using ratio_near(1) [of t n] near_pos [of 1 "ratio t n"] by (cases "t = 0") (auto simp: ratio_def)

lemma fl_half: "fl (1 / 2) = 1 / 2"
  using fl_exact [of 1 "-1"] by simp

lemma four_fifths: "near 1 (fl (4 / 5)) (4 / 5)"
  by (simp add: near_fl [OF near_refl])

lemma ratio_threshold:
  assumes "0 \<le> t" "0 \<le> n" "t + n \<noteq> 0" "t + n \<le> 2 ^ 40" "0 < p" "p \<le> 8" "0 < q"
    and c: "near 1 (fl (of_int p / of_int q)) (of_int p / of_int q)"
  shows "fl (of_int p / of_int q) \<le> ratio t n \<longleftrightarrow> p * (t + n) \<le> q * t"
proof -
  have pos: "0 < t + n" using assms by linarith
  then have "(of_int 0 :: rat) < of_int (t + n)" by (simp only: of_int_less_iff)
  then have b: "(0 :: rat) < of_int (t + n)" by simp
  have q: "(0 :: rat) < of_int q" using assms by simp
  show ?thesis
  proof
    assume "p * (t + n) \<le> q * t"
    then have "(of_int (p * (t + n)) :: rat) \<le> of_int (q * t)" by (simp only: of_int_le_iff)
    then have "(of_int p / of_int q :: rat) \<le> of_int t / of_int (t + n)" using b q by (simp add: divide_le_eq le_divide_eq ac_simps)
    from fl_mono [OF this] show "fl (of_int p / of_int q) \<le> ratio t n" using assms(3) by (simp add: ratio_def)
  next
    assume le: "fl (of_int p / of_int q) \<le> ratio t n"
    show "p * (t + n) \<le> q * t"
    proof (rule ccontr)
      assume "\<not> p * (t + n) \<le> q * t"
      then have gap: "of_int t / of_int (t + n) * (1 + 1 / 2 ^ 48) < (of_int p / of_int q :: rat)"
        using assms pos by (intro fraction_gap(1)) auto
      show False
      proof (cases "t = 0")
        case True
        then show False using le near_pos [OF c] assms(3) by (simp add: ratio_def)
      next
        case False
        with near_below [OF ratio_near(1) c _ gap] assms le show False by auto
      qed
    qed
  qed
qed

lemma recall_half: "0 \<le> t \<Longrightarrow> 0 \<le> n \<Longrightarrow> t + n \<noteq> 0 \<Longrightarrow> t + n \<le> 2 ^ 40 \<Longrightarrow> MIN_RECALL \<le> ratio t n \<longleftrightarrow> n \<le> t"
  using ratio_threshold [of t n 1 2] by (simp add: MIN_RECALL_def fl_half near_refl)

lemma min_positive: "0 < MIN_OVERALL_RECALL" "0 < MIN_OVERALL_F1"
  using near_pos [OF four_fifths] by (simp_all add: MIN_OVERALL_RECALL_def MIN_OVERALL_F1_def)

lemma recall_overall:
  assumes "0 \<le> t" "0 \<le> n" "t + n \<le> 2 ^ 40"
  shows "MIN_OVERALL_RECALL \<le> ratio t n \<longleftrightarrow> 0 < t \<and> 4 * n \<le> t"
proof (cases "t + n = 0")
  case True
  then show ?thesis using assms min_positive by (simp add: ratio_def)
next
  case False
  with ratio_threshold [of t n 4 5] assms four_fifths show ?thesis
    by (auto simp: MIN_OVERALL_RECALL_def)
qed

text \<open>The harmonic mean of precision and recall in counts, computed with six roundings\<close>

lemma f1_near:
  assumes "0 < t" "0 \<le> f" "0 \<le> n" "t + f + n \<le> 2 ^ 40"
  shows "near 7 (f1_score (ratio t f) (ratio t n)) (of_int (2 * t) / of_int (2 * t + f + n))"
proof -
  define T F N where "T = (of_int t :: rat)" and "F = (of_int f :: rat)" and "N = (of_int n :: rat)"
  define P R where "P = T / (T + F)" and "R = T / (T + N)"
  have pos: "0 < T" "0 \<le> F" "0 \<le> N" using assms by (simp_all add: T_def F_def N_def)
  have p: "near 1 (ratio t f) P" "1 / 2 ^ 40 \<le> P" and q: "near 1 (ratio t n) R" "1 / 2 ^ 40 \<le> R"
    using ratio_near [of t f] ratio_near [of t n] assms by (simp_all add: P_def R_def T_def F_def N_def)
  have pr: "1 / 2 ^ 80 \<le> P * R"
    using mult_mono [OF p(2) q(2)] p(2) by (simp add: power_add [symmetric])
  have "near 1 (2 * ratio t f) (2 * P)" using near_mult [OF near_refl [of 2 0] p(1)] by simp
  from near_fl [OF this] p(2) have a: "near 2 (fl (2 * ratio t f)) (2 * P)" by (simp add: eval_nat_numeral)
  have b: "near 4 (fl (fl (2 * ratio t f) * ratio t n)) (2 * P * R)"
    using near_fl [OF near_mult [OF a q(1)]] pr by simp
  have c: "near 2 (fl (ratio t f + ratio t n)) (P + R)"
    using near_fl [OF near_add [OF p(1) q(1)]] p(2) q(2) by (simp add: eval_nat_numeral)
  have sum: "2 * P * R / (P + R) = 2 * T / (2 * T + F + N)"
  proof -
    have TF: "0 < T + F" "0 < T + N" "0 < 2 * T + F + N" using pos by linarith+
    have "P + R = T * (2 * T + F + N) / ((T + F) * (T + N))" using TF by (simp add: P_def R_def add_frac_eq algebra_simps)
    then show ?thesis using TF pos by (simp add: P_def R_def)
  qed
  have "(1::rat) / 2 ^ 900 \<le> 2 * P * R / (P + R)"
  proof -
    have "P \<le> 1" "R \<le> 1" using pos by (simp_all add: P_def R_def divide_le_eq)
    then have "P + R \<le> 2" by simp
    have "0 < P + R" using p(2) q(2) by simp
    have "1 / 2 ^ 900 * (P + R) \<le> 1 / 2 ^ 900 * 2" using \<open>P + R \<le> 2\<close> by (intro mult_left_mono) simp_all
    also have "\<dots> \<le> 2 * P * R" using pr by simp
    finally show ?thesis using \<open>0 < P + R\<close> by (simp add: le_divide_eq)
  qed
  with near_fl [OF near_divide [OF b c]] have "near 7 (f1_score (ratio t f) (ratio t n)) (2 * P * R / (P + R))"
    using near_pos [OF c] by (simp add: f1_score_def)
  then show ?thesis by (simp add: sum T_def F_def N_def)
qed

text \<open>
  Below and above four in five the roundings cannot change the comparison; at four in five they decide it.
\<close>

lemma f1_overall:
  assumes "0 \<le> t" "0 \<le> f" "0 \<le> n" "t + f + n \<le> 2 ^ 40"
  shows "MIN_OVERALL_F1 \<le> f1_score (ratio t f) (ratio t n) \<longleftrightarrow>
    0 < t \<and> (2 * (f + n) < t \<or> 2 * (f + n) = t \<and> MIN_OVERALL_F1 \<le> f1_score (ratio t f) (ratio t n))"
proof (cases "t = 0")
  case True
  then show ?thesis using min_positive by (simp add: f1_score_def ratio_def)
next
  case False
  with assms have t: "0 < t" by simp
  note F = f1_near [OF t assms(2-4)]
  have b: "0 < 2 * t + f + n" "2 * t + f + n \<le> 2 ^ 42" using t assms by simp_all
  have below: "of_int (2 * t) / of_int (2 * t + f + n) * (1 + 1 / 2 ^ 48) < (4 / 5 :: rat)" if "t < 2 * (f + n)"
    using fraction_gap(1) [OF b, of 4 5 "2 * t"] that by (simp del: of_int_add of_int_mult)
  have above: "4 / 5 * (1 + 1 / 2 ^ 48) < (of_int (2 * t) / of_int (2 * t + f + n) :: rat)" if "2 * (f + n) < t"
    using fraction_gap(2) [OF b, of 4 5 "2 * t"] that by (simp del: of_int_add of_int_mult)
  have "f1_score (ratio t f) (ratio t n) < MIN_OVERALL_F1" if "t < 2 * (f + n)"
    using near_below [OF F four_fifths _ below [OF that]] by (simp add: MIN_OVERALL_F1_def)
  moreover have "MIN_OVERALL_F1 < f1_score (ratio t f) (ratio t n)" if "2 * (f + n) < t"
    using near_above [OF F four_fifths _ above [OF that]] by (simp add: MIN_OVERALL_F1_def)
  ultimately show ?thesis using t by (metis linorder_cases not_less order_less_imp_le)
qed

text \<open>
  C29: What the quality gate demands (equivalence).  For up to \<open>2 ^ 40\<close> spans the counters of the scoring
  loop are the sizes of the intersection and of the differences of the found and the expected spans, and the
  exit code is 0 exactly when at least half of the expected spans of each required type are found, at least
  four in five overall, and the found spans outnumber the wrong and missing ones more than two to one.  At
  two to one, where the exact F1 is the required four in five, the rounding of the floats decides.
\<close>

theorem score_gate_exact:
  assumes "score_main detect cases = Inr code"
    and "hits detect cases None + spurious detect cases None + missed detect cases None \<le> 2 ^ 40"
  shows "code = (if (\<forall>ty \<in> set REQUIRED_TYPES. missed detect cases (Some (pii_value ty)) \<le> hits detect cases (Some (pii_value ty)))
       \<and> 0 < hits detect cases None \<and> 4 * missed detect cases None \<le> hits detect cases None
       \<and> (2 * (spurious detect cases None + missed detect cases None) < hits detect cases None
          \<or> 2 * (spurious detect cases None + missed detect cases None) = hits detect cases None
            \<and> MIN_OVERALL_F1 \<le> f1_score (ratio (hits detect cases None) (spurious detect cases None))
                 (ratio (hits detect cases None) (missed detect cases None)))
     then 0 else 1)"
proof -
  from assms obtain a where a: "score detect cases = Inr a" "code = (if violations a \<noteq> [] then 1 else 0)"
    by (auto simp: score_main_def ebind_eq_Inr)
  note counts = score_counts [OF a(1)]
  let ?h = "hits detect cases None" and ?m = "missed detect cases None" and ?s = "spurious detect cases None"
  have nn: "0 \<le> ?h" "0 \<le> ?m" "0 \<le> ?s" by (rule counts_nonneg)+
  have ty: "type_violation a ty = [] \<longleftrightarrow> missed detect cases (Some (pii_value ty)) \<le> hits detect cases (Some (pii_value ty))" for ty
  proof -
    let ?h1 = "hits detect cases (Some (pii_value ty))" and ?m1 = "missed detect cases (Some (pii_value ty))"
    have n1: "0 \<le> ?h1" "0 \<le> ?m1" by (rule counts_nonneg)+
    have "?h1 + ?m1 \<le> 2 ^ 40" using counts_type [of detect cases "pii_value ty"] assms(2) nn by linarith
    then show ?thesis
      using n1 recall_half [OF n1] ratio_zero [OF n1] counts [of "Some (pii_value ty)"]
      by (cases "?h1 + ?m1 = 0") (auto simp: type_violation_def counted_def Let_def not_less)
  qed
  have c: "total_of (ta_tp a) = ?h" "total_of (ta_fp a) = ?s" "total_of (ta_fn a) = ?m"
    using counts [of None] by (simp_all add: counted_def)
  have "violations a = [] \<longleftrightarrow> (\<forall>ty \<in> set REQUIRED_TYPES. type_violation a ty = [])
      \<and> MIN_OVERALL_RECALL \<le> ratio ?h ?m \<and> MIN_OVERALL_F1 \<le> f1_score (ratio ?h ?s) (ratio ?h ?m)"
    by (auto simp: violations_def Let_def c not_less)
  moreover have "MIN_OVERALL_RECALL \<le> ratio ?h ?m \<longleftrightarrow> 0 < ?h \<and> 4 * ?m \<le> ?h"
    using assms(2) nn by (intro recall_overall) linarith+
  moreover note f1_overall [OF nn(1,3,2) assms(2)]
  ultimately show ?thesis using a(2) ty by simp blast
qed

text \<open>At two to one: six hits, two wrong and one missing span have the exact F1 of 0.8 and are refused.\<close>

lemma boundary_refused: "\<not> MIN_OVERALL_F1 \<le> f1_score (ratio 6 2) (ratio 6 1)"
  by code_simp

section \<open>An example\<close>

definition bench_detect :: "pystr \<Rightarrow> exn + detection_result" where
  "bench_detect t = Inr \<lparr>dr_entities = (if t = [] then [] else [PIIEntity EMAIL t 0 (int (length t)) 1 (lit ''regex'')]),
     dr_processing_time = 0, dr_metadata = []\<rparr>"

definition bench_cases :: "bench_case list" where
  "bench_cases = [\<lparr>bc_id = lit ''1'', bc_text = lit ''a@b.cc'', bc_expected = [((pii_value EMAIL, 0, 6), lit ''a@b.cc'')]\<rparr>,
     \<lparr>bc_id = lit ''2'', bc_text = [], bc_expected = []\<rparr>]"

theorem score_gate_exact_witness:
  "score_main bench_detect bench_cases = Inr 0 \<and> missed bench_detect bench_cases None = 0
     \<and> hits bench_detect bench_cases None = 1"
proof -
  have "\<exists>code. score_main bench_detect bench_cases = Inr code"
    by (simp add: score_main_def score_def score_case_def bench_detect_def bench_cases_def Let_def)
  then obtain code where code: "score_main bench_detect bench_cases = Inr code" by blast
  have sets: "found_keys bench_detect c = expected_keys c" if "c \<in> set bench_cases" for c
    using that by (auto simp: bench_cases_def found_keys_def bench_detect_def expected_keys_def entity_key_def lit_def)
  have m: "missed bench_detect bench_cases ty = 0" "spurious bench_detect bench_cases ty = 0" for ty
    using sets by (simp_all add: missed_def spurious_def bench_cases_def)
  have "{k \<in> {(pii_value EMAIL, 0 :: int, 6 :: int)}. True} = {(pii_value EMAIL, 0, 6)}" by blast
  then have h: "hits bench_detect bench_cases None = 1"
    using sets by (simp add: hits_def bench_cases_def typed_def expected_keys_def)
  from score_gate_exact [OF code] m h counts_nonneg(1) have "code = 0" by simp
  with code m h show ?thesis by simp
qed

end
