(* ===== verification/Package.thy ===== *)
theory Package
  imports Domain
begin

text \<open>
  \<open>scripts/package_submission.py\<close>: which files go into the archive and which archives are accepted.  A
  path is the list of its parts, as \<open>PurePosixPath.parts\<close> gives it; a directory tree is a datatype
  whose entries are files, links or directories.  The archive that is written, the processes of the smoke test and
  \<open>main\<close> are in \<open>PackageRun\<close>.
\<close>

section \<open>Paths\<close>

fun split_char :: "codepoint \<Rightarrow> pystr \<Rightarrow> pystr list" where
  "split_char c [] = [[]]"
| "split_char c (x # xs) =
     (if x = c then [] # split_char c xs
      else case split_char c xs of [] \<Rightarrow> [[x]] | p # ps \<Rightarrow> (x # p) # ps)"

text \<open>The root of a path is \<open>/\<close>, or \<open>//\<close> when it begins with exactly two slashes.\<close>

definition path_root :: "pystr \<Rightarrow> pystr list" where
  "path_root s =
     (if prefix (lit ''//'') s \<and> \<not> prefix (lit ''///'') s then [lit ''//'']
      else if prefix (lit ''/'') s then [lit ''/''] else [])"

definition path_tail :: "pystr \<Rightarrow> pystr list" where
  "path_tail s = filter (\<lambda>p. p \<noteq> [] \<and> p \<noteq> lit ''.'') (split_char 47 s)"

definition path_parts :: "pystr \<Rightarrow> pystr list" where
  "path_parts s = path_root s @ path_tail s"

text \<open>\<open>path.name\<close>, \<open>path.suffix\<close> and \<open>path.as_posix()\<close> of a relative path\<close>

definition path_name :: "pystr list \<Rightarrow> pystr" where
  "path_name parts = (if parts = [] then [] else last parts)"

definition path_suffix :: "pystr list \<Rightarrow> pystr" where
  "path_suffix parts =
     (let n = path_name parts; ext = takeWhile (\<lambda>c. c \<noteq> 46) (rev n)
      in if 46 \<in> set n \<and> ext \<noteq> [] \<and> length ext + 1 < length n then 46 # rev ext else [])"

definition as_posix :: "pystr list \<Rightarrow> pystr" where
  "as_posix parts = str_join (lit ''/'') parts"

section \<open>What is excluded\<close>

definition EXCLUDED_DIRS :: "pystr list" where
  "EXCLUDED_DIRS = map lit [''.git'', ''.kilo'', ''.idea'', ''.vscode'', ''.venv'', ''.deps'', ''venv'', ''env'',
     ''__pycache__'', ''.pytest_cache'', ''.mypy_cache'', ''.ruff_cache'', ''coverage'', ''htmlcov'', ''node_modules'',
     ''target'', ''build'', ''dist'', ''out'', ''bin'', ''obj'', ''artifacts'', ''.egg-info'']"

definition EXCLUDED_SUFFIXES :: "pystr list" where
  "EXCLUDED_SUFFIXES = map lit [''.pyc'', ''.pyo'', ''.log'', ''.zip'']"

definition REQUIRED_FILES :: "pystr list" where
  "REQUIRED_FILES = map lit [''README.md'', ''pyproject.toml'', ''app/main.py'', ''configs/consumers/default.yaml'',
     ''Dockerfile'', ''docker-compose.yml'', ''.env.example'', ''tests/conftest.py'', ''tests/unit/test_masking.py'',
     ''scripts/package_submission.py'', ''docs/architecture.md'']"

definition is_secret_environment_file :: "pystr \<Rightarrow> bool" where
  "is_secret_environment_file name \<longleftrightarrow> prefix (lit ''.env'') name \<and> name \<noteq> lit ''.env.example''"

definition is_pytest_temp_dir :: "ucd \<Rightarrow> pystr \<Rightarrow> bool" where
  "is_pytest_temp_dir U name =
     (let lowered = str_lower U name in
      prefix (lit ''.pytest'') lowered \<or> prefix (lit ''pytest-'') lowered
      \<or> str_in (lit ''pytest-basetemp'') lowered \<or> str_in (lit ''pytest-temp'') lowered
      \<or> str_in (lit ''.pytest'') lowered)"

text \<open>The condition on a part of a path, and on the directories that are walked into\<close>

definition excluded_part :: "ucd \<Rightarrow> pystr \<Rightarrow> bool" where
  "excluded_part U part \<longleftrightarrow>
     part \<in> set EXCLUDED_DIRS \<or> suffix (lit ''.egg-info'') part \<or> is_pytest_temp_dir U part"

definition is_excluded_relative :: "ucd \<Rightarrow> pystr list \<Rightarrow> bool" where
  "is_excluded_relative U parts \<longleftrightarrow>
     is_secret_environment_file (path_name parts)
     \<or> str_lower U (path_suffix parts) \<in> set EXCLUDED_SUFFIXES
     \<or> (\<exists>part \<in> set parts. excluded_part U part)"

section \<open>Collecting the files\<close>

datatype node = File_Node | Link_Node | Dir_Node "(pystr \<times> node) list"

fun is_file :: "node \<Rightarrow> bool" where
  "is_file File_Node = True" | "is_file _ = False"

fun is_dir :: "node \<Rightarrow> bool" where
  "is_dir (Dir_Node kids) = True" | "is_dir _ = False"

text \<open>\<open>sorted\<close> by a key that is a string\<close>

fun insert_by :: "('a \<Rightarrow> pystr) \<Rightarrow> 'a \<Rightarrow> 'a list \<Rightarrow> 'a list" where
  "insert_by k x [] = [x]"
| "insert_by k x (y # ys) = (if str_le (k x) (k y) then x # y # ys else y # insert_by k x ys)"

definition sort_by :: "('a \<Rightarrow> pystr) \<Rightarrow> 'a list \<Rightarrow> 'a list" where
  "sort_by k xs = foldr (insert_by k) xs []"

text \<open>\<open>os.walk\<close> with the pruned and sorted \<open>dirnames\<close>: the files it yields, links skipped\<close>

function walk :: "ucd \<Rightarrow> pystr list \<Rightarrow> node \<Rightarrow> pystr list list" where
  "walk U rel File_Node = []"
| "walk U rel Link_Node = []"
| "walk U rel (Dir_Node kids) =
     map (\<lambda>n. rel @ [n]) (sort_by (\<lambda>n. n) (map fst (filter (\<lambda>nk. is_file (snd nk)) kids)))
     @ concat (map snd (sort_by fst
         (map (\<lambda>nk. (fst nk, walk U (rel @ [fst nk]) (snd nk)))
            (filter (\<lambda>nk. is_dir (snd nk) \<and> \<not> excluded_part U (fst nk)) kids))))"
  by pat_completeness auto
termination
proof (relation "measure (\<lambda>(U, rel, t). size t)")
  fix U :: ucd and rel kids and nk :: "pystr \<times> node"
  assume "nk \<in> set (filter (\<lambda>nk. is_dir (snd nk) \<and> \<not> excluded_part U (fst nk)) kids)"
  then have "nk \<in> set kids" by simp
  then show "((U, rel @ [fst nk], snd nk), (U, rel, Dir_Node kids)) \<in> measure (\<lambda>(U, rel, t). size t)"
    by (induction kids) (auto simp: less_Suc_eq_le trans_le_add2)
qed simp

definition collect_files :: "ucd \<Rightarrow> node \<Rightarrow> pystr list list \<Rightarrow> pystr list list" where
  "collect_files U base excluded =
     sort_by as_posix
       (filter (\<lambda>relative. relative \<notin> set excluded \<and> \<not> is_excluded_relative U relative) (walk U [] base))"

section \<open>Validation and building\<close>

datatype zip_error = Corrupt pystr | Forbidden "pystr list" | Missing "pystr list"

definition unsafe_archive_name :: "pystr \<Rightarrow> bool" where
  "unsafe_archive_name name =
     (let s = str_replace (lit [CHR 0x5C]) (lit ''/'') name; parts = path_parts s in
      path_root s \<noteq> [] \<or> parts \<noteq> [] \<and> suffix (lit '':'') (hd parts) \<or> lit ''..'' \<in> set parts \<or> parts = [])"

text \<open>\<open>bad\<close> is what \<open>testzip\<close> returns, \<open>names\<close> the result of \<open>namelist\<close>.\<close>

definition validate_zip :: "ucd \<Rightarrow> pystr option \<Rightarrow> pystr list \<Rightarrow> zip_error + unit" where
  "validate_zip U bad names =
     (case bad of
        Some name \<Rightarrow> Inl (Corrupt name)
      | None \<Rightarrow>
          let forbidden = filter (\<lambda>name. unsafe_archive_name name
                \<or> is_excluded_relative U (path_parts (str_replace (lit [CHR 0x5C]) (lit ''/'') name))) names in
          if forbidden \<noteq> [] then Inl (Forbidden (sort_by (\<lambda>n. n) forbidden))
          else let missing = sort_by (\<lambda>n. n) (filter (\<lambda>f. f \<notin> set names) REQUIRED_FILES) in
               if missing \<noteq> [] then Inl (Missing missing) else Inr ())"

text \<open>The names written, and the validation of the result; \<open>testzip\<close> finds nothing in a fresh archive.\<close>

definition build_zip :: "ucd \<Rightarrow> node \<Rightarrow> pystr list list \<Rightarrow> zip_error + pystr list" where
  "build_zip U base output_path =
     (let names = map as_posix (collect_files U base output_path)
      in ebind (validate_zip U None names) (\<lambda>_. Inr names))"

section \<open>Sorting\<close>

lemma set_insert_by: "set (insert_by k x xs) = insert x (set xs)"
  by (induction xs) auto

lemma set_sort_by [simp]: "set (sort_by k xs) = set xs"
  by (induction xs) (simp_all add: sort_by_def set_insert_by)

abbreviation ordered_by :: "('a \<Rightarrow> pystr) \<Rightarrow> 'a list \<Rightarrow> bool" where
  "ordered_by k \<equiv> sorted_wrt (\<lambda>x y. str_le (k x) (k y))"

lemma ordered_insert_by: "ordered_by k xs \<Longrightarrow> ordered_by k (insert_by k x xs)"
proof (induction xs)
  case (Cons y ys)
  then show ?case using str_le_total [of "k x" "k y"] by (auto simp: set_insert_by intro: str_le_trans)
qed simp

lemma ordered_sort_by: "ordered_by k (sort_by k xs)"
  by (induction xs) (simp_all add: sort_by_def ordered_insert_by)

lemma sort_by_Nil [simp]: "sort_by k xs = [] \<longleftrightarrow> xs = []"
  using set_sort_by [of k xs] by (metis set_empty)

section \<open>The files of a tree\<close>

inductive file_at :: "node \<Rightarrow> pystr list \<Rightarrow> bool" where
  here: "(n, File_Node) \<in> set kids \<Longrightarrow> file_at (Dir_Node kids) [n]"
| below: "(n, k) \<in> set kids \<Longrightarrow> is_dir k \<Longrightarrow> file_at k p \<Longrightarrow> file_at (Dir_Node kids) (n # p)"

inductive_simps file_at_leaf [simp]: "file_at File_Node p" "file_at Link_Node p"
inductive_simps file_at_dir: "file_at (Dir_Node kids) p"

lemma file_at_nonempty: "file_at t p \<Longrightarrow> p \<noteq> []"
  by (cases rule: file_at.cases) auto

lemma walk_dir:
  "q \<in> set (walk U rel (Dir_Node kids)) \<longleftrightarrow> (\<exists>n k. (n, k) \<in> set kids \<and>
     (is_file k \<and> q = rel @ [n] \<or> is_dir k \<and> \<not> excluded_part U n \<and> q \<in> set (walk U (rel @ [n]) k)))"
  by (simp add: image_iff) blast

text \<open>The walk yields the files that are not below an excluded directory.\<close>

lemma walk_files: "set (walk U rel t) = {rel @ p | p. file_at t p \<and> (\<forall>d \<in> set (butlast p). \<not> excluded_part U d)}"
proof (induction U rel t rule: walk.induct)
  case (3 U rel kids)
  have sub: "set (walk U (rel @ [n]) k)
      = {rel @ n # p | p. file_at k p \<and> (\<forall>d \<in> set (butlast p). \<not> excluded_part U d)}"
    if "(n, k) \<in> set kids" "is_dir k" "\<not> excluded_part U n" for n k
    using "3" [of "(n, k)"] that by auto
  show ?case
  proof (intro set_eqI iffI)
    fix q assume "q \<in> set (walk U rel (Dir_Node kids))"
    then consider n k where "(n, k) \<in> set kids" "is_file k" "q = rel @ [n]"
      | n k where "(n, k) \<in> set kids" "is_dir k" "\<not> excluded_part U n" "q \<in> set (walk U (rel @ [n]) k)"
      unfolding walk_dir by blast
    then show "q \<in> {rel @ p | p. file_at (Dir_Node kids) p \<and> (\<forall>d \<in> set (butlast p). \<not> excluded_part U d)}"
    proof cases
      case 1
      from 1(2) have "k = File_Node" by (cases k) auto
      with 1 show ?thesis by (auto intro: here)
    next
      case 2
      with sub obtain p where p: "q = rel @ n # p" "file_at k p" "\<forall>d \<in> set (butlast p). \<not> excluded_part U d" by blast
      with 2 show ?thesis by (auto intro!: exI [of _ "n # p"] below split: if_splits)
    qed
  next
    fix q assume "q \<in> {rel @ p | p. file_at (Dir_Node kids) p \<and> (\<forall>d \<in> set (butlast p). \<not> excluded_part U d)}"
    then obtain p where p: "q = rel @ p" "file_at (Dir_Node kids) p" "\<forall>d \<in> set (butlast p). \<not> excluded_part U d" by blast
    from p(2) show "q \<in> set (walk U rel (Dir_Node kids))"
    proof (cases rule: file_at.cases)
      case (here n)
      then have "(n, File_Node) \<in> set kids \<and> is_file File_Node \<and> q = rel @ [n]" using p(1) by simp
      then show ?thesis unfolding walk_dir by blast
    next
      case (below n k p')
      then have "\<not> excluded_part U n" "\<forall>d \<in> set (butlast p'). \<not> excluded_part U d"
        using p(3) file_at_nonempty [OF below(4)] by auto
      with below sub p(1) have "q \<in> set (walk U (rel @ [n]) k)" by blast
      with below(2,3) \<open>\<not> excluded_part U n\<close> show ?thesis unfolding walk_dir by blast
    qed
  qed
qed simp_all

section \<open>Names written are names read\<close>

definition plain_name :: "pystr \<Rightarrow> bool" where
  "plain_name n \<longleftrightarrow> n \<noteq> [] \<and> 47 \<notin> set n \<and> 92 \<notin> set n \<and> n \<noteq> lit ''.'' \<and> n \<noteq> lit ''..''"

lemma split_plain: "47 \<notin> set n \<Longrightarrow> split_char 47 n = [n]"
  by (induction n) auto

lemma split_join_plain: "47 \<notin> set n \<Longrightarrow> split_char 47 (n @ 47 # s) = n # split_char 47 s"
  by (induction n) auto

lemma split_as_posix: "ps \<noteq> [] \<Longrightarrow> \<forall>p \<in> set ps. 47 \<notin> set p \<Longrightarrow> split_char 47 (as_posix ps) = ps"
proof (induction ps rule: induct_list012)
  case (3 x y zs)
  then show ?case by (simp add: as_posix_def split_join_plain lit_def)
qed (simp_all add: as_posix_def split_plain)

lemma as_posix_chars: "c \<in> set (as_posix ps) \<Longrightarrow> c = 47 \<or> (\<exists>p \<in> set ps. c \<in> set p)"
  unfolding as_posix_def by (induction ps rule: induct_list012) (auto simp: lit_def)

lemma plain_parts:
  assumes "ps \<noteq> []" "\<forall>p \<in> set ps. plain_name p"
  shows "path_root (as_posix ps) = [] \<and> path_parts (as_posix ps) = ps
    \<and> str_replace (lit [CHR 0x5C]) (lit ''/'') (as_posix ps) = as_posix ps"
proof -
  obtain q qs where ps: "ps = q # qs" using assms(1) by (cases ps) auto
  with assms(2) obtain c cs where q: "q = c # cs" "c \<noteq> 47" by (cases q) (auto simp: plain_name_def)
  have "\<exists>r. as_posix ps = c # r" by (cases qs) (simp_all add: ps q as_posix_def)
  with q(2) have root: "path_root (as_posix ps) = []" by (auto simp: path_root_def lit_def)
  have "split_char 47 (as_posix ps) = ps" using assms by (intro split_as_posix) (auto simp: plain_name_def)
  moreover have "filter (\<lambda>p. p \<noteq> [] \<and> p \<noteq> lit ''.'') ps = ps"
    using assms(2) by (auto simp: plain_name_def intro: filter_True)
  ultimately have "path_parts (as_posix ps) = ps" using root by (simp add: path_parts_def path_tail_def)
  moreover have "92 \<notin> set (as_posix ps)" using as_posix_chars [of 92 ps] assms(2) by (auto simp: plain_name_def)
  then have "\<not> str_in (lit [CHR 0x5C]) (as_posix ps)" by (auto simp: str_in_iff lit_def)
  ultimately show ?thesis using root str_replace_absent by blast
qed

section \<open>Properties\<close>

text \<open>
  The archive holds the right files (equivalence).  The pruned walk gives, sorted by their names in
  the archive, exactly the regular files of the tree that are not the archive itself and that the
  exclusion rule admits: pruning directories skips nothing that the rule would let through, and no
  secret environment file, excluded directory or linked file gets in.
\<close>

theorem collect_files_exact:
  "set (collect_files U base excluded) = {p. file_at base p \<and> p \<notin> set excluded \<and> \<not> is_excluded_relative U p}
   \<and> ordered_by as_posix (collect_files U base excluded)"
proof -
  have "\<not> is_excluded_relative U p \<Longrightarrow> \<forall>d \<in> set (butlast p). \<not> excluded_part U d" for p
    by (auto simp: is_excluded_relative_def dest: in_set_butlastD)
  then show ?thesis
    by (auto simp: collect_files_def walk_files ordered_sort_by)
qed

text \<open>
  C30: A built archive passes its own validation (functional).  When the names in the tree are ordinary
  ones (no slash or backslash, not a dot name, no drive letter in front), \<open>build_zip\<close> never reports a
  forbidden entry: it succeeds with the names of the collected files, or reports exactly the required
  files that are missing.
\<close>

theorem build_zip_validates:
  assumes names: "\<And>p. file_at base p \<Longrightarrow> (\<forall>n \<in> set p. plain_name n) \<and> \<not> suffix (lit '':'') (hd p)"
  shows "build_zip U base output_path =
    (let written = map as_posix (collect_files U base output_path);
         missing = sort_by (\<lambda>n. n) (filter (\<lambda>f. f \<notin> set written) REQUIRED_FILES)
     in if missing = [] then Inr written else Inl (Missing missing))"
proof -
  have ok: "\<not> (unsafe_archive_name (as_posix p)
      \<or> is_excluded_relative U (path_parts (str_replace (lit [CHR 0x5C]) (lit ''/'') (as_posix p))))"
    if "p \<in> set (collect_files U base output_path)" for p
  proof -
    from that have p: "file_at base p" "\<not> is_excluded_relative U p"
      by (auto simp: collect_files_def walk_files)
    note plain = plain_parts [OF file_at_nonempty [OF p(1)]]
    with names [OF p(1)] p(2) file_at_nonempty [OF p(1)] show ?thesis
      by (auto simp: unsafe_archive_name_def Let_def plain_name_def)
  qed
  let ?written = "map as_posix (collect_files U base output_path)"
  have "filter (\<lambda>name. unsafe_archive_name name
      \<or> is_excluded_relative U (path_parts (str_replace (lit [CHR 0x5C]) (lit ''/'') name))) ?written = []"
    using ok by (auto simp: filter_empty_conv)
  then show ?thesis unfolding build_zip_def validate_zip_def Let_def by simp
qed

section \<open>An example\<close>

definition file_named :: "string \<Rightarrow> pystr \<times> node" where
  "file_named n = (lit n, File_Node)"

definition dir_named :: "string \<Rightarrow> (pystr \<times> node) list \<Rightarrow> pystr \<times> node" where
  "dir_named n kids = (lit n, Dir_Node kids)"

definition project :: node where
  "project = Dir_Node [file_named ''.env'', dir_named ''.git'' [file_named ''config''],
     dir_named ''app'' [file_named ''main.py'', (lit ''link.py'', Link_Node)]]"

lemma project_files: "file_at project p \<longleftrightarrow> p \<in> {[lit ''.env''], [lit ''.git'', lit ''config''], [lit ''app'', lit ''main.py'']}"
  by (auto simp: project_def file_named_def dir_named_def file_at_dir)

lemma project_plain: "file_at project p \<Longrightarrow> (\<forall>n \<in> set p. plain_name n) \<and> \<not> suffix (lit '':'') (hd p)"
  unfolding project_files by (auto simp: plain_name_def lit_def suffix_def)

lemma project_collected: "collect_files ucd_ru project [] = [[lit ''app'', lit ''main.py'']]"
  by code_simp

theorem build_zip_validates_witness:
  "build_zip ucd_ru project []
     = Inl (Missing (sort_by (\<lambda>n. n) (filter (\<lambda>f. f \<noteq> lit ''app/main.py'') REQUIRED_FILES)))"
proof -
  have path: "as_posix [lit ''app'', lit ''main.py''] = lit ''app/main.py''" by (simp add: as_posix_def lit_def)
  have "filter (\<lambda>f. f \<noteq> lit ''app/main.py'') REQUIRED_FILES \<noteq> []" by (simp add: REQUIRED_FILES_def)
  with build_zip_validates [OF project_plain, where output_path = "[]" and U = ucd_ru] path show ?thesis
    by (simp add: project_collected Let_def)
qed

end
