(* ===== verification/Benchmark.thy ===== *)
theory Benchmark
  imports Domain "HOL-Library.Multiset"
begin

text \<open>
  \<open>scripts/benchmark.py\<close>: the load test that sends mask and demask requests from many threads and
  reconciles its counters.  The replies of the server, the clock readings, the measured latencies and
  the random payload ids of a thread are arguments; a thread is the sequence of the updates it makes on
  the shared counters, each of them atomic under the lock, and the threads interleave in any way.
\<close>

section \<open>Definitions\<close>

definition ORIGINAL :: pystr where
  "ORIGINAL = ru ''Klient Iwanow Iwan Iwanowi^, pasport 4509 123456, INN 7707083893, karta 4111 1111 1111 1111, telefon ''
     @ lit ''+7 999 123-45-67, email test@example.com, '' @ ru ''data rovdeniq 15.03.1990''"

definition MASKED_SENTINELS :: "pystr list" where
  "MASKED_SENTINELS = [lit ''test@example.com'', lit ''+7 999 123-45-67'', lit ''4111 1111 1111 1111'', lit ''7707083893'',
     lit ''4509 123456'', ru ''Iwanow Iwan Iwanowi^'']"

datatype counter =
  total_requests | mask_attempts | demask_attempts | successful_mask | successful_demask
| http_2xx | http_429 | functional_errors | transport_errors

text \<open>\<open>record_latency\<close> and \<open>bump\<close>, each under the lock\<close>

datatype event = Latency rat | Bump counter

record counters =
  co_latencies :: "rat list"
  co_count :: "counter \<Rightarrow> nat"

definition no_counts :: counters where
  "no_counts = \<lparr>co_latencies = [], co_count = (\<lambda>_. 0)\<rparr>"

fun apply_event :: "counters \<Rightarrow> event \<Rightarrow> counters" where
  "apply_event c (Latency ms) = c\<lparr>co_latencies := co_latencies c @ [ms]\<rparr>"
| "apply_event c (Bump k) = c\<lparr>co_count := (co_count c)(k := co_count c k + 1)\<rparr>"

text \<open>
  What a POST comes to: a transport error, or a status with the \<open>Retry-After\<close> header and the JSON
  value of the body, \<open>None\<close> when the body is no JSON.
\<close>

datatype reply = HTTPError | Reply int "pystr option" "pyval option"

text \<open>\<open>_post\<close>: the updates it makes and the string it returns\<close>

definition post :: "rat \<Rightarrow> reply \<Rightarrow> event list \<times> pystr option" where
  "post ms r =
     (case r of
        HTTPError \<Rightarrow> ([Bump transport_errors, Bump total_requests], None)
      | Reply status retry_after body \<Rightarrow>
          let ev = [Latency ms, Bump total_requests] in
          if status = 429
          then (ev @ [Bump http_429] @ (if retry_after = None then [Bump functional_errors] else []), None)
          else if status \<noteq> 200 then (ev @ [Bump functional_errors], None)
          else (case ebind (case body of None \<Rightarrow> Inl ValueError | Some v \<Rightarrow> Inr v) (\<lambda>v. get_item v ''result'') of
                  Inr (VStr result) \<Rightarrow> (ev @ [Bump http_2xx], Some result)
                | _ \<Rightarrow> (ev @ [Bump http_2xx, Bump functional_errors], None)))"

record user_env =
  ue_clock :: "nat \<Rightarrow> rat"
  ue_uuid :: "nat \<Rightarrow> pystr"
  ue_reply :: "nat \<Rightarrow> pystr \<Rightarrow> pystr \<Rightarrow> reply"
  ue_latency :: "nat \<Rightarrow> rat"

text \<open>One turn of the loop of \<open>_run_user\<close>; \<open>n\<close> numbers the requests of the thread.\<close>

definition user_round :: "user_env \<Rightarrow> nat \<Rightarrow> nat \<Rightarrow> event list \<times> nat" where
  "user_round E i n =
     (let payload_id = ue_uuid E i in
      case post (ue_latency E n) (ue_reply E n payload_id ORIGINAL) of
        (ev1, None) \<Rightarrow> (Bump mask_attempts # ev1, n + 1)
      | (ev1, Some masked) \<Rightarrow>
          let ev = Bump mask_attempts # ev1 @ [Bump successful_mask] in
          if filter (\<lambda>sentinel. str_in sentinel masked) MASKED_SENTINELS \<noteq> []
          then (ev @ [Bump functional_errors], n + 1)
          else (case post (ue_latency E (n + 1)) (ue_reply E (n + 1) payload_id masked) of
                  (ev2, None) \<Rightarrow> (ev @ Bump demask_attempts # ev2, n + 2)
                | (ev2, Some demasked) \<Rightarrow>
                    (ev @ Bump demask_attempts # ev2 @ Bump successful_demask
                       # (if demasked \<noteq> ORIGINAL then [Bump functional_errors] else []), n + 2)))"

text \<open>The loop may run for ever: \<open>None\<close> then.  The clock is read once before it and once per turn.\<close>

partial_function (option) user_loop :: "user_env \<Rightarrow> rat \<Rightarrow> nat \<Rightarrow> nat \<Rightarrow> event list option" where
  "user_loop E deadline i n =
     (if ue_clock E (Suc i) < deadline
      then Option.bind (user_loop E deadline (Suc i) (snd (user_round E i n)))
             (\<lambda>evs. Some (fst (user_round E i n) @ evs))
      else Some [])"

definition run_user :: "user_env \<Rightarrow> rat \<Rightarrow> event list option" where
  "run_user E duration = user_loop E (ue_clock E 0 + duration) 0 0"

text \<open>The threads take turns, one update at a time.\<close>

inductive interleaved :: "event list list \<Rightarrow> event list \<Rightarrow> bool" where
  finished: "\<forall>es \<in> set ess. es = [] \<Longrightarrow> interleaved ess []"
| turn: "i < length ess \<Longrightarrow> ess ! i = e # es \<Longrightarrow> interleaved (ess[i := es]) evs \<Longrightarrow> interleaved ess (e # evs)"

definition percentile :: "rat list \<Rightarrow> rat \<Rightarrow> rat" where
  "percentile values p =
     (if values = [] then 0 else sort values ! min (length values - 1) (nat \<lfloor>of_nat (length values) * p\<rfloor>))"

text \<open>The exit code of \<open>main\<close>\<close>

definition exit_code :: "counters \<Rightarrow> int" where
  "exit_code c =
     (if co_count c mask_attempts + co_count c demask_attempts \<noteq> co_count c total_requests then 3
      else if co_count c total_requests = 0 then 2
      else if co_count c functional_errors \<noteq> 0 \<or> co_count c transport_errors \<noteq> 0 then 1
      else if co_count c successful_mask = 0 \<or> co_count c successful_demask = 0 then 1
      else 0)"

section \<open>Interleavings\<close>

lemma sum_mset_update:
  "i < length ess \<Longrightarrow> ess ! i = e # es \<Longrightarrow>
   sum_list (map mset ess) = add_mset e (sum_list (map mset (ess[i := es])))"
proof (induction ess arbitrary: i)
  case (Cons xs ess)
  then show ?case by (cases i) auto
qed simp

lemma interleaved_mset: "interleaved ess evs \<Longrightarrow> mset evs = sum_list (map mset ess)"
proof (induction rule: interleaved.induct)
  case (finished ess)
  then show ?case by (induction ess) auto
next
  case (turn i ess e es evs)
  then show ?case using sum_mset_update [OF turn(1,2)] by simp
qed

lemma count_absent [simp]: "x \<notin> set xs \<Longrightarrow> count (mset xs) x = 0"
  by (simp add: count_eq_zero_iff)

lemma apply_counts: "co_count (foldl apply_event c evs) k = co_count c k + count (mset evs) (Bump k)"
proof (induction evs arbitrary: c)
  case (Cons ev evs)
  then show ?case by (cases ev) auto
qed simp

definition is_latency :: "event \<Rightarrow> bool" where
  "is_latency ev \<longleftrightarrow> (\<forall>k. ev \<noteq> Bump k)"

lemma is_latency_simps [simp]: "is_latency (Latency ms)" "\<not> is_latency (Bump k)"
  by (simp_all add: is_latency_def)

lemma apply_latencies:
  "length (co_latencies (foldl apply_event c evs)) = length (co_latencies c) + size (filter_mset is_latency (mset evs))"
proof (induction evs arbitrary: c)
  case (Cons ev evs)
  then show ?case by (cases ev) auto
qed simp

section \<open>The balance of the counters\<close>

text \<open>What the updates of every finished turn satisfy\<close>

definition balanced :: "event multiset \<Rightarrow> bool" where
  "balanced M \<longleftrightarrow>
     count M (Bump total_requests) = count M (Bump mask_attempts) + count M (Bump demask_attempts)
   \<and> count M (Bump successful_mask) \<le> count M (Bump mask_attempts)
   \<and> count M (Bump demask_attempts) \<le> count M (Bump successful_mask)
   \<and> count M (Bump successful_demask) \<le> count M (Bump demask_attempts)
   \<and> count M (Bump total_requests) = count M (Bump transport_errors) + size (filter_mset is_latency M)
   \<and> count M (Bump successful_mask) + count M (Bump successful_demask) \<le> count M (Bump http_2xx)
   \<and> count M (Bump http_2xx) + count M (Bump http_429) \<le> size (filter_mset is_latency M)"

lemma balanced_empty [simp]: "balanced {#}"
  by (simp add: balanced_def)

lemma balanced_union: "balanced M \<Longrightarrow> balanced N \<Longrightarrow> balanced (M + N)"
  by (simp add: balanced_def)

lemma balanced_sum: "\<forall>M \<in> set Ms. balanced M \<Longrightarrow> balanced (sum_list Ms)"
  by (induction Ms) (auto intro: balanced_union)

text \<open>The updates of one POST\<close>

lemma post_events:
  "post ms r = (ev, res) \<Longrightarrow>
     count (mset ev) (Bump total_requests) = 1
   \<and> count (mset ev) (Bump transport_errors) + size (filter_mset is_latency (mset ev)) = 1
   \<and> count (mset ev) (Bump http_2xx) + count (mset ev) (Bump http_429) \<le> size (filter_mset is_latency (mset ev))
   \<and> (res \<noteq> None \<longrightarrow> Bump http_2xx \<in> set ev \<and> (\<exists>j. count (mset ev) (Bump http_2xx) = Suc j))
   \<and> (\<forall>k \<in> {mask_attempts, demask_attempts, successful_mask, successful_demask}. count (mset ev) (Bump k) = 0)"
  by (auto simp: post_def Let_def split: reply.splits if_splits sum.splits pyval.splits)

lemma round_balanced: "balanced (mset (fst (user_round E i n)))"
proof -
  obtain ev1 res1 where 1: "post (ue_latency E n) (ue_reply E n (ue_uuid E i) ORIGINAL) = (ev1, res1)"
    by (metis prod.exhaust)
  note p1 = post_events [OF 1]
  show ?thesis
  proof (cases res1)
    case None
    with 1 p1 show ?thesis by (auto simp: user_round_def balanced_def)
  next
    case (Some masked)
    obtain ev2 res2 where 2: "post (ue_latency E (n + 1)) (ue_reply E (n + 1) (ue_uuid E i) masked) = (ev2, res2)"
      by (metis prod.exhaust)
    note p2 = post_events [OF 2]
    show ?thesis
    proof (cases res2)
      case None
      with 1 2 p1 p2 Some show ?thesis by (auto simp: user_round_def balanced_def Let_def)
    next
      case (Some demasked)
      with 1 2 p1 p2 \<open>res1 = Some masked\<close> show ?thesis by (auto simp: user_round_def balanced_def Let_def)
    qed
  qed
qed

lemma loop_balanced:
  assumes "user_loop E d i n = Some evs"
  shows "balanced (mset evs)"
proof (rule user_loop.raw_induct [OF _ assms, where P = "\<lambda>E d i n evs. balanced (mset evs)"], goal_cases)
  case (1 f E d i n evs)
  show ?case
  proof (cases "ue_clock E (Suc i) < d")
    case False
    with "1"(2) show ?thesis by simp
  next
    case True
    with "1"(2) obtain evs' where evs: "f E d (Suc i) (snd (user_round E i n)) = Some evs'"
      "evs = fst (user_round E i n) @ evs'" by (auto simp: bind_eq_Some_conv)
    from "1"(1) [OF evs(1)] have "balanced (mset evs')" .
    with round_balanced show ?thesis by (simp add: evs(2) balanced_union)
  qed
qed

section \<open>Properties\<close>

text \<open>
  C32: The counters reconcile (invariant).  Whatever the server replies, whatever the clocks say and
  however the threads interleave, once all threads are done every request was a mask or a demask
  attempt, only successful masks are demasked, every request that did not fail in transport has a
  latency, and the successful operations are among the 2xx replies: the exit code for a counter
  mismatch is never returned.
\<close>

theorem benchmark_reconciles:
  assumes "list_all2 (\<lambda>E es. run_user E duration = Some es) Es ess" and "interleaved ess evs"
  defines "c \<equiv> foldl apply_event no_counts evs"
  shows "co_count c total_requests = co_count c mask_attempts + co_count c demask_attempts
     \<and> co_count c successful_demask \<le> co_count c demask_attempts
     \<and> co_count c demask_attempts \<le> co_count c successful_mask
     \<and> co_count c successful_mask \<le> co_count c mask_attempts
     \<and> length (co_latencies c) + co_count c transport_errors = co_count c total_requests
     \<and> co_count c successful_mask + co_count c successful_demask \<le> co_count c http_2xx
     \<and> exit_code c \<noteq> 3"
proof -
  have "\<forall>es \<in> set ess. balanced (mset es)"
    using assms(1) loop_balanced by (fastforce simp: list_all2_conv_all_nth in_set_conv_nth run_user_def)
  then have "balanced (mset evs)"
    using interleaved_mset [OF assms(2)] balanced_sum [of "map mset ess"] by simp
  then show ?thesis
    unfolding c_def balanced_def exit_code_def by (simp add: apply_counts apply_latencies no_counts_def)
qed

lemma loop_stops:
  assumes "user_loop E d i n = Some evs"
  shows "\<exists>k. d \<le> ue_clock E (Suc (i + k))"
proof (rule user_loop.raw_induct [OF _ assms, where P = "\<lambda>E d i n evs. \<exists>k. d \<le> ue_clock E (Suc (i + k))"], goal_cases)
  case (1 f E d i n evs)
  show ?case
  proof (cases "ue_clock E (Suc i) < d")
    case False
    then have "d \<le> ue_clock E (Suc (i + 0))" by simp
    then show ?thesis by blast
  next
    case True
    with "1"(2) obtain evs' where "f E d (Suc i) (snd (user_round E i n)) = Some evs'"
      by (auto simp: bind_eq_Some_conv)
    from "1"(1) [OF this] obtain k where "d \<le> ue_clock E (Suc (Suc i + k))" by blast
    then have "d \<le> ue_clock E (Suc (i + Suc k))" by simp
    then show ?thesis by blast
  qed
qed

lemma loop_returns: "d \<le> ue_clock E (Suc (i + k)) \<Longrightarrow> \<exists>evs. user_loop E d i n = Some evs"
proof (induction k arbitrary: i n)
  case 0
  then have "\<not> ue_clock E (Suc i) < d" by simp
  then show ?case by (subst user_loop.simps) simp
next
  case (Suc k)
  from Suc.IH [of "Suc i" "snd (user_round E i n)"] Suc.prems obtain evs where
    "user_loop E d (Suc i) (snd (user_round E i n)) = Some evs" by auto
  then show ?case by (subst user_loop.simps) simp
qed

text \<open>
  C33: A thread ends when the clock says so (termination).  The loop of a thread returns exactly when
  some reading of the clock after the first reaches the start plus the duration; it never ends while
  all readings stay below.
\<close>

theorem user_loop_terminates:
  "(\<exists>evs. run_user E duration = Some evs) \<longleftrightarrow> (\<exists>k. ue_clock E 0 + duration \<le> ue_clock E (Suc k))"
  using loop_stops [of E _ 0] loop_returns [of _ E 0] by (fastforce simp: run_user_def)

section \<open>Percentiles and an example\<close>

text \<open>A percentile is one of the values, and at most the given share of them lies below it.\<close>

lemma below_nth:
  fixes xs :: "rat list"
  assumes "i < length xs"
  shows "length (filter (\<lambda>v. v < sort xs ! i) xs) \<le> i"
proof -
  let ?P = "\<lambda>v. v < sort xs ! i"
  have "\<not> ?P x" if "x \<in> set (drop i (sort xs))" for x
  proof -
    from that obtain k where "k < length (sort xs) - i" "x = sort xs ! (i + k)" by (auto simp: in_set_conv_nth)
    then show ?thesis using sorted_nth_mono [OF sorted_sort, of i "i + k" xs] by (simp add: not_less)
  qed
  then have "filter ?P (drop i (sort xs)) = []" unfolding filter_empty_conv by blast
  then have "filter ?P (sort xs) = filter ?P (take i (sort xs))"
    using filter_append [of ?P "take i (sort xs)" "drop i (sort xs)"] by (simp only: append_take_drop_id append_Nil2)
  then have "length (filter ?P (sort xs)) \<le> i"
    using length_filter_le [of ?P "take i (sort xs)"] by simp
  moreover have "length (filter ?P (sort xs)) = length (filter ?P xs)"
    using arg_cong [OF filter_sort [of ?P "\<lambda>x. x" xs], of length] by simp
  ultimately show ?thesis by simp
qed

lemma percentile_rank:
  assumes "vs \<noteq> []" and "0 \<le> p"
  shows "percentile vs p \<in> set vs
    \<and> of_nat (length (filter (\<lambda>v. v < percentile vs p) vs)) \<le> of_nat (length vs) * p"
proof -
  define i where "i = min (length vs - 1) (nat \<lfloor>of_nat (length vs) * p\<rfloor>)"
  have i: "i < length vs" using assms(1) by (cases vs) (auto simp: i_def)
  have v: "percentile vs p = sort vs ! i" using assms(1) by (simp add: percentile_def i_def)
  have "percentile vs p \<in> set vs" using v i nth_mem [of i "sort vs"] by simp
  moreover have "(of_nat (length (filter (\<lambda>v. v < percentile vs p) vs)) :: rat) \<le> of_nat i"
    unfolding v using below_nth [OF i] by simp
  moreover have "(of_nat i :: rat) \<le> of_nat (nat \<lfloor>of_nat (length vs) * p\<rfloor>)" by (simp add: i_def)
  moreover have "(of_nat (nat \<lfloor>of_nat (length vs) * p\<rfloor>) :: rat) \<le> of_nat (length vs) * p"
    using assms(2) by (simp add: of_nat_nat)
  ultimately show ?thesis by (meson order_trans)
qed

text \<open>Two threads that end after one turn: one is limited, the other fails in transport.\<close>

definition short_user :: "reply \<Rightarrow> user_env" where
  "short_user r = \<lparr>ue_clock = of_nat, ue_uuid = \<lambda>_. [], ue_reply = \<lambda>_ _ _. r, ue_latency = \<lambda>_. 1\<rparr>"

lemma short_run:
  "run_user (short_user (Reply 429 (Some []) None)) 2 = Some [Bump mask_attempts, Latency 1, Bump total_requests, Bump http_429]"
  "run_user (short_user HTTPError) 2 = Some [Bump mask_attempts, Bump transport_errors, Bump total_requests]"
  by (simp_all add: run_user_def short_user_def user_loop.simps user_round_def post_def)

theorem benchmark_reconciles_witness:
  "let c = foldl apply_event no_counts [Bump mask_attempts, Bump mask_attempts, Latency 1, Bump transport_errors,
     Bump total_requests, Bump total_requests, Bump http_429]
   in co_count c total_requests = 2 \<and> length (co_latencies c) = 1 \<and> exit_code c = 1"
proof -
  let ?evs = "[Bump mask_attempts, Bump mask_attempts, Latency 1, Bump transport_errors,
     Bump total_requests, Bump total_requests, Bump http_429]"
  let ?ess = "[[Bump mask_attempts, Latency 1, Bump total_requests, Bump http_429],
     [Bump mask_attempts, Bump transport_errors, Bump total_requests]]"
  have runs: "list_all2 (\<lambda>E es. run_user E 2 = Some es) [short_user (Reply 429 (Some []) None), short_user HTTPError] ?ess"
    by (simp add: short_run)
  have turns: "interleaved ?ess ?evs"
    by (rule turn [where i = 0], simp, simp, rule turn [where i = 1], simp, simp, rule turn [where i = 0], simp, simp,
        rule turn [where i = 1], simp, simp, rule turn [where i = 0], simp, simp, rule turn [where i = 1], simp, simp,
        rule turn [where i = 0], simp, simp, rule finished) simp
  show ?thesis using benchmark_reconciles [OF runs turns]
    by (simp add: Let_def exit_code_def no_counts_def)
qed

end
