(* ===== verification/PyFloat.thy ===== *)
theory PyFloat
  imports Validators Doubles
begin

text \<open>
  The floats that the performance runner reads from text and compares: a finite value, the two infinities
  and the value that is no number.  Values read from text, products and quotients are rounded to doubles.
  Comparisons with the value that is no number are false, as in Python, so a test written as a rejection
  lets it pass.
\<close>

datatype flt = Fin rat | Infty bool | NaN

text \<open>An exact result as a float: rounded, and infinite from \<open>2 ^ 1024\<close> on\<close>

definition flt_round :: "rat \<Rightarrow> flt" where
  "flt_round x = (let y = fl x in if y \<noteq> 0 \<and> 1024 \<le> binary_exponent \<bar>y\<bar> then Infty (y < 0) else Fin y)"

text \<open>\<open>Infty True\<close> is the negative infinity.  The operators of Python on floats that the code uses:\<close>

fun flt_less :: "flt \<Rightarrow> flt \<Rightarrow> bool" where
  "flt_less (Fin a) (Fin b) = (a < b)"
| "flt_less (Fin a) (Infty neg) = (\<not> neg)"
| "flt_less (Infty neg) (Fin b) = neg"
| "flt_less (Infty neg) (Infty neg') = (neg \<and> \<not> neg')"
| "flt_less _ _ = False"

definition flt_eq :: "flt \<Rightarrow> flt \<Rightarrow> bool" where
  "flt_eq x y = (x = y \<and> x \<noteq> NaN)"

definition flt_le :: "flt \<Rightarrow> flt \<Rightarrow> bool" where
  "flt_le x y = (flt_less x y \<or> flt_eq x y)"

text \<open>\<open>max(a, b)\<close> keeps its first argument unless the second is greater, \<open>min(a, b)\<close> unless it is less.\<close>

definition flt_max :: "flt \<Rightarrow> flt \<Rightarrow> flt" where
  "flt_max a b = (if flt_less a b then b else a)"

definition flt_min :: "flt \<Rightarrow> flt \<Rightarrow> flt" where
  "flt_min a b = (if flt_less b a then b else a)"

text \<open>\<open>bool(x)\<close> is \<open>x != 0.0\<close>.\<close>

definition flt_true :: "flt \<Rightarrow> bool" where
  "flt_true x = (x \<noteq> Fin 0)"

text \<open>\<open>x / y\<close> for a \<open>y\<close> that is not zero, and \<open>x * y\<close>\<close>

fun flt_div :: "flt \<Rightarrow> flt \<Rightarrow> flt" where
  "flt_div (Fin a) (Fin b) = flt_round (a / b)"
| "flt_div (Fin a) (Infty neg) = Fin 0"
| "flt_div (Infty neg) (Fin b) = Infty (neg \<noteq> (b < 0))"
| "flt_div _ _ = NaN"

fun flt_mult :: "flt \<Rightarrow> flt \<Rightarrow> flt" where
  "flt_mult (Fin a) (Fin b) = flt_round (a * b)"
| "flt_mult (Fin a) (Infty neg) = (if a = 0 then NaN else Infty (neg \<noteq> (a < 0)))"
| "flt_mult (Infty neg) (Fin b) = (if b = 0 then NaN else Infty (neg \<noteq> (b < 0)))"
| "flt_mult (Infty neg) (Infty neg') = Infty (neg \<noteq> neg')"
| "flt_mult _ _ = NaN"

text \<open>\<open>int(x)\<close> truncates towards zero and \<open>math.ceil(x)\<close> rounds up; neither exists for the others.\<close>

definition rat_trunc :: "rat \<Rightarrow> int" where
  "rat_trunc a = (if 0 \<le> a then \<lfloor>a\<rfloor> else \<lceil>a\<rceil>)"

fun flt_int :: "flt \<Rightarrow> exn + int" where
  "flt_int (Fin a) = Inr (rat_trunc a)"
| "flt_int (Infty neg) = Inl OverflowError"
| "flt_int NaN = Inl ValueError"

fun flt_ceil :: "flt \<Rightarrow> exn + int" where
  "flt_ceil (Fin a) = Inr \<lceil>a\<rceil>"
| "flt_ceil (Infty neg) = Inl OverflowError"
| "flt_ceil NaN = Inl ValueError"

text \<open>
  \<open>float(s)\<close>: blanks around it, a sign, then \<open>inf\<close>, \<open>infinity\<close> or \<open>nan\<close> in any case, or decimal
  digits (with single underscores between them) around a point, and an exponent.
\<close>

definition take_sign :: "pystr \<Rightarrow> bool \<times> pystr" where
  "take_sign s =
     (case s of c # r \<Rightarrow> if c = 45 then (True, r) else if c = 43 then (False, r) else (False, s)
      | [] \<Rightarrow> (False, s))"

definition part_digits :: "ucd \<Rightarrow> pystr \<Rightarrow> nat list option" where
  "part_digits U s = (if s = [] then Some [] else int_digits U s)"

definition nat_of_digits :: "nat list \<Rightarrow> nat" where
  "nat_of_digits ds = foldl (\<lambda>n d. 10 * n + d) 0 ds"

definition exponent :: "ucd \<Rightarrow> pystr \<Rightarrow> int option" where
  "exponent U s =
     (case s of [] \<Rightarrow> Some 0
      | _ # r \<Rightarrow> (case take_sign r of (neg, ds) \<Rightarrow>
          map_option (\<lambda>ds. if neg then - int (nat_of_digits ds) else int (nat_of_digits ds)) (int_digits U ds)))"

definition decimal_value :: "ucd \<Rightarrow> pystr \<Rightarrow> rat option" where
  "decimal_value U s =
     (let is_e = (\<lambda>c. c = 101 \<or> c = 69);
          mantissa = takeWhile (\<lambda>c. \<not> is_e c) s;
          (whole, point, frac) = str_partition 46 mantissa
      in case (part_digits U whole, part_digits U frac, exponent U (dropWhile (\<lambda>c. \<not> is_e c) s)) of
           (Some w, Some f, Some e) \<Rightarrow>
             if w = [] \<and> f = [] then None
             else let n = of_nat (nat_of_digits (w @ f)); k = e - int (length f)
                  in Some (if k \<ge> 0 then n * 10 ^ nat k else n / 10 ^ nat (- k))
         | _ \<Rightarrow> None)"

definition py_float :: "ucd \<Rightarrow> pystr \<Rightarrow> exn + flt" where
  "py_float U s =
     (case take_sign (str_strip U s) of (neg, body) \<Rightarrow>
        let low = map ascii_lower body in
        if low = lit ''inf'' \<or> low = lit ''infinity'' then Inr (Infty neg)
        else if low = lit ''nan'' then Inr NaN
        else (case decimal_value U body of None \<Rightarrow> Inl ValueError
              | Some q \<Rightarrow> Inr (flt_round (if neg then - q else q))))"

lemma flt_round_below:
  assumes "\<bar>x\<bar> \<le> 2 powi 1022"
  shows "flt_round x = Fin (fl x)"
proof -
  have "\<bar>fl x - x\<bar> \<le> 2 powi 969" using fl_abs [OF assms] by simp
  moreover have "(2::rat) powi 969 < 2 powi 1022" by (rule two_powi_strict) simp
  moreover have "(2::rat) powi 1023 = 2 * 2 powi 1022" using power_int_add [of "2 :: rat" 1 1022] by simp
  ultimately have less: "\<bar>fl x\<bar> < 2 powi 1023" using assms by linarith
  have "\<not> 1024 \<le> binary_exponent \<bar>fl x\<bar>" if "fl x \<noteq> 0"
    using binary_exponent_bounds(1) [of "\<bar>fl x\<bar>"] two_powi_mono [of 1023 "binary_exponent \<bar>fl x\<bar>"] less that by linarith
  then show ?thesis by (auto simp: flt_round_def Let_def)
qed

lemma flt_less_irrefl [simp]: "\<not> flt_less x x"
  by (cases x) auto

lemma flt_less_NaN [simp]: "\<not> flt_less NaN x" "\<not> flt_less x NaN"
  by (cases x; simp)+

lemma flt_less_trans: "flt_less x y \<Longrightarrow> flt_less y z \<Longrightarrow> flt_less x z"
  by (cases x; cases y; cases z) auto

lemma flt_not_less_trans: "\<not> flt_less z y \<Longrightarrow> \<not> flt_less y x \<Longrightarrow> y \<noteq> NaN \<Longrightarrow> \<not> flt_less z x"
  by (cases x; cases y; cases z) auto

lemma flt_not_less: "x \<noteq> NaN \<Longrightarrow> y \<noteq> NaN \<Longrightarrow> \<not> flt_less x y \<longleftrightarrow> flt_le y x"
  by (cases x; cases y) (auto simp: flt_le_def flt_eq_def)

lemma flt_le_Fin [simp]: "flt_le (Fin a) (Fin b) \<longleftrightarrow> a \<le> b"
  by (auto simp: flt_le_def flt_eq_def)

lemma flt_max_not_NaN: "a \<noteq> NaN \<Longrightarrow> flt_max a b \<noteq> NaN"
  by (auto simp: flt_max_def)

end
