(* ===== verification/PerfGate.thy ===== *)
theory PerfGate
  imports PyFloat
begin

text \<open>
  The verdict of \<open>scripts/run_performance.py\<close> on one load-test run: the rows of the statistics files,
  the custom counters and \<open>build_result\<close>, which collects the violations and passes a run when there is
  none.  Violations are kept as data, one constructor per message of the code with the values printed in it.
  A file is its parsed content, or \<open>None\<close> when it does not exist.
\<close>

section \<open>Reading the statistics\<close>

text \<open>A row of \<open>csv.DictReader\<close>: a field missing at the end of the line has the value \<open>None\<close>.\<close>

type_synonym csv_row = "(pystr \<times> pystr option) list"

text \<open>\<open>_number\<close>: an absent key, \<open>None\<close> and the empty string all give \<open>0.0\<close>.\<close>

definition number_of :: "ucd \<Rightarrow> csv_row \<Rightarrow> string \<Rightarrow> exn + flt" where
  "number_of U row key =
     (case map_of row (lit key) of
        Some (Some value) \<Rightarrow> if value \<noteq> [] then py_float U value else Inr (Fin 0)
      | _ \<Rightarrow> Inr (Fin 0))"

definition aggregated :: "csv_row \<Rightarrow> bool" where
  "aggregated row = (map_of row (lit ''Name'') = Some (Some (lit ''Aggregated'')))"

definition read_aggregate :: "csv_row list \<Rightarrow> exn + csv_row" where
  "read_aggregate rows =
     (case find aggregated rows of Some row \<Rightarrow> Inr row
      | None \<Rightarrow> Inl (RuntimeError (lit ''Aggregated row not found'')))"

definition read_authoritative_aggregate :: "csv_row list option \<Rightarrow> exn + csv_row" where
  "read_authoritative_aggregate final_stats =
     (case final_stats of None \<Rightarrow> Inl (RuntimeError (lit ''authoritative final_stats.csv missing''))
      | Some rows \<Rightarrow> read_aggregate rows)"

definition empty_aggregate :: csv_row where
  "empty_aggregate = map (\<lambda>k. (lit k, Some (lit ''0'')))
     [''Request Count'', ''Failure Count'', ''Requests/s'', ''Average Response Time'', ''50%'', ''95%'', ''99%'']"

text \<open>
  \<open>read_history_metrics\<close>: \<open>row.get(key, "0") or 0\<close> is read as a float, a row that does not parse is
  skipped, and the maxima start at \<open>0.0\<close>.
\<close>

definition history_step :: "ucd \<Rightarrow> flt \<times> flt \<Rightarrow> csv_row \<Rightarrow> flt \<times> flt" where
  "history_step U acc row =
     (if \<not> aggregated row then acc
      else case (number_of U row ''User Count'', number_of U row ''Requests/s'') of
             (Inr users, Inr rps) \<Rightarrow> (flt_max (fst acc) users, flt_max (snd acc) rps)
           | _ \<Rightarrow> acc)"

definition read_history_metrics :: "ucd \<Rightarrow> csv_row list option \<Rightarrow> flt \<times> flt" where
  "read_history_metrics U history =
     (case history of None \<Rightarrow> (Fin 0, Fin 0) | Some rows \<Rightarrow> foldl (history_step U) (Fin 0, Fin 0) rows)"

text \<open>
  \<open>read_custom_metrics\<close>: the JSON value of the file, \<open>None\<close> when the file is absent or does not parse.
  A Python boolean is an integer, so it is kept as one.
\<close>

fun int_entry :: "pyval \<times> pyval \<Rightarrow> (pystr \<times> int) option" where
  "int_entry (VStr k, VInt n) = Some (k, n)"
| "int_entry (VStr k, VBool b) = Some (k, of_bool b)"
| "int_entry _ = None"

definition read_custom_metrics :: "pyval option \<Rightarrow> (pystr \<times> int) list option" where
  "read_custom_metrics content =
     (case content of Some (VDict d) \<Rightarrow> Some (List.map_filter int_entry d) | _ \<Rightarrow> None)"

section \<open>The verdict\<close>

datatype gate_violation =
  Locust_Exit_Code int
| Error_Rate flt flt
| P95_Latency flt flt
| P99_Latency flt flt
| Achieved_Ratio flt flt
| Metrics_Missing
| Keys_Missing "pystr list"
| Http_Total_Mismatch int int
| Mask_Demask_Mismatch int int
| Failure_Mismatch int int
| No_Success
| No_Mask
| Roundtrip_Empty
| Roundtrip_Mismatch int int int
| Roundtrip_Incomplete int flt int
| Max_Users flt int
| Peak_Rps flt flt flt
| Connections_Unavailable
| Peak_Connections flt int
| Duration_Unstable int int
| Elapsed_Short flt flt

text \<open>The keyword arguments of \<open>build_result\<close>\<close>

record gate =
  ga_target_rps :: flt
  ga_users :: int
  ga_duration_seconds :: int
  ga_locust_exit_code :: int
  ga_max_error_rate :: flt
  ga_max_p95_ms :: flt
  ga_max_p99_ms :: flt
  ga_min_achieved_ratio :: flt
  ga_scenario :: pystr
  ga_custom_metrics :: "(pystr \<times> int) list option"
  ga_cpu_percent :: "flt option"
  ga_memory_mb :: "flt option"
  ga_peak_cpu_percent :: "flt option"
  ga_peak_memory_mb :: "flt option"
  ga_cpu_measured :: bool
  ga_memory_measured :: bool
  ga_connections_measured :: bool
  ga_observed_peak_connections :: "flt option"
  ga_required_concurrent_connections :: int
  ga_min_duration_for_stable :: int
  ga_observed_max_users :: flt
  ga_observed_peak_rps :: flt
  ga_target_peak_rps :: flt
  ga_required_concurrent_users :: int
  ga_min_peak_ratio :: flt
  ga_max_incomplete_ratio :: flt
  ga_measured_duration :: "flt option"
  ga_min_elapsed_duration :: flt

record step_result =
  sr_target_rps :: flt
  sr_achieved_rps :: flt
  sr_achieved_ratio :: flt
  sr_requests :: int
  sr_failures :: int
  sr_error_rate_percent :: flt
  sr_avg_ms :: flt
  sr_p50_ms :: flt
  sr_p95_ms :: flt
  sr_p99_ms :: flt
  sr_users :: int
  sr_observed_max_users :: flt
  sr_observed_peak_rps :: flt
  sr_target_peak_rps :: flt
  sr_duration_seconds :: int
  sr_measured_duration :: "flt option"
  sr_mask_requests :: int
  sr_demask_requests :: int
  sr_incomplete_roundtrips :: int
  sr_incomplete_ratio :: flt
  sr_http_2xx :: int
  sr_http_429 :: int
  sr_http_422 :: int
  sr_http_other :: int
  sr_functional_errors :: int
  sr_transport_errors :: int
  sr_custom_metrics_present :: bool
  sr_cpu_measured :: bool
  sr_memory_measured :: bool
  sr_cpu_percent :: "flt option"
  sr_memory_mb :: "flt option"
  sr_peak_cpu_percent :: "flt option"
  sr_peak_memory_mb :: "flt option"
  sr_connections_measured :: bool
  sr_observed_peak_connections :: "flt option"
  sr_locust_exit_code :: int
  sr_passed :: bool
  sr_violations :: "gate_violation list"

text \<open>\<open>if b: violations.append(v)\<close>\<close>

definition flag :: "bool \<Rightarrow> 'a \<Rightarrow> 'a list" where
  "flag b v = (if b then [v] else [])"

definition metric :: "(pystr \<times> int) list \<Rightarrow> string \<Rightarrow> int" where
  "metric d k = (case map_of d (lit k) of None \<Rightarrow> 0 | Some n \<Rightarrow> n)"

text \<open>\<open>a / b\<close> on integers is rounded once.  (A quotient beyond the floats, which Python refuses, is infinite.)\<close>

definition int_ratio :: "int \<Rightarrow> int \<Rightarrow> flt" where
  "int_ratio a b = flt_round (of_int a / of_int b)"

definition required_keys :: "pystr \<Rightarrow> pystr list" where
  "required_keys scenario = map lit ([''http_2xx'', ''http_429'', ''http_422'', ''http_other'', ''transport_errors'',
       ''mask_requests'', ''demask_requests'', ''functional_errors'']
     @ (if scenario = lit ''roundtrip'' then [''incomplete_roundtrips''] else []))"

text \<open>The reconciliation of the custom counters with the statistics\<close>

definition metrics_violations :: "gate \<Rightarrow> int \<Rightarrow> int \<Rightarrow> (pystr \<times> int) list \<Rightarrow> gate_violation list" where
  "metrics_violations g requests failures d =
     (let missing = filter (\<lambda>key. key \<notin> fst ` set d) (required_keys (ga_scenario g));
          total_http = metric d ''http_2xx'' + metric d ''http_429'' + metric d ''http_422'' + metric d ''http_other''
            + metric d ''transport_errors'';
          mask_demask = metric d ''mask_requests'' + metric d ''demask_requests'';
          custom_errors = metric d ''functional_errors'' + metric d ''transport_errors'';
          mask_count = metric d ''mask_requests'';
          demask_count = metric d ''demask_requests'';
          incomplete = metric d ''incomplete_roundtrips''
      in flag (missing \<noteq> []) (Keys_Missing missing)
       @ flag (requests \<noteq> 0 \<and> total_http \<noteq> requests) (Http_Total_Mismatch total_http requests)
       @ flag (mask_demask \<noteq> metric d ''http_2xx'') (Mask_Demask_Mismatch mask_demask (metric d ''http_2xx''))
       @ flag (failures \<noteq> custom_errors) (Failure_Mismatch failures custom_errors)
       @ flag (metric d ''http_2xx'' \<le> 0) No_Success
       @ flag (metric d ''mask_requests'' \<le> 0) No_Mask
       @ (if ga_scenario g = lit ''roundtrip''
          then (if mask_count = 0 \<and> demask_count = 0 then [Roundtrip_Empty]
                else flag (mask_count \<noteq> demask_count + incomplete)
                       (Roundtrip_Mismatch mask_count demask_count incomplete))
             @ flag (mask_count \<noteq> 0 \<and> flt_less (ga_max_incomplete_ratio g) (int_ratio incomplete mask_count))
                 (Roundtrip_Incomplete incomplete (ga_max_incomplete_ratio g) mask_count)
          else []))"

text \<open>The gates on concurrency, peak, connections and duration\<close>

definition load_violations :: "gate \<Rightarrow> gate_violation list" where
  "load_violations g =
     flag (ga_required_concurrent_users g \<noteq> 0
         \<and> flt_less (ga_observed_max_users g) (Fin (of_int (ga_required_concurrent_users g))))
       (Max_Users (ga_observed_max_users g) (ga_required_concurrent_users g))
   @ flag (flt_true (ga_target_peak_rps g) \<and> flt_true (ga_min_peak_ratio g)
         \<and> flt_less (ga_observed_peak_rps g) (flt_mult (ga_target_peak_rps g) (ga_min_peak_ratio g)))
       (Peak_Rps (ga_observed_peak_rps g) (ga_target_peak_rps g) (ga_min_peak_ratio g))
   @ (if ga_required_concurrent_connections g \<noteq> 0
      then (case ga_observed_peak_connections g of
              None \<Rightarrow> [Connections_Unavailable]
            | Some peak \<Rightarrow>
                if \<not> ga_connections_measured g then [Connections_Unavailable]
                else flag (flt_less peak (Fin (of_int (ga_required_concurrent_connections g))))
                       (Peak_Connections peak (ga_required_concurrent_connections g)))
      else [])
   @ flag (ga_duration_seconds g < ga_min_duration_for_stable g)
       (Duration_Unstable (ga_duration_seconds g) (ga_min_duration_for_stable g))
   @ (case ga_measured_duration g of
        None \<Rightarrow> []
      | Some measured \<Rightarrow>
          flag (flt_true (ga_min_elapsed_duration g) \<and> flt_less measured (ga_min_elapsed_duration g))
            (Elapsed_Short measured (ga_min_elapsed_duration g)))"

definition build_result :: "ucd \<Rightarrow> csv_row \<Rightarrow> gate \<Rightarrow> exn + step_result" where
  "build_result U row g =
     (let custom_metrics = (case ga_custom_metrics g of None \<Rightarrow> [] | Some d \<Rightarrow> d) in
      ebind (ebind (number_of U row ''Request Count'') flt_int) (\<lambda>requests.
      ebind (ebind (number_of U row ''Failure Count'') flt_int) (\<lambda>failures.
      ebind (case ga_measured_duration g of
               Some measured \<Rightarrow>
                 if flt_less (Fin 0) measured then Inr (flt_div (Fin (of_int requests)) measured)
                 else number_of U row ''Requests/s''
             | None \<Rightarrow> number_of U row ''Requests/s'') (\<lambda>achieved_rps.
      let error_rate = (if requests \<noteq> 0 then flt_mult (int_ratio failures requests) (Fin 100) else Fin 100);
          ratio = (if flt_true (ga_target_rps g) then flt_div achieved_rps (ga_target_rps g) else Fin 0)
      in
      ebind (number_of U row ''Average Response Time'') (\<lambda>avg.
      ebind (number_of U row ''50%'') (\<lambda>p50.
      ebind (number_of U row ''95%'') (\<lambda>p95.
      ebind (number_of U row ''99%'') (\<lambda>p99.
      let violations =
            flag (ga_locust_exit_code g \<noteq> 0) (Locust_Exit_Code (ga_locust_exit_code g))
          @ flag (flt_less (ga_max_error_rate g) error_rate) (Error_Rate error_rate (ga_max_error_rate g))
          @ flag (flt_less (ga_max_p95_ms g) p95) (P95_Latency p95 (ga_max_p95_ms g))
          @ flag (flt_less (ga_max_p99_ms g) p99) (P99_Latency p99 (ga_max_p99_ms g))
          @ flag (flt_less ratio (ga_min_achieved_ratio g)) (Achieved_Ratio ratio (ga_min_achieved_ratio g))
          @ (case ga_custom_metrics g of None \<Rightarrow> [Metrics_Missing]
             | Some d \<Rightarrow> metrics_violations g requests failures d)
          @ load_violations g;
          incomplete = metric custom_metrics ''incomplete_roundtrips'';
          mask_count = metric custom_metrics ''mask_requests'';
          incomplete_ratio = (if mask_count \<noteq> 0 then int_ratio incomplete mask_count else Fin 0)
      in Inr
        \<lparr>sr_target_rps = ga_target_rps g, sr_achieved_rps = achieved_rps, sr_achieved_ratio = ratio,
         sr_requests = requests, sr_failures = failures, sr_error_rate_percent = error_rate, sr_avg_ms = avg,
         sr_p50_ms = p50, sr_p95_ms = p95, sr_p99_ms = p99, sr_users = ga_users g,
         sr_observed_max_users = ga_observed_max_users g, sr_observed_peak_rps = ga_observed_peak_rps g,
         sr_target_peak_rps = ga_target_peak_rps g, sr_duration_seconds = ga_duration_seconds g,
         sr_measured_duration = ga_measured_duration g, sr_mask_requests = metric custom_metrics ''mask_requests'',
         sr_demask_requests = metric custom_metrics ''demask_requests'', sr_incomplete_roundtrips = incomplete,
         sr_incomplete_ratio = incomplete_ratio, sr_http_2xx = metric custom_metrics ''http_2xx'',
         sr_http_429 = metric custom_metrics ''http_429'', sr_http_422 = metric custom_metrics ''http_422'',
         sr_http_other = metric custom_metrics ''http_other'',
         sr_functional_errors = metric custom_metrics ''functional_errors'',
         sr_transport_errors = metric custom_metrics ''transport_errors'',
         sr_custom_metrics_present = (ga_custom_metrics g \<noteq> None), sr_cpu_measured = ga_cpu_measured g,
         sr_memory_measured = ga_memory_measured g, sr_cpu_percent = ga_cpu_percent g,
         sr_memory_mb = ga_memory_mb g, sr_peak_cpu_percent = ga_peak_cpu_percent g,
         sr_peak_memory_mb = ga_peak_memory_mb g, sr_connections_measured = ga_connections_measured g,
         sr_observed_peak_connections = ga_observed_peak_connections g,
         sr_locust_exit_code = ga_locust_exit_code g, sr_passed = (violations = []),
         sr_violations = violations\<rparr>))))))))"

section \<open>What a passing run is\<close>

lemma flag_Nil [simp]: "flag b v = [] \<longleftrightarrow> \<not> b"
  by (simp add: flag_def)

text \<open>The counters add up, and something was masked.\<close>

definition reconciled :: "step_result \<Rightarrow> bool" where
  "reconciled r \<longleftrightarrow>
     sr_requests r = sr_http_2xx r + sr_http_429 r + sr_http_422 r + sr_http_other r + sr_transport_errors r
   \<and> sr_http_2xx r = sr_mask_requests r + sr_demask_requests r
   \<and> sr_failures r = sr_functional_errors r + sr_transport_errors r
   \<and> 0 < sr_http_2xx r \<and> 0 < sr_mask_requests r"

text \<open>Every masked payload was demasked or counted as incomplete, and few were incomplete.\<close>

definition roundtrips_closed :: "rat \<Rightarrow> step_result \<Rightarrow> bool" where
  "roundtrips_closed share r \<longleftrightarrow> sr_mask_requests r = sr_demask_requests r + sr_incomplete_roundtrips r
     \<and> of_int (sr_incomplete_roundtrips r) \<le> share * of_int (sr_mask_requests r)"

text \<open>The load was what the run was asked for: enough users, peak, connections and time.\<close>

definition fully_loaded :: "gate \<Rightarrow> bool" where
  "fully_loaded g \<longleftrightarrow>
     (ga_required_concurrent_users g = 0
       \<or> \<not> flt_less (ga_observed_max_users g) (Fin (of_int (ga_required_concurrent_users g))))
   \<and> (ga_target_peak_rps g = Fin 0 \<or> ga_min_peak_ratio g = Fin 0
       \<or> \<not> flt_less (ga_observed_peak_rps g) (flt_mult (ga_target_peak_rps g) (ga_min_peak_ratio g)))
   \<and> (ga_required_concurrent_connections g = 0
       \<or> ga_connections_measured g \<and> (\<exists>peak. ga_observed_peak_connections g = Some peak
           \<and> \<not> flt_less peak (Fin (of_int (ga_required_concurrent_connections g)))))
   \<and> ga_min_duration_for_stable g \<le> ga_duration_seconds g
   \<and> (ga_min_elapsed_duration g = Fin 0 \<or> ga_measured_duration g = None
       \<or> (\<exists>t. ga_measured_duration g = Some t \<and> \<not> flt_less t (ga_min_elapsed_duration g)))"

lemma load_violations_Nil: "load_violations g = [] \<longleftrightarrow> fully_loaded g"
  unfolding load_violations_def fully_loaded_def
  by (auto simp: flt_true_def split: option.splits)

lemma metrics_violations_Nil:
  assumes "requests \<noteq> 0"
  shows "metrics_violations g requests failures d = [] \<longleftrightarrow>
     set (required_keys (ga_scenario g)) \<subseteq> fst ` set d
   \<and> requests = metric d ''http_2xx'' + metric d ''http_429'' + metric d ''http_422'' + metric d ''http_other''
            + metric d ''transport_errors''
   \<and> metric d ''http_2xx'' = metric d ''mask_requests'' + metric d ''demask_requests''
   \<and> failures = metric d ''functional_errors'' + metric d ''transport_errors''
   \<and> 0 < metric d ''http_2xx'' \<and> 0 < metric d ''mask_requests''
   \<and> (ga_scenario g = lit ''roundtrip'' \<longrightarrow>
        metric d ''mask_requests'' = metric d ''demask_requests'' + metric d ''incomplete_roundtrips''
        \<and> \<not> flt_less (ga_max_incomplete_ratio g)
              (int_ratio (metric d ''incomplete_roundtrips'') (metric d ''mask_requests'')))"
proof -
  have keys: "filter (\<lambda>key. key \<notin> fst ` set d) ks = [] \<longleftrightarrow> set ks \<subseteq> fst ` set d" for ks :: "pystr list"
    by (auto simp: filter_empty_conv)
  show ?thesis
    using assms unfolding metrics_violations_def Let_def append_is_Nil_conv flag_Nil if_distrib [of "\<lambda>x. x = []"]
    by (cases "0 < metric d ''mask_requests''") (auto simp: keys)
qed

lemma build_result_fields:
  assumes "build_result U row g = Inr r"
  defines "d \<equiv> (case ga_custom_metrics g of None \<Rightarrow> [] | Some d \<Rightarrow> d)"
  shows "ebind (number_of U row ''Request Count'') flt_int = Inr (sr_requests r)"
      "ebind (number_of U row ''Failure Count'') flt_int = Inr (sr_failures r)"
      "sr_achieved_ratio r = (if flt_true (ga_target_rps g) then flt_div (sr_achieved_rps r) (ga_target_rps g) else Fin 0)"
      "ga_measured_duration g = Some (Fin t) \<Longrightarrow> 0 < t \<Longrightarrow> sr_achieved_rps r = flt_round (of_int (sr_requests r) / t)"
    and "sr_error_rate_percent r =
      (if sr_requests r \<noteq> 0 then flt_mult (int_ratio (sr_failures r) (sr_requests r)) (Fin 100) else Fin 100)"
    and "sr_http_2xx r = metric d ''http_2xx''" "sr_http_429 r = metric d ''http_429''"
      "sr_http_422 r = metric d ''http_422''" "sr_http_other r = metric d ''http_other''"
      "sr_transport_errors r = metric d ''transport_errors''" "sr_mask_requests r = metric d ''mask_requests''"
      "sr_demask_requests r = metric d ''demask_requests''"
      "sr_functional_errors r = metric d ''functional_errors''"
      "sr_incomplete_roundtrips r = metric d ''incomplete_roundtrips''"
    and "sr_passed r \<longleftrightarrow>
      ga_locust_exit_code g = 0 \<and> \<not> flt_less (ga_max_error_rate g) (sr_error_rate_percent r)
      \<and> \<not> flt_less (ga_max_p95_ms g) (sr_p95_ms r) \<and> \<not> flt_less (ga_max_p99_ms g) (sr_p99_ms r)
      \<and> \<not> flt_less (sr_achieved_ratio r) (ga_min_achieved_ratio g)
      \<and> (\<exists>d. ga_custom_metrics g = Some d \<and> metrics_violations g (sr_requests r) (sr_failures r) d = [])
      \<and> load_violations g = []"
  using assms(1) unfolding build_result_def Let_def d_def
  by (cases "ga_custom_metrics g"; auto simp: ebind_eq_Inr)+

section \<open>Rounded ratios against their limits\<close>

text \<open>\<open>y\<close> was computed for \<open>x\<close> with a few roundings: neither exceeds the other by more than the slack.\<close>

definition slack :: rat where "slack = 1 + 1 / 2 ^ 48"

definition rounds_to :: "rat \<Rightarrow> flt \<Rightarrow> bool" where
  "rounds_to x z \<longleftrightarrow> (\<exists>y. z = Fin y \<and> x \<le> y * slack \<and> y \<le> x * slack)"

lemma rounds_to_less: "rounds_to x z \<Longrightarrow> \<not> flt_less (Fin c) z \<Longrightarrow> x \<le> c * slack"
  using mult_right_mono [of _ c slack] by (fastforce simp: rounds_to_def slack_def)

lemma rounds_to_not_less: "rounds_to x z \<Longrightarrow> x * slack \<le> c \<Longrightarrow> \<not> flt_less (Fin c) z"
  by (auto simp: rounds_to_def)

lemma rounds_to_greater: "rounds_to x z \<Longrightarrow> \<not> flt_less z (Fin c) \<Longrightarrow> c \<le> x * slack"
  by (auto simp: rounds_to_def)

lemma rounds_to_not_greater: "rounds_to x z \<Longrightarrow> c * slack \<le> x \<Longrightarrow> \<not> flt_less z (Fin c)"
  by (auto simp: rounds_to_def slack_def)

lemma near_rounds_to: "near k y x \<Longrightarrow> k \<le> 10 \<Longrightarrow> rounds_to x (Fin y)"
  using near_bounds [of k y x] by (simp add: rounds_to_def slack_def)

text \<open>Zero, or of an ordinary size\<close>

definition ordinary :: "rat \<Rightarrow> bool" where
  "ordinary x \<longleftrightarrow> x = 0 \<or> 1 / 2 ^ 100 \<le> x \<and> x \<le> 2 ^ 100"

lemma quotient_size:
  assumes "1 / 2 ^ 100 \<le> x" "x \<le> 2 ^ 100" "1 / 2 ^ 100 \<le> y" "y \<le> (2 ^ 100 :: rat)"
  shows "1 / 2 ^ 200 \<le> x / y" "x / y \<le> 2 ^ 200"
proof -
  have y: "0 < y" using assms(3) by (rule less_le_trans [rotated]) simp
  have "1 / 2 ^ 200 * y \<le> 1 / 2 ^ 200 * 2 ^ 100" using assms(4) by (intro mult_left_mono) simp_all
  also have "\<dots> \<le> x" using assms(1) by simp
  finally show "1 / 2 ^ 200 \<le> x / y" using y by (simp only: le_divide_eq) simp
  have "x \<le> 2 ^ 200 * (1 / 2 ^ 100)" using assms(2) by simp
  also have "\<dots> \<le> 2 ^ 200 * y" using assms(3) by (intro mult_left_mono) simp_all
  finally show "x / y \<le> 2 ^ 200" using y by (simp only: divide_le_eq) simp
qed

lemma rounded_near:
  assumes "near k y x" "k \<le> 9" "1 / 2 ^ 300 \<le> x" "x \<le> 2 ^ 300"
  shows "flt_round y = Fin (fl y)" "near (Suc k) (fl y) x"
proof -
  have y: "y \<le> x * (1 + 1 / 2 ^ 48)" "0 < y" using near_bounds(2) [OF assms(1)] assms(2) near_pos [OF assms(1)] by simp_all
  have "x * (1 + 1 / 2 ^ 48) \<le> 2 ^ 300 * 2" using assms(4) near_pos [OF assms(1)] by (intro mult_mono) simp_all
  also have "(2 ^ 300 * 2 :: rat) = 2 powi 301" by simp
  also have "\<dots> \<le> 2 powi 1022" by (rule two_powi_mono) simp
  finally show "flt_round y = Fin (fl y)" using y by (intro flt_round_below) linarith
  have "(1 :: rat) / 2 ^ 900 \<le> 1 / 2 ^ 300" by (simp add: divide_le_eq)
  then show "near (Suc k) (fl y) x" using near_fl [OF assms(1)] assms by linarith
qed

lemma quotient_rounds:
  assumes "ordinary x" "ordinary y" "y \<noteq> 0"
  shows "rounds_to (x / y) (flt_round (x / y))" "rounds_to (x / y * 100) (flt_mult (flt_round (x / y)) (Fin 100))"
proof -
  have zero: "flt_round 0 = Fin 0" by (simp add: flt_round_def)
  have "rounds_to (x / y) (flt_round (x / y)) \<and> rounds_to (x / y * 100) (flt_mult (flt_round (x / y)) (Fin 100))"
  proof (cases "x = 0")
    case True
    then show ?thesis by (simp add: zero rounds_to_def)
  next
    case False
    note size = quotient_size [of x y]
    have b: "1 / 2 ^ 200 \<le> x / y" "x / y \<le> 2 ^ 200" using size assms False by (simp_all only: ordinary_def) simp_all
    have pos: "0 < x / y" using b(1) by (rule less_le_trans [rotated]) simp
    have "(1 :: rat) / 2 ^ 300 \<le> 1 / 2 ^ 200" "(2 :: rat) ^ 200 * 100 \<le> 2 ^ 300" "(2 :: rat) ^ 200 \<le> 2 ^ 300" by (simp_all add: divide_le_eq)
    moreover define z where "z = x / y"
    ultimately have c: "1 / 2 ^ 300 \<le> z" "z \<le> 2 ^ 300" "1 / 2 ^ 300 \<le> z * 100" "z * 100 \<le> 2 ^ 300"
      using b pos by linarith+
    note c = c [unfolded z_def]
    note q = rounded_near [OF near_refl [OF pos, of 0] _ c(1,2), simplified]
    have "near 1 (fl (x / y) * 100) (x / y * 100)" using near_mult [OF q(2) near_refl [of 100 0]] by simp
    note p = rounded_near [OF this _ c(3,4)]
    show ?thesis using q p near_rounds_to [of 1 "fl (x / y)"] near_rounds_to [of "Suc 1"] by simp
  qed
  then show "rounds_to (x / y) (flt_round (x / y))"
    "rounds_to (x / y * 100) (flt_mult (flt_round (x / y)) (Fin 100))" by simp_all
qed

definition flt_rat :: "flt \<Rightarrow> rat" where
  "flt_rat x = (case x of Fin q \<Rightarrow> q | _ \<Rightarrow> 0)"

text \<open>
  What a run is judged by: the limits on failures, on incomplete pairs and on the achieved rate are meant up
  to the factor \<open>\<sigma>\<close>.
\<close>

definition gates_met :: "rat \<Rightarrow> gate \<Rightarrow> step_result \<Rightarrow> bool" where
  "gates_met \<sigma> g r \<longleftrightarrow>
     ga_locust_exit_code g = 0 \<and> 0 < sr_requests r
   \<and> 100 * of_int (sr_failures r) \<le> \<sigma> * (flt_rat (ga_max_error_rate g) * of_int (sr_requests r))
   \<and> \<not> flt_less (ga_max_p95_ms g) (sr_p95_ms r) \<and> \<not> flt_less (ga_max_p99_ms g) (sr_p99_ms r)
   \<and> flt_rat (ga_min_achieved_ratio g) * flt_rat (ga_target_rps g) \<le> \<sigma> * flt_rat (sr_achieved_rps r)
   \<and> (\<exists>d. ga_custom_metrics g = Some d \<and> set (required_keys (ga_scenario g)) \<subseteq> fst ` set d)
   \<and> reconciled r
   \<and> (ga_scenario g = lit ''roundtrip'' \<longrightarrow> roundtrips_closed (\<sigma> * flt_rat (ga_max_incomplete_ratio g)) r)
   \<and> fully_loaded g"

text \<open>The counters are counters, the limits are numbers and the rates of an ordinary size.\<close>

definition counters_small :: "step_result \<Rightarrow> bool" where
  "counters_small r \<longleftrightarrow> (\<forall>n \<in> {sr_requests r, sr_failures r, sr_mask_requests r, sr_incomplete_roundtrips r}. 0 \<le> n \<and> n \<le> 2 ^ 53)"

definition rates_ordinary :: "gate \<Rightarrow> step_result \<Rightarrow> bool" where
  "rates_ordinary g r \<longleftrightarrow> (\<exists>e share target ratio achieved. ga_max_error_rate g = Fin e \<and> e < 100
     \<and> ga_max_incomplete_ratio g = Fin share \<and> ga_target_rps g = Fin target \<and> target \<noteq> 0 \<and> ordinary target
     \<and> ga_min_achieved_ratio g = Fin ratio \<and> sr_achieved_rps r = Fin achieved \<and> ordinary achieved)"

lemma ordinary_of_int: "0 \<le> n \<Longrightarrow> n \<le> 2 ^ 53 \<Longrightarrow> ordinary (of_int n)"
proof -
  assume n: "0 \<le> n" "n \<le> 2 ^ 53"
  then have "(of_int n :: rat) \<le> of_int (2 ^ 53)" by (simp only: of_int_le_iff)
  also have "\<dots> \<le> 2 ^ 100" by simp
  finally have "(of_int n :: rat) \<le> 2 ^ 100" .
  moreover have "n \<noteq> 0 \<Longrightarrow> (of_int 1 :: rat) \<le> of_int n" unfolding of_int_le_iff using n by linarith
  moreover have "(1 :: rat) / 2 ^ 100 \<le> 1" by simp
  ultimately show ?thesis by (cases "n = 0") (auto simp: ordinary_def intro: order_trans)
qed

text \<open>The three comparisons of the verdict, for limits that are met up to the slack in either direction\<close>

lemma share_exact:
  assumes "rounds_to (x / y * c) z" "0 < y"
  shows "\<not> flt_less (Fin e) z \<Longrightarrow> c * x \<le> slack * (e * y)"
    and "c * x \<le> 1 / slack * (e * y) \<Longrightarrow> \<not> flt_less (Fin e) z"
proof -
  have s: "0 < slack" by (simp add: slack_def)
  show "c * x \<le> slack * (e * y)" if "\<not> flt_less (Fin e) z"
    using rounds_to_less [OF assms(1) that] assms(2) by (simp add: divide_le_eq ac_simps)
  show "\<not> flt_less (Fin e) z" if "c * x \<le> 1 / slack * (e * y)"
    using that s assms(2) by (intro rounds_to_not_less [OF assms(1)]) (simp add: divide_le_eq le_divide_eq ac_simps)
qed

lemma ratio_exact:
  assumes "rounds_to (x / y) z" "0 < y"
  shows "\<not> flt_less z (Fin q) \<Longrightarrow> q * y \<le> slack * x"
    and "q * y \<le> 1 / slack * x \<Longrightarrow> \<not> flt_less z (Fin q)"
proof -
  have s: "0 < slack" by (simp add: slack_def)
  show "q * y \<le> slack * x" if "\<not> flt_less z (Fin q)"
    using rounds_to_greater [OF assms(1) that] assms(2) by (simp add: le_divide_eq ac_simps)
  show "\<not> flt_less z (Fin q)" if "q * y \<le> 1 / slack * x"
    using that s assms(2) by (intro rounds_to_not_greater [OF assms(1)]) (simp add: divide_le_eq le_divide_eq ac_simps)
qed


end
