(* ===== verification/PerfSampling.thy ===== *)
theory PerfSampling
  imports PyFloat Json
begin

text \<open>
  The samplers of \<open>scripts/run_performance.py\<close>: connections of the load generator to the target, CPU and
  memory of the process and of the containers, and the reduction of the samples to peaks.  A sampling thread
  is the list of what its calls to \<open>psutil\<close> and \<open>docker\<close> bring until it is stopped.
\<close>

section \<open>Strings\<close>

text \<open>\<open>s.splitlines()\<close>\<close>

definition line_end :: "codepoint \<Rightarrow> bool" where
  "line_end c = (c \<in> {10, 11, 12, 13, 28, 29, 30, 133, 8232, 8233})"

fun lines_from :: "pystr \<Rightarrow> pystr \<Rightarrow> pystr list" where
  "lines_from cur [] = (if cur = [] then [] else [cur])"
| "lines_from cur (c # cs) =
     (if c = 13 \<and> take 1 cs = [10] then cur # lines_from [] (drop 1 cs)
      else if line_end c then cur # lines_from [] cs
      else lines_from (cur @ [c]) cs)"

definition splitlines :: "pystr \<Rightarrow> pystr list" where
  "splitlines s = lines_from [] s"

text \<open>\<open>s.split(",")\<close>\<close>

fun split_on :: "codepoint \<Rightarrow> pystr \<Rightarrow> pystr list" where
  "split_on sep [] = [[]]"
| "split_on sep (c # cs) =
     (if c = sep then [] # split_on sep cs
      else case split_on sep cs of [] \<Rightarrow> [[c]] | w # ws \<Rightarrow> (c # w) # ws)"

text \<open>
  \<open>str(v)\<close> on a parsed JSON value.  Of the text of a list or dictionary only the bracket it starts with is
  kept: the code reads identifiers and numbers from the text, and a bracket belongs to neither.
\<close>

fun py_str :: "pyval \<Rightarrow> pystr" where
  "py_str VNone = lit ''None''"
| "py_str (VBool b) = (if b then lit ''True'' else lit ''False'')"
| "py_str (VInt n) = int_str n"
| "py_str (VFloat x) = x"
| "py_str (VStr s) = s"
| "py_str (VList xs) = lit ''[''"
| "py_str (VDict d) = lit ''{''"

definition parse_mem :: "ucd \<Rightarrow> pystr \<Rightarrow> exn + flt" where
  "parse_mem U s =
     (let value = str_strip U s; cut = (\<lambda>n. take (length value - n) value) in
      if suffix (lit ''MiB'') value then py_float U (cut 3)
      else if suffix (lit ''GiB'') value then ebind (py_float U (cut 3)) (\<lambda>x. Inr (flt_mult x (Fin 1024)))
      else if suffix (lit ''KiB'') value then ebind (py_float U (cut 3)) (\<lambda>x. Inr (flt_div x (Fin 1024)))
      else if suffix (lit ''B'') value then ebind (py_float U (cut 1)) (\<lambda>x. Inr (flt_div x (Fin (1024 * 1024))))
      else py_float U value)"

definition parse_cpu :: "ucd \<Rightarrow> pystr \<Rightarrow> flt option" where
  "parse_cpu U value =
     (case py_float U (str_replace (lit ''%'') [] value) of Inr x \<Rightarrow> Some x | Inl e \<Rightarrow> None)"

section \<open>Connections\<close>

record url_parts =
  up_scheme :: pystr
  up_hostname :: "pystr option"
  up_port :: "exn + int option"

text \<open>
  \<open>_parse_host_port\<close> on the outcome of \<open>urlsplit\<close>: \<open>None\<close> when it raised \<open>ValueError\<close>, else the scheme, the
  host name and what reading the port gives.
\<close>

definition parse_host_port :: "url_parts option \<Rightarrow> (pystr \<times> int) option" where
  "parse_host_port parsed =
     (case parsed of None \<Rightarrow> None
      | Some u \<Rightarrow>
          if up_scheme u \<notin> {lit ''http'', lit ''https''} then None
          else (case up_hostname u of None \<Rightarrow> None
                | Some hostname \<Rightarrow>
                    if hostname = [] then None
                    else (case up_port u of Inl e \<Rightarrow> None
                          | Inr (Some port) \<Rightarrow> Some (hostname, port)
                          | Inr None \<Rightarrow> Some (hostname, if up_scheme u = lit ''http'' then 80 else 443))))"

definition is_loopback_host :: "ucd \<Rightarrow> pystr \<Rightarrow> bool" where
  "is_loopback_host U hostname =
     (str_lower U hostname \<in> set (map lit [''localhost'', ''127.0.0.1'', ''::1'', ''0:0:0:0:0:0:0:1'']))"

record connection =
  cn_status :: pystr
  cn_raddr :: "(pystr \<times> int) option"

definition counts_for :: "ucd \<Rightarrow> pystr \<times> int \<Rightarrow> connection \<Rightarrow> bool" where
  "counts_for U target c =
     (cn_status c = lit ''ESTABLISHED''
      \<and> (case cn_raddr c of None \<Rightarrow> False
         | Some (ip, port) \<Rightarrow>
             port = snd target
             \<and> (ip = fst target
                \<or> is_loopback_host U (fst target) \<and> ip \<in> {lit ''127.0.0.1'', lit ''::1''})))"

text \<open>
  \<open>_sample_connections\<close>: \<open>psutil_ok\<close> when the library and the process are there; a tick is the list of
  connections, or \<open>None\<close> when reading it raised.  The samples and the returned flag.
\<close>

definition sample_connections ::
    "ucd \<Rightarrow> bool \<Rightarrow> (pystr \<times> int) option \<Rightarrow> connection list option list \<Rightarrow> int option list \<times> bool" where
  "sample_connections U psutil_ok target ticks =
     (case target of None \<Rightarrow> ([], False)
      | Some tg \<Rightarrow>
          if \<not> psutil_ok then ([], False)
          else let samples = map (map_option (\<lambda>conns. int (length (filter (counts_for U tg) conns)))) ticks
               in (samples, list_ex (\<lambda>s. s \<noteq> None) samples))"

definition connection_peak :: "int option list \<Rightarrow> bool \<times> flt option" where
  "connection_peak samples =
     (let numeric = List.map_filter (\<lambda>s. s) samples
      in if numeric = [] then (False, None) else (True, Some (Fin (of_int (Max (set numeric))))))"

text \<open>What the caller keeps after \<open>_finalize_connection_samples\<close>: nothing when the thread is still alive\<close>

definition connections_of :: "bool \<Rightarrow> int option list \<Rightarrow> bool \<times> flt option" where
  "connections_of still_alive samples = (if \<not> still_alive then connection_peak samples else (False, None))"

section \<open>The process\<close>

text \<open>
  \<open>_sample_process\<close>: a tick is the CPU share and the resident size in bytes, or \<open>None\<close> when the process is
  gone, which ends the loop.
\<close>

fun process_samples :: "(rat \<times> int) option list \<Rightarrow> (rat \<times> rat) list" where
  "process_samples (Some (cpu, rss) # ticks) = (cpu, of_int rss / (1024 * 1024)) # process_samples ticks"
| "process_samples _ = []"

definition sample_process :: "bool \<Rightarrow> (rat \<times> int) option list \<Rightarrow> (rat \<times> rat) list \<times> bool" where
  "sample_process psutil_ok ticks =
     (if \<not> psutil_ok then ([], False) else (process_samples ticks, process_samples ticks \<noteq> []))"

text \<open>\<open>sum(...) / len(...)\<close> and \<open>max(..., default=0.0)\<close> over the samples\<close>

definition mean :: "rat list \<Rightarrow> rat" where
  "mean xs = (if xs = [] then 0 else sum_list xs / of_nat (length xs))"

definition highest :: "rat list \<Rightarrow> rat" where
  "highest xs = (if xs = [] then 0 else Max (set xs))"

section \<open>Containers\<close>

definition container_id_matches :: "ucd \<Rightarrow> pystr \<Rightarrow> pystr \<Rightarrow> bool" where
  "container_id_matches U stats expected =
     (let stats_id = str_lower U (str_strip U stats);
          expected_id = str_lower U (str_strip U expected);
          hex = (\<lambda>s. list_all (\<lambda>c. c \<in> set (lit ''0123456789abcdef'')) s)
      in if length stats_id < 12 \<or> length expected_id < 12 then False
         else if \<not> hex stats_id then False
         else if \<not> hex expected_id then False
         else prefix expected_id stats_id \<or> prefix stats_id expected_id)"

text \<open>
  A command's outcome is its return code and output, \<open>None\<close> when running it raised.
  \<open>_resolve_compose_container_ids\<close>: the identifiers of the \<open>api\<close> and the \<open>redis\<close> service.
\<close>

definition service_id :: "ucd \<Rightarrow> (int \<times> pystr) option \<Rightarrow> pystr option" where
  "service_id U r =
     (case r of None \<Rightarrow> None
      | Some (returncode, stdout) \<Rightarrow>
          if returncode \<noteq> 0 then None
          else let out = str_strip U stdout;
                   container_id = (if out \<noteq> [] then str_strip U (hd (splitlines out)) else [])
               in if container_id = [] then None else Some container_id)"

definition resolve_container_ids :: "ucd \<Rightarrow> (pystr \<Rightarrow> (int \<times> pystr) option) \<Rightarrow> (pystr \<times> pystr) option" where
  "resolve_container_ids U compose =
     (case service_id U (compose (lit ''api'')) of None \<Rightarrow> None
      | Some app \<Rightarrow>
          (case service_id U (compose (lit ''redis'')) of None \<Rightarrow> None
           | Some redis \<Rightarrow> Some (app, redis)))"

record container_sample =
  ct_cpu_percent :: "flt option"
  ct_memory_mb :: "flt option"

datatype docker_sample = Unavailable | Sampled "container_sample option" "container_sample option"

text \<open>One line of \<open>docker stats\<close>; a JSON value that is no object raises \<open>AttributeError\<close>.\<close>

definition stats_line ::
    "ucd \<Rightarrow> pystr \<times> pystr \<Rightarrow> container_sample option \<times> container_sample option \<Rightarrow> pystr
      \<Rightarrow> exn + container_sample option \<times> container_sample option" where
  "stats_line U ids entry raw =
     (let line = str_strip U raw in
      if line = [] then Inr entry
      else (case loads line of None \<Rightarrow> Inr entry
            | Some v \<Rightarrow> ebind (as_dict v) (\<lambda>d.
                let container_id = str_lower U (py_str (dict_get d ''ID'' (VStr [])));
                    cpu = parse_cpu U (py_str (dict_get d ''CPUPerc'' (VStr (lit ''0%''))));
                    usage = py_str (dict_get d ''MemUsage'' (VStr (lit ''0 / 0'')));
                    mem = (case parse_mem U (str_strip U (takeWhile (\<lambda>c. c \<noteq> 47) usage)) of
                             Inr x \<Rightarrow> Some x | Inl e \<Rightarrow> None);
                    s = Some \<lparr>ct_cpu_percent = cpu, ct_memory_mb = mem\<rparr>
                in Inr (if container_id_matches U container_id (fst ids) then s else fst entry,
                        if container_id_matches U container_id (snd ids) then s else snd entry))))"

text \<open>
  \<open>_sample_docker\<close>: any exception, a failing command and unresolved identifiers end the loop with the
  marker \<open>Unavailable\<close>.
\<close>

fun docker_loop :: "ucd \<Rightarrow> pystr \<times> pystr \<Rightarrow> (int \<times> pystr) option list \<Rightarrow> docker_sample list" where
  "docker_loop U ids [] = []"
| "docker_loop U ids (None # ticks) = [Unavailable]"
| "docker_loop U ids (Some (returncode, stdout) # ticks) =
     (if returncode \<noteq> 0 then [Unavailable]
      else (case efold (stats_line U ids) (None, None) (splitlines stdout) of
              Inl e \<Rightarrow> [Unavailable]
            | Inr (app, redis) \<Rightarrow> Sampled app redis # docker_loop U ids ticks))"

definition sample_docker ::
    "ucd \<Rightarrow> (pystr \<Rightarrow> (int \<times> pystr) option) \<Rightarrow> (int \<times> pystr) option list \<Rightarrow> docker_sample list" where
  "sample_docker U compose ticks =
     (case resolve_container_ids U compose of None \<Rightarrow> [Unavailable] | Some ids \<Rightarrow> docker_loop U ids ticks)"

text \<open>\<open>_finalize_docker_samples\<close>: a thread that is still alive after the join marks the samples incomplete.\<close>

definition finalize_docker :: "bool \<Rightarrow> docker_sample list \<Rightarrow> docker_sample list" where
  "finalize_docker still_alive samples = (if still_alive then samples @ [Unavailable] else samples)"

record docker_peaks =
  dp_app :: "(flt option \<times> flt option) option"
  dp_redis :: "(flt option \<times> flt option) option"
  dp_unavailable :: bool

definition peak_step :: "flt option \<Rightarrow> flt option \<Rightarrow> flt option" where
  "peak_step acc value =
     (case value of None \<Rightarrow> acc
      | Some v \<Rightarrow> (case acc of None \<Rightarrow> Some v | Some p \<Rightarrow> if flt_less p v then Some v else Some p))"

definition container_peak :: "container_sample option list \<Rightarrow> (flt option \<times> flt option) option" where
  "container_peak samples =
     (let present = List.map_filter (\<lambda>s. s) samples;
          peak_cpu = foldl peak_step None (map ct_cpu_percent present);
          peak_mem = foldl peak_step None (map ct_memory_mb present)
      in if peak_cpu \<noteq> None \<or> peak_mem \<noteq> None then Some (peak_cpu, peak_mem) else None)"

fun app_of :: "docker_sample \<Rightarrow> container_sample option" where
  "app_of Unavailable = None"
| "app_of (Sampled app redis) = app"

fun redis_of :: "docker_sample \<Rightarrow> container_sample option" where
  "redis_of Unavailable = None"
| "redis_of (Sampled app redis) = redis"

definition docker_peak :: "docker_sample list \<Rightarrow> docker_peaks" where
  "docker_peak samples =
     (if samples = [] \<or> Unavailable \<in> set samples
      then \<lparr>dp_app = None, dp_redis = None, dp_unavailable = True\<rparr>
      else \<lparr>dp_app = container_peak (map app_of samples), dp_redis = container_peak (map redis_of samples),
            dp_unavailable = False\<rparr>)"

section \<open>What the peaks mean\<close>

text \<open>The fold keeps the first value that no later one exceeds.\<close>

lemma peak_fold:
  assumes "foldl peak_step acc vs = Some p"
  shows "(acc = Some p \<or> Some p \<in> set vs)
    \<and> (p \<noteq> NaN \<longrightarrow> (\<forall>v. Some v \<in> set vs \<or> acc = Some v \<longrightarrow> \<not> flt_less p v))
    \<and> (acc = Some NaN \<longrightarrow> p = NaN)"
  using assms
proof (induction vs arbitrary: acc)
  case (Cons x vs)
  note IH = Cons.IH [OF Cons.prems [simplified foldl_Cons]]
  show ?case
  proof (cases "x = None \<or> acc = None")
    case True
    with IH show ?thesis by (auto simp: peak_step_def split: option.splits)
  next
    case False
    then obtain a v where av: "acc = Some a" "x = Some v" by auto
    show ?thesis
    proof (cases "flt_less a v")
      case True
      with IH av show ?thesis by (auto simp: peak_step_def dest: flt_less_trans)
    next
      case False
      with IH av have "acc = Some p \<or> Some p \<in> set vs" and
        "p \<noteq> NaN \<longrightarrow> (\<forall>v. Some v \<in> set vs \<or> acc = Some v \<longrightarrow> \<not> flt_less p v)"
        and "acc = Some NaN \<longrightarrow> p = NaN"
        by (auto simp: peak_step_def)
      moreover have "\<not> flt_less p v" if "p \<noteq> NaN" "a \<noteq> NaN" "\<not> flt_less p a"
        using that False by (cases p; cases a; cases v) auto
      ultimately show ?thesis using av by auto
    qed
  qed
qed simp

lemma set_map_filter_id: "x \<in> set (List.map_filter (\<lambda>s. s) xs) \<longleftrightarrow> Some x \<in> set xs"
  by (induction xs) (auto simp: map_filter_simps split: option.splits)

text \<open>
  The reported CPU peak of a container is one of its samples, and no sample exceeds it.
\<close>

lemma docker_peak_max:
  assumes "dp_app (docker_peak samples) = Some (Some cpu, mem)" and "cpu \<noteq> NaN"
  shows "\<not> dp_unavailable (docker_peak samples)
    \<and> (\<exists>app redis. Sampled (Some app) redis \<in> set samples \<and> ct_cpu_percent app = Some cpu)
    \<and> (\<forall>app redis v. Sampled (Some app) redis \<in> set samples \<longrightarrow> ct_cpu_percent app = Some v \<longrightarrow> \<not> flt_less cpu v)"
proof -
  let ?vs = "map ct_cpu_percent (List.map_filter (\<lambda>s. s) (map app_of samples))"
  have ok: "\<not> dp_unavailable (docker_peak samples)" and f: "foldl peak_step None ?vs = Some cpu"
    using assms(1) by (auto simp: docker_peak_def container_peak_def Let_def split: if_splits)
  have app: "Some a \<in> app_of ` set samples \<longleftrightarrow> (\<exists>redis. Sampled (Some a) redis \<in> set samples)" for a
  proof
    assume "Some a \<in> app_of ` set samples"
    then obtain s where "s \<in> set samples" "app_of s = Some a" by auto
    then show "\<exists>redis. Sampled (Some a) redis \<in> set samples"
      by - (cases s; auto)
  qed force
  have mem: "Some v \<in> set ?vs \<longleftrightarrow> (\<exists>a redis. Sampled (Some a) redis \<in> set samples \<and> ct_cpu_percent a = Some v)" for v
  proof -
    have "Some v \<in> set ?vs \<longleftrightarrow> (\<exists>a. Some a \<in> app_of ` set samples \<and> ct_cpu_percent a = Some v)"
      by (simp only: set_map image_iff Bex_def set_map_filter_id eq_commute [of "Some v"])
    then show ?thesis by (simp only: app ex_simps)
  qed
  have "Some cpu \<in> set ?vs" and "Some v \<in> set ?vs \<Longrightarrow> \<not> flt_less cpu v" for v
    using peak_fold [OF f] assms(2) by blast+
  with ok show ?thesis unfolding mem by blast
qed

text \<open>
  A reported connection peak is the number of connections to the target in some sample, and no sample
  has more.
\<close>

lemma connection_peak_exact:
  assumes "connections_of still_alive (fst (sample_connections U psutil_ok target ticks)) = (measured, Some peak)"
  shows "\<not> still_alive \<and> measured
    \<and> (\<exists>tg n. target = Some tg \<and> peak = Fin (of_nat n)
        \<and> (\<exists>conns. Some conns \<in> set ticks \<and> n = length (filter (counts_for U tg) conns))
        \<and> (\<forall>conns. Some conns \<in> set ticks \<longrightarrow> length (filter (counts_for U tg) conns) \<le> n))"
proof -
  from assms obtain tg where tg: "target = Some tg" "\<not> still_alive"
    by (auto simp: connections_of_def sample_connections_def connection_peak_def map_filter_simps split: option.splits if_splits)
  let ?n = "\<lambda>conns. int (length (filter (counts_for U tg) conns))"
  let ?c = "List.map_filter (\<lambda>s. s) (map (map_option ?n) ticks)"
  have c: "x \<in> set ?c \<longleftrightarrow> (\<exists>conns. Some conns \<in> set ticks \<and> x = ?n conns)" for x
    unfolding set_map_filter_id by (auto simp: image_iff eq_commute [of "Some x"])
  from assms tg have ne: "?c \<noteq> []" and m: measured and p: "peak = Fin (of_int (Max (set ?c)))"
    by (auto simp: connections_of_def sample_connections_def connection_peak_def map_filter_simps Let_def
        split: if_splits)
  from ne have "Max (set ?c) \<in> set ?c" by (intro Max_in) auto
  with c obtain conns where conns: "Some conns \<in> set ticks" "Max (set ?c) = ?n conns" by auto
  moreover have "length (filter (counts_for U tg) conns') \<le> length (filter (counts_for U tg) conns)"
    if "Some conns' \<in> set ticks" for conns'
  proof -
    from that c have "?n conns' \<in> set ?c" by blast
    then have "?n conns' \<le> Max (set ?c)" by simp
    with conns show ?thesis by simp
  qed
  ultimately show ?thesis using tg m p by auto
qed

end
