(* ===== verification/PerfRun.thy ===== *)
theory PerfRun
  imports PerfGate PerfSampling
begin

text \<open>
  The composition in \<open>scripts/run_performance.py\<close>: \<open>main\<close> checks its arguments and the readiness of the
  service, runs Locust for each target (or once for the organizer profile) under the samplers, and turns the
  files of each run and the samples into verdicts and an exit code.  What a run brings from outside (the
  Locust process, \<open>psutil\<close>, \<open>docker\<close>, the files found and those Locust wrote, the clock) is the record \<open>run_world\<close>; the
  reports that are printed and written are in \<open>PerfReport\<close> and \<open>PerfOutput\<close>.
\<close>

section \<open>The files of a run\<close>

text \<open>
  The files of an output directory by name.  Of a file the runner uses its rows as CSV or its value as JSON
  (\<open>None\<close> when it does not parse).  \<open>reset_step_outputs\<close> removes two files and gives up with the name of the
  first one that cannot be removed.
\<close>

record run_file =
  rf_rows :: "csv_row list"
  rf_json :: "pyval option"

type_synonym 'f files = "(pystr \<times> 'f) list"

definition STEP_OUTPUTS :: "pystr list" where
  "STEP_OUTPUTS = map lit [''final_stats.csv'', ''custom_metrics.json'']"

fun unlink_all :: "(pystr \<Rightarrow> bool) \<Rightarrow> pystr list \<Rightarrow> 'f files \<Rightarrow> exn + 'f files" where
  "unlink_all locked [] fs = Inr fs"
| "unlink_all locked (name # names) fs =
     (if name \<in> fst ` set fs \<and> locked name then Inl (OSError name)
      else unlink_all locked names (AList.delete name fs))"

definition reset_step_outputs :: "(pystr \<Rightarrow> bool) \<Rightarrow> 'f files \<Rightarrow> exn + 'f files" where
  "reset_step_outputs locked fs = unlink_all locked STEP_OUTPUTS fs"

definition rows_in :: "run_file files \<Rightarrow> string \<Rightarrow> csv_row list option" where
  "rows_in fs name = map_option rf_rows (map_of fs (lit name))"

definition json_in :: "run_file files \<Rightarrow> string \<Rightarrow> pyval option" where
  "json_in fs name = Option.bind (map_of fs (lit name)) rf_json"

text \<open>Once the stale files are removed, what is read after a run was written by it.\<close>

lemma unlink_all_gone:
  "unlink_all locked names fs = Inr fs' \<Longrightarrow>
   map_of fs' = (\<lambda>n. if n \<in> set names then None else map_of fs n)"
  by (induction locked names fs rule: unlink_all.induct) (auto simp: AList.delete_conv' fun_eq_iff split: if_splits)

lemma reset_fresh:
  assumes "reset_step_outputs locked stale = Inr fs" and "n \<in> set STEP_OUTPUTS"
  shows "map_of (AList.merge fs written) n = map_of written n"
  using unlink_all_gone [OF assms(1) [unfolded reset_step_outputs_def]] assms(2)
  by (simp add: AList.merge_conv' map_add_def split: option.split)

section \<open>One run\<close>

record run_world =
  wo_returncode :: int
  wo_psutil_ok :: bool
  wo_process_ticks :: "(rat \<times> int) option list"
  wo_compose :: "pystr \<Rightarrow> (int \<times> pystr) option"
  wo_docker_ticks :: "(int \<times> pystr) option list"
  wo_docker_alive :: bool
  wo_conn_psutil_ok :: bool
  wo_connection_ticks :: "connection list option list"
  wo_connections_alive :: bool
  wo_wall_seconds :: rat
  wo_before :: "run_file files"
  wo_locked :: "pystr \<Rightarrow> bool"
  wo_written :: "run_file files"

text \<open>
  The environment of the Locust process: \<open>run_step\<close> removes what belongs to the other profile and sets
  its own variables.  The texts of the numbers are arguments.
\<close>

type_synonym environ = "(pystr \<times> pystr) list"

definition environ_update :: "(string \<times> pystr) list \<Rightarrow> environ \<Rightarrow> environ" where
  "environ_update kvs env = foldl (\<lambda>d (k, v). AList.update (lit k) v d) env kvs"

definition step_environ :: "environ \<Rightarrow> pystr \<Rightarrow> pystr \<Rightarrow> pystr \<Rightarrow> pystr \<Rightarrow> environ" where
  "step_environ env scenario target_rps users custom_metrics_path =
     environ_update [(''LOAD_SCENARIO'', scenario), (''LOAD_PROFILE'', lit ''steps''), (''TARGET_RPS'', target_rps),
         (''LOCUST_USERS'', users), (''CUSTOM_METRICS_PATH'', custom_metrics_path)]
       (foldl (\<lambda>d k. AList.delete (lit k) d) env
         [''ORGANIZER_DURATION'', ''ORGANIZER_MAX_USERS'', ''ORGANIZER_RPS_PER_USER''])"

definition organizer_environ ::
    "environ \<Rightarrow> pystr \<Rightarrow> pystr \<Rightarrow> pystr \<Rightarrow> pystr \<Rightarrow> pystr \<Rightarrow> pystr \<Rightarrow> environ" where
  "organizer_environ env scenario duration rps_per_user max_users required_users custom_metrics_path =
     environ_update [(''LOAD_SCENARIO'', scenario), (''LOAD_PROFILE'', lit ''organizer''),
         (''ORGANIZER_DURATION'', duration), (''ORGANIZER_RPS_PER_USER'', rps_per_user),
         (''ORGANIZER_MAX_USERS'', max_users), (''REQUIRED_CONCURRENT_USERS'', required_users),
         (''CUSTOM_METRICS_PATH'', custom_metrics_path)] env"

text \<open>What \<open>run_step\<close> and \<open>run_organizer_profile\<close> return; only the latter measures the wall time.\<close>

record run_outcome =
  ro_returncode :: int
  ro_avg_cpu :: rat
  ro_avg_mem :: rat
  ro_peak_cpu :: rat
  ro_peak_mem :: rat
  ro_measured :: bool
  ro_docker_peak :: docker_peaks
  ro_conn_measured :: bool
  ro_conn_peak :: "flt option"

definition run_locust :: "ucd \<Rightarrow> (pystr \<times> int) option \<Rightarrow> run_world \<Rightarrow> run_outcome" where
  "run_locust U target w =
     (let samples = fst (sample_process (wo_psutil_ok w) (wo_process_ticks w));
          conn = connections_of (wo_connections_alive w)
                   (fst (sample_connections U (wo_conn_psutil_ok w) target (wo_connection_ticks w)))
      in \<lparr>ro_returncode = wo_returncode w, ro_avg_cpu = mean (map fst samples), ro_avg_mem = mean (map snd samples),
          ro_peak_cpu = highest (map fst samples), ro_peak_mem = highest (map snd samples),
          ro_measured = (samples \<noteq> []),
          ro_docker_peak = docker_peak (finalize_docker (wo_docker_alive w)
            (sample_docker U (wo_compose w) (wo_docker_ticks w))),
          ro_conn_measured = fst conn, ro_conn_peak = snd conn\<rparr>)"

section \<open>Arguments\<close>

datatype profile = Steps | Organizer

record perf_args =
  pa_profile :: profile
  pa_targets :: "pystr option"
  pa_scenario :: pystr
  pa_duration :: int
  pa_min_duration_for_stable :: int
  pa_rps_per_user :: flt
  pa_spawn_rate :: flt
  pa_max_users :: int
  pa_max_error_rate :: flt
  pa_max_p95_ms :: flt
  pa_max_p99_ms :: flt
  pa_min_achieved_ratio :: flt
  pa_required_concurrent_users :: int
  pa_required_concurrent_connections :: int
  pa_min_peak_ratio :: flt
  pa_max_incomplete_ratio :: flt

definition SUPPORTED_SCENARIOS :: "pystr list" where
  "SUPPORTED_SCENARIOS = map lit [''mask_only'', ''roundtrip'', ''mask_retry'', ''demask_retry'', ''duplicate_payload'',
     ''large_payload'', ''mixed'']"

definition DEFAULT_TARGETS :: pystr where
  "DEFAULT_TARGETS = lit ''100,330,500,1000''"

definition ORGANIZER_DURATION :: int where "ORGANIZER_DURATION = 480"

definition ORGANIZER_TARGET_AVERAGE :: rat where "ORGANIZER_TARGET_AVERAGE = 3309375 / 10000"

definition ORGANIZER_HARD_MAX_USERS :: int where "ORGANIZER_HARD_MAX_USERS = 200"

text \<open>The calls of \<open>parser.error\<close> in \<open>main\<close>, and the choices of \<open>--scenario\<close>\<close>

definition args_error :: "perf_args \<Rightarrow> bool" where
  "args_error a \<longleftrightarrow>
     pa_scenario a \<notin> set SUPPORTED_SCENARIOS
   \<or> pa_duration a \<le> 0 \<or> flt_le (pa_rps_per_user a) (Fin 0) \<or> flt_le (pa_spawn_rate a) (Fin 0)
   \<or> pa_max_users a \<le> 0
   \<or> pa_required_concurrent_users a < 0
   \<or> pa_required_concurrent_connections a < 0
   \<or> \<not> (flt_le (Fin 0) (pa_min_peak_ratio a) \<and> flt_le (pa_min_peak_ratio a) (Fin 1))
   \<or> \<not> (flt_le (Fin 0) (pa_max_incomplete_ratio a) \<and> flt_le (pa_max_incomplete_ratio a) (Fin 1))
   \<or> pa_profile a = Organizer \<and> pa_targets a \<noteq> None
   \<or> pa_profile a = Organizer \<and> pa_max_users a > ORGANIZER_HARD_MAX_USERS"

definition parse_targets :: "ucd \<Rightarrow> pystr \<Rightarrow> exn + flt list" where
  "parse_targets U spec =
     ebind (emap (\<lambda>item. py_float U (str_strip U item))
         (filter (\<lambda>item. str_strip U item \<noteq> []) (split_on 44 spec))) (\<lambda>targets.
       if targets = [] \<or> list_ex (\<lambda>target. flt_le target (Fin 0)) targets then Inl ValueError else Inr targets)"

text \<open>
  \<open>check_health\<close>: the request failed, or it brought a status and a body (\<open>None\<close> when it is no UTF-8).
\<close>

datatype fetched = Fetch_Failed | Fetched int "pystr option"

definition check_health :: "fetched \<Rightarrow> exn + unit" where
  "check_health r =
     (case r of Fetch_Failed \<Rightarrow> Inl (RuntimeError (lit ''readiness check failed''))
      | Fetched status content \<Rightarrow>
          if status \<noteq> 200 then Inl (RuntimeError (lit ''readiness returned HTTP '' @ int_str status))
          else (case Option.bind content loads of
                  None \<Rightarrow> Inl (RuntimeError (lit ''readiness returned a non-JSON body''))
                | Some (VDict d) \<Rightarrow>
                    if dict_get d ''status'' VNone \<noteq> VStr (lit ''ready'')
                    then Inl (RuntimeError (lit ''readiness did not report status=ready'')) else Inr ()
                | Some _ \<Rightarrow> Inl (RuntimeError (lit ''readiness did not report status=ready''))))"

section \<open>The runs and the exit code\<close>

text \<open>
  A run and the call of \<open>build_result\<close> in the loop of \<open>main\<close> and in \<open>_run_organizer\<close>: the stale outputs are
  removed, Locust writes its files over those that are left, and the files are read.  Without authoritative
  statistics the aggregate is the synthetic one and an exit code 0 of Locust becomes 2.
\<close>

definition final_aggregate :: "run_file files \<Rightarrow> int \<Rightarrow> csv_row \<times> int" where
  "final_aggregate fs returncode =
     (case read_authoritative_aggregate (rows_in fs ''final_stats.csv'') of
        Inr row \<Rightarrow> (row, returncode)
      | Inl e \<Rightarrow> (empty_aggregate, if returncode = 0 then 2 else returncode))"

definition gate_of ::
    "ucd \<Rightarrow> perf_args \<Rightarrow> run_outcome \<Rightarrow> run_file files \<Rightarrow> flt \<Rightarrow> int \<Rightarrow> int \<Rightarrow> flt \<Rightarrow> flt option \<Rightarrow> flt \<Rightarrow> gate" where
  "gate_of U a o1 fs target users duration target_peak measured min_elapsed =
     (let history = read_history_metrics U (rows_in fs ''stats_stats_history.csv'');
          if_measured = (\<lambda>x. if ro_measured o1 then Some (Fin x) else None)
      in \<lparr>ga_target_rps = target, ga_users = users, ga_duration_seconds = duration,
         ga_locust_exit_code = snd (final_aggregate fs (ro_returncode o1)), ga_max_error_rate = pa_max_error_rate a,
         ga_max_p95_ms = pa_max_p95_ms a, ga_max_p99_ms = pa_max_p99_ms a,
         ga_min_achieved_ratio = pa_min_achieved_ratio a, ga_scenario = pa_scenario a,
         ga_custom_metrics = read_custom_metrics (json_in fs ''custom_metrics.json''),
         ga_cpu_percent = if_measured (ro_avg_cpu o1), ga_memory_mb = if_measured (ro_avg_mem o1),
         ga_peak_cpu_percent = if_measured (ro_peak_cpu o1), ga_peak_memory_mb = if_measured (ro_peak_mem o1),
         ga_cpu_measured = ro_measured o1, ga_memory_measured = ro_measured o1,
         ga_connections_measured = ro_conn_measured o1, ga_observed_peak_connections = ro_conn_peak o1,
         ga_required_concurrent_connections = pa_required_concurrent_connections a,
         ga_min_duration_for_stable = pa_min_duration_for_stable a,
         ga_observed_max_users = fst history, ga_observed_peak_rps = snd history,
         ga_target_peak_rps = target_peak, ga_required_concurrent_users = pa_required_concurrent_users a,
         ga_min_peak_ratio = pa_min_peak_ratio a, ga_max_incomplete_ratio = pa_max_incomplete_ratio a,
         ga_measured_duration = measured, ga_min_elapsed_duration = min_elapsed\<rparr>)"

definition judge ::
    "ucd \<Rightarrow> perf_args \<Rightarrow> (pystr \<times> int) option \<Rightarrow> run_world \<Rightarrow> flt \<Rightarrow> int \<Rightarrow> int \<Rightarrow> flt \<Rightarrow> flt option \<Rightarrow> flt
      \<Rightarrow> exn + step_result" where
  "judge U a server w target users duration target_peak measured min_elapsed =
     ebind (reset_step_outputs (wo_locked w) (wo_before w)) (\<lambda>kept.
     let fs = AList.merge kept (wo_written w) in
     build_result U (fst (final_aggregate fs (wo_returncode w)))
       (gate_of U a (run_locust U server w) fs target users duration target_peak measured min_elapsed))"

definition step_users :: "perf_args \<Rightarrow> flt \<Rightarrow> exn + int" where
  "step_users a target =
     ebind (flt_ceil (flt_div target (pa_rps_per_user a))) (\<lambda>n. Inr (min (pa_max_users a) (max 1 n)))"

definition run_steps ::
    "ucd \<Rightarrow> perf_args \<Rightarrow> (pystr \<times> int) option \<Rightarrow> (nat \<Rightarrow> run_world) \<Rightarrow> flt list \<Rightarrow> exn + step_result list" where
  "run_steps U a server world targets =
     emap (\<lambda>(i, target). ebind (step_users a target) (\<lambda>users.
         judge U a server (world i) target users (pa_duration a) target None (Fin 0)))
       (enumerate 0 targets)"

definition run_organizer ::
    "ucd \<Rightarrow> perf_args \<Rightarrow> (pystr \<times> int) option \<Rightarrow> run_world \<Rightarrow> exn + step_result" where
  "run_organizer U a server w =
     judge U a server w (Fin ORGANIZER_TARGET_AVERAGE) (pa_max_users a) ORGANIZER_DURATION (Fin 1000)
       (Some (Fin (wo_wall_seconds w))) (Fin 475)"

text \<open>The process ends with an exit code or an exception; \<open>parser.error\<close> exits with 2.\<close>

datatype ending = Exit int | Raised exn

definition perf_main ::
    "ucd \<Rightarrow> perf_args \<Rightarrow> fetched \<Rightarrow> url_parts option \<Rightarrow> (nat \<Rightarrow> run_world) \<Rightarrow> ending" where
  "perf_main U a health host world =
     (if args_error a then Exit 2
      else case check_health health of
        Inl e \<Rightarrow> Raised e
      | Inr _ \<Rightarrow>
          let server = parse_host_port host in
          (case pa_profile a of
             Organizer \<Rightarrow>
               (case run_organizer U a server (world 0) of
                  Inl e \<Rightarrow> Raised e
                | Inr r \<Rightarrow> Exit (if sr_passed r then 0 else 1))
           | Steps \<Rightarrow>
               (case ebind (parse_targets U (case pa_targets a of None \<Rightarrow> DEFAULT_TARGETS
                         | Some spec \<Rightarrow> if spec = [] then DEFAULT_TARGETS else spec))
                       (run_steps U a server world) of
                  Inl e \<Rightarrow> Raised e
                | Inr results \<Rightarrow> Exit (if list_all sr_passed results then 0 else 1))))"

section \<open>What a green run proves\<close>

text \<open>
  A clean run: Locust exited with 0 and wrote, in this run, its final statistics and custom counters, which
  account for every request and every failure in the former, something was masked, in the roundtrip scenario every mask was demasked
  or counted as incomplete, and when a number of connections is required one sample of the process shows that
  many to the target.
\<close>

definition clean_run :: "ucd \<Rightarrow> perf_args \<Rightarrow> (pystr \<times> int) option \<Rightarrow> run_world \<Rightarrow> bool" where
  "clean_run U a server w \<longleftrightarrow>
     wo_returncode w = 0
   \<and> (\<exists>row d. read_authoritative_aggregate (rows_in (wo_written w) ''final_stats.csv'') = Inr row
       \<and> read_custom_metrics (json_in (wo_written w) ''custom_metrics.json'') = Some d
       \<and> ebind (number_of U row ''Request Count'') flt_int
           = Inr (metric d ''http_2xx'' + metric d ''http_429'' + metric d ''http_422'' + metric d ''http_other''
                  + metric d ''transport_errors'')
       \<and> ebind (number_of U row ''Failure Count'') flt_int
           = Inr (metric d ''functional_errors'' + metric d ''transport_errors'')
       \<and> metric d ''http_2xx'' = metric d ''mask_requests'' + metric d ''demask_requests''
       \<and> 0 < metric d ''mask_requests''
       \<and> (pa_scenario a = lit ''roundtrip'' \<longrightarrow>
            metric d ''mask_requests'' = metric d ''demask_requests'' + metric d ''incomplete_roundtrips''))
   \<and> (pa_required_concurrent_connections a = 0
      \<or> (\<exists>tg conns. server = Some tg \<and> Some conns \<in> set (wo_connection_ticks w)
           \<and> pa_required_concurrent_connections a \<le> int (length (filter (counts_for U tg) conns))))"

lemma run_locust_peak:
  assumes "ro_conn_peak (run_locust U server w) = Some peak" and "\<not> flt_less peak (Fin (of_int n))"
  shows "\<exists>tg conns. server = Some tg \<and> Some conns \<in> set (wo_connection_ticks w)
    \<and> n \<le> int (length (filter (counts_for U tg) conns))"
proof -
  let ?c = "connections_of (wo_connections_alive w)
      (fst (sample_connections U (wo_conn_psutil_ok w) server (wo_connection_ticks w)))"
  have "snd ?c = Some peak" using assms(1) by (simp add: run_locust_def Let_def)
  then have "?c = (fst ?c, Some peak)" by (metis prod.collapse)
  from connection_peak_exact [OF this] obtain tg conns where
    "server = Some tg" "Some conns \<in> set (wo_connection_ticks w)"
    "peak = Fin (of_nat (length (filter (counts_for U tg) conns)))" by auto
  moreover from this(3) assms(2) have "n \<le> int (length (filter (counts_for U tg) conns))"
    by (metis flt_less.simps(1) not_less of_int_le_iff of_int_of_nat_eq)
  ultimately show ?thesis by blast
qed

lemma final_ok:
  "snd (final_aggregate fs n) = 0 \<Longrightarrow>
   read_authoritative_aggregate (rows_in fs ''final_stats.csv'') = Inr (fst (final_aggregate fs n)) \<and> n = 0"
  by (auto simp: final_aggregate_def split: sum.splits if_splits)

lemma judged_pass:
  assumes "judge U a server w target users duration target_peak measured min_elapsed = Inr r" and "sr_passed r"
    and "pa_max_error_rate a = Fin e" "e < 100"
  shows "clean_run U a server w"
proof -
  from assms(1) obtain kept where kept: "reset_step_outputs (wo_locked w) (wo_before w) = Inr kept"
    by (auto simp: judge_def ebind_eq_Inr)
  let ?fs = "AList.merge kept (wo_written w)"
  have fresh: "rows_in ?fs ''final_stats.csv'' = rows_in (wo_written w) ''final_stats.csv''"
    "json_in ?fs ''custom_metrics.json'' = json_in (wo_written w) ''custom_metrics.json''"
    by (simp_all add: rows_in_def json_in_def reset_fresh [OF kept] STEP_OUTPUTS_def)
  let ?o = "run_locust U server w"
  let ?g = "gate_of U a ?o ?fs target users duration target_peak measured min_elapsed"
  have b: "build_result U (fst (final_aggregate ?fs (wo_returncode w))) ?g = Inr r"
    using assms(1) kept by (simp add: judge_def Let_def)
  have g: "ga_max_error_rate ?g = Fin e" "ga_scenario ?g = pa_scenario a"
    "ga_custom_metrics ?g = read_custom_metrics (json_in ?fs ''custom_metrics.json'')"
    "ga_required_concurrent_connections ?g = pa_required_concurrent_connections a"
    "ga_observed_peak_connections ?g = ro_conn_peak ?o" "ga_locust_exit_code ?g = snd (final_aggregate ?fs (wo_returncode w))"
    using assms(3) by (simp_all add: gate_of_def Let_def run_locust_def)
  note f = build_result_fields [OF b]
  from assms(2) f have pass: "snd (final_aggregate ?fs (wo_returncode w)) = 0" "\<not> flt_less (Fin e) (sr_error_rate_percent r)"
    "load_violations ?g = []" using g by auto
  from assms(2) f obtain d where d: "ga_custom_metrics ?g = Some d"
    "metrics_violations ?g (sr_requests r) (sr_failures r) d = []" by auto
  have n: "sr_requests r \<noteq> 0" using pass(2) assms(4) f by (auto split: if_splits)
  note m = metrics_violations_Nil [OF n, THEN iffD1, OF d(2)]
  have "pa_required_concurrent_connections a = 0
      \<or> (\<exists>tg conns. server = Some tg \<and> Some conns \<in> set (wo_connection_ticks w)
           \<and> pa_required_concurrent_connections a \<le> int (length (filter (counts_for U tg) conns)))"
    using load_violations_Nil [THEN iffD1, OF pass(3)] g run_locust_peak [of U server w]
    unfolding fully_loaded_def by metis
  then show ?thesis unfolding clean_run_def using final_ok [OF pass(1)] d(1) g m f(1,2) unfolding fresh by auto
qed

lemma enumerate_steps:
  assumes "emap f (enumerate k xs) = Inr ys" and "i < length xs"
  shows "i < length ys \<and> f (k + i, xs ! i) = Inr (ys ! i)"
  using assms
proof (induction xs arbitrary: k ys i)
  case (Cons x xs)
  then show ?case by (cases i) (fastforce simp: ebind_eq_Inr)+
qed simp

text \<open>
  C35: What exit code 0 of the steps profile proves (safety).  With a limit below 100 percent on errors there
  was at least one target, and the run of every target was clean, whatever files were found before it:
  Locust exited with 0, the final statistics and the custom counters that were judged were written in this
  very run, every request and failure is accounted for by the custom counters, masks were made,
  in the roundtrip scenario each was demasked or counted as incomplete, and a required number of
  connections to the target was seen in one sample.
\<close>

theorem runner_green:
  assumes "perf_main U a health host world = Exit 0" and "pa_profile a = Steps"
    and "pa_max_error_rate a = Fin e" "e < 100"
  shows "\<exists>targets. parse_targets U (case pa_targets a of None \<Rightarrow> DEFAULT_TARGETS
             | Some spec \<Rightarrow> if spec = [] then DEFAULT_TARGETS else spec) = Inr targets
     \<and> targets \<noteq> []
     \<and> (\<forall>i < length targets. clean_run U a (parse_host_port host) (world i))"
proof -
  from assms(1,2) obtain targets results where ok: "\<not> args_error a"
    and t: "parse_targets U (case pa_targets a of None \<Rightarrow> DEFAULT_TARGETS
       | Some spec \<Rightarrow> if spec = [] then DEFAULT_TARGETS else spec) = Inr targets"
    and r: "run_steps U a (parse_host_port host) world targets = Inr results" "list_all sr_passed results"
    by (auto simp: perf_main_def Let_def ebind_eq_Inr split: if_splits sum.splits)
  have "clean_run U a (parse_host_port host) (world i)" if i: "i < length targets" for i
  proof -
    from enumerate_steps [OF r(1) [unfolded run_steps_def] i] obtain users where
      j: "judge U a (parse_host_port host) (world i) (targets ! i) users (pa_duration a) (targets ! i) None (Fin 0)
        = Inr (results ! i)" and l: "i < length results" by (auto simp: ebind_eq_Inr)
    from r(2) l have "sr_passed (results ! i)" by (simp add: list_all_length)
    from judged_pass [OF j this assms(3,4)] show ?thesis .
  qed
  moreover from t have "targets \<noteq> []" by (auto simp: parse_targets_def ebind_eq_Inr split: if_splits)
  ultimately show ?thesis using t by blast
qed

end
