(* ===== verification/PerfReport.thy ===== *)
theory PerfReport
  imports PerfSampling
begin

text \<open>
  What \<open>scripts/run_performance.py\<close> puts into its report besides the verdicts: the run parameters taken from
  the command line, with redacted addresses, the declared configuration of the server, and the percentiles
  read from the histograms of the service.
\<close>

section \<open>Redaction\<close>

text \<open>\<open>s.partition(sep)\<close> with a longer separator, \<open>s.rsplit(c, 1)[1]\<close> and \<open>s.split(c, 1)[0]\<close>\<close>

fun split_at :: "pystr \<Rightarrow> pystr \<Rightarrow> (pystr \<times> pystr) option" where
  "split_at sep [] = (if sep = [] then Some ([], []) else None)"
| "split_at sep (c # cs) =
     (if prefix sep (c # cs) then Some ([], drop (length sep) (c # cs))
      else map_option (\<lambda>(a, b). (c # a, b)) (split_at sep cs))"

definition after_last :: "codepoint \<Rightarrow> pystr \<Rightarrow> pystr" where
  "after_last c s = rev (takeWhile (\<lambda>x. x \<noteq> c) (rev s))"

definition before_first :: "codepoint \<Rightarrow> pystr \<Rightarrow> pystr" where
  "before_first c s = takeWhile (\<lambda>x. x \<noteq> c) s"

text \<open>Code points: 64 is \<open>@\<close>, 63 is \<open>?\<close>, 35 is \<open>#\<close>.\<close>

definition redact_url :: "pystr \<Rightarrow> pystr" where
  "redact_url url =
     (case split_at (lit ''://'') url of None \<Rightarrow> url
      | Some (scheme, rest) \<Rightarrow> scheme @ lit ''://'' @ (if 64 \<in> set rest then after_last 64 rest else rest))"

definition redact_host :: "pystr \<Rightarrow> pystr" where
  "redact_host url =
     (case split_at (lit ''://'') url of None \<Rightarrow> url
      | Some (scheme, rest) \<Rightarrow>
          let r1 = (if 64 \<in> set rest then after_last 64 rest else rest);
              r2 = (if 63 \<in> set r1 then before_first 63 r1 else r1);
              r3 = (if 35 \<in> set r2 then before_first 35 r2 else r2)
          in scheme @ lit ''://'' @ r3)"

definition SAFE_FLAGS :: "pystr list" where
  "SAFE_FLAGS = map lit [''--profile'', ''--scenario'', ''--targets'', ''--duration'', ''--max-users'', ''--rps-per-user'',
     ''--spawn-rate'', ''--required-concurrent-users'', ''--required-concurrent-connections'', ''--min-peak-ratio'',
     ''--max-error-rate'', ''--max-p95-ms'', ''--max-p99-ms'', ''--min-achieved-ratio'', ''--max-incomplete-ratio'']"

text \<open>\<open>arg.lstrip("-").replace("-", "_")\<close>\<close>

definition param_name :: "pystr \<Rightarrow> pystr" where
  "param_name arg = str_replace (lit ''-'') (lit ''_'') (dropWhile (\<lambda>c. c = 45) arg)"

type_synonym params = "(pystr \<times> pystr) list"

fun scan_params :: "params \<Rightarrow> pystr list \<Rightarrow> params" where
  "scan_params ps [] = ps"
| "scan_params ps (arg # rest) =
     (if arg = lit ''--host'' \<and> rest \<noteq> []
      then scan_params (AList.update (lit ''host'') (redact_host (hd rest)) ps) (tl rest)
      else if prefix (lit ''--host='') arg
      then scan_params (AList.update (lit ''host'') (redact_host (drop 1 (dropWhile (\<lambda>c. c \<noteq> 61) arg))) ps) rest
      else if arg \<in> set SAFE_FLAGS \<and> rest \<noteq> []
      then scan_params (AList.update (param_name arg) (hd rest) ps) (tl rest)
      else scan_params ps rest)"

definition run_parameters :: "pystr list \<Rightarrow> params" where
  "run_parameters argv = scan_params [] argv"

section \<open>The declared server configuration\<close>

record server_config =
  sc_source :: pystr
  sc_backend :: "pystr option"
  sc_workers :: "int option"
  sc_logging :: "pystr option"

definition default_server :: server_config where
  "default_server = \<lparr>sc_source = lit ''operator_declared_unverified'', sc_backend = None, sc_workers = None,
     sc_logging = None\<rparr>"

definition config_item :: "ucd \<Rightarrow> server_config \<Rightarrow> pystr \<Rightarrow> server_config" where
  "config_item U server raw =
     (let item = str_strip U raw in
      if item = [] \<or> 61 \<notin> set item then server
      else let (k, _, v) = str_partition 61 item; key = str_strip U k; value = str_strip U v in
           if key = lit ''backend'' \<and> value \<in> {lit ''memory'', lit ''redis''} then server\<lparr>sc_backend := Some value\<rparr>
           else if key = lit ''workers'' then
             (case int_word U value of None \<Rightarrow> server
              | Some workers \<Rightarrow> if workers \<ge> 1 then server\<lparr>sc_workers := Some workers\<rparr> else server)
           else if key = lit ''logging''
                 \<and> value \<in> set (map lit [''quiet'', ''info'', ''debug'', ''warning'', ''error''])
           then server\<lparr>sc_logging := Some value\<rparr>
           else server)"

definition apply_server_config :: "ucd \<Rightarrow> server_config \<Rightarrow> pystr option \<Rightarrow> server_config" where
  "apply_server_config U server config =
     (case config of
        None \<Rightarrow> server
      | Some s \<Rightarrow> if s = [] then server
                  else (foldl (config_item U) server (split_on 44 s))
                    \<lparr>sc_source := lit ''operator_declared_unverified''\<rparr>)"

section \<open>Stage timings\<close>

definition extract_label :: "pystr \<Rightarrow> pystr \<Rightarrow> pystr option" where
  "extract_label line label =
     (case split_at (label @ [61, 34]) line of None \<Rightarrow> None
      | Some (_, rest) \<Rightarrow> if 34 \<in> set rest then Some (before_first 34 rest) else None)"

text \<open>Buckets by upper bound; the values of a histogram are cumulative already.\<close>

type_synonym hist_buckets = "(flt \<times> int) list"

text \<open>\<open>sorted(d)\<close> for keys that compare, and \<open>max(d, default=0.0)\<close>\<close>

fun flt_insert :: "flt \<Rightarrow> flt list \<Rightarrow> flt list" where
  "flt_insert x [] = [x]"
| "flt_insert x (y # ys) = (if flt_less y x then y # flt_insert x ys else x # y # ys)"

definition flt_sort :: "flt list \<Rightarrow> flt list" where
  "flt_sort xs = foldr flt_insert xs []"

definition flt_maximum :: "flt list \<Rightarrow> flt" where
  "flt_maximum xs = (case xs of [] \<Rightarrow> Fin 0 | x # ys \<Rightarrow> foldl flt_max x ys)"

definition hist_percentile :: "hist_buckets \<Rightarrow> int \<Rightarrow> rat \<Rightarrow> flt" where
  "hist_percentile bs count p =
     (case find (\<lambda>le. of_int (the (map_of bs le)) \<ge> of_int count * p) (flt_sort (map fst bs)) of
        Some le \<Rightarrow> le
      | None \<Rightarrow> flt_maximum (map fst bs))"

text \<open>The dictionaries that the loop over the lines fills\<close>

record timings =
  ti_buckets :: "(pystr \<times> hist_buckets) list"
  ti_counts :: "(pystr \<times> int) list"
  ti_sums :: "(pystr \<times> flt) list"
  ti_maxima :: "(pystr \<times> flt) list"

text \<open>\<open>d[k] = v\<close> with a float key: the value that is no number never equals a key that is there.\<close>

definition bucket_update :: "flt \<Rightarrow> int \<Rightarrow> hist_buckets \<Rightarrow> hist_buckets" where
  "bucket_update k v d = (if k = NaN then d @ [(k, v)] else AList.update k v d)"

text \<open>
  \<open>with suppress(ValueError, IndexError)\<close>: the state keeps what was stored before the exception; any
  other exception goes on.
\<close>

definition suppress :: "timings \<times> exn option \<Rightarrow> exn + timings" where
  "suppress r = (case r of (t, None) \<Rightarrow> Inr t
     | (t, Some e) \<Rightarrow> if e = ValueError \<or> e = IndexError then Inr t else Inl e)"

text \<open>\<open>float(line.rsplit(" ", 1)[1])\<close>\<close>

definition last_number :: "ucd \<Rightarrow> pystr \<Rightarrow> exn + flt" where
  "last_number U line = (if 32 \<in> set line then py_float U (after_last 32 line) else Inl IndexError)"

definition store_number :: "exn + 'v \<Rightarrow> ('v \<Rightarrow> timings) \<Rightarrow> timings \<Rightarrow> exn + timings" where
  "store_number r f t = suppress (case r of Inl e \<Rightarrow> (t, Some e) | Inr v \<Rightarrow> (f v, None))"

text \<open>A bucket line: the entry of the stage exists before its bound is read.\<close>

definition store_bucket :: "ucd \<Rightarrow> pystr \<Rightarrow> pystr \<Rightarrow> pystr \<Rightarrow> timings \<Rightarrow> exn + timings" where
  "store_bucket U line stage le t =
     suppress (case ebind (last_number U line) flt_int of
        Inl e \<Rightarrow> (t, Some e)
      | Inr n \<Rightarrow>
          let d = (case map_of (ti_buckets t) stage of None \<Rightarrow> [] | Some d \<Rightarrow> d) in
          (case py_float U le of
             Inl e \<Rightarrow> (t\<lparr>ti_buckets := AList.update stage d (ti_buckets t)\<rparr>, Some e)
           | Inr k \<Rightarrow> (t\<lparr>ti_buckets := AList.update stage (bucket_update k n d) (ti_buckets t)\<rparr>, None)))"

definition metric_line :: "ucd \<Rightarrow> timings \<Rightarrow> pystr \<Rightarrow> exn + timings" where
  "metric_line U t line =
     (let stage = extract_label line (lit ''stage'') in
      if prefix (lit ''pii_proxy_stage_max_seconds{'') line then
        (case stage of None \<Rightarrow> Inr t
         | Some st \<Rightarrow> store_number (last_number U line) (\<lambda>x. t\<lparr>ti_maxima := AList.update st x (ti_maxima t)\<rparr>) t)
      else if \<not> prefix (lit ''pii_proxy_stage_duration_seconds_'') line then Inr t
      else if str_in (lit ''_bucket{'') line then
        (case (stage, extract_label line (lit ''le'')) of
           (Some st, Some le) \<Rightarrow> store_bucket U line st le t
         | _ \<Rightarrow> Inr t)
      else if str_in (lit ''_count{'') line then
        (case stage of None \<Rightarrow> Inr t
         | Some st \<Rightarrow> store_number (ebind (last_number U line) flt_int)
             (\<lambda>n. t\<lparr>ti_counts := AList.update st n (ti_counts t)\<rparr>) t)
      else if str_in (lit ''_sum{'') line then
        (case stage of None \<Rightarrow> Inr t
         | Some st \<Rightarrow> store_number (last_number U line) (\<lambda>x. t\<lparr>ti_sums := AList.update st x (ti_sums t)\<rparr>) t)
      else Inr t)"

datatype stage_report =
  Idle
| Timed int flt flt flt flt "flt option"

definition stage_report_of :: "timings \<Rightarrow> pystr \<times> hist_buckets \<Rightarrow> pystr \<times> stage_report" where
  "stage_report_of t sb =
     (let (stage, bs) = sb; count = (case map_of (ti_counts t) stage of None \<Rightarrow> 0 | Some n \<Rightarrow> n) in
      if count = 0 then (stage, Idle)
      else let sum = (case map_of (ti_sums t) stage of None \<Rightarrow> Fin 0 | Some x \<Rightarrow> x)
           in (stage, Timed count (flt_div sum (Fin (of_int count))) (hist_percentile bs count (1 / 2))
                (hist_percentile bs count (95 / 100)) (hist_percentile bs count (99 / 100))
                (map_of (ti_maxima t) stage)))"

text \<open>\<open>collect_stage_timings\<close>: nothing when the metrics cannot be fetched.\<close>

definition collect_stage_timings :: "ucd \<Rightarrow> pystr option \<Rightarrow> exn + (pystr \<times> stage_report) list" where
  "collect_stage_timings U content =
     (case content of None \<Rightarrow> Inr []
      | Some txt \<Rightarrow>
          ebind (efold (metric_line U) \<lparr>ti_buckets = [], ti_counts = [], ti_sums = [], ti_maxima = []\<rparr> (splitlines txt))
            (\<lambda>t. Inr (map (stage_report_of t) (ti_buckets t))))"

section \<open>What a report can hold\<close>

lemma set_after_last: "x \<in> set (after_last c s) \<Longrightarrow> x \<noteq> c"
  by (auto simp: after_last_def dest: set_takeWhileD)

lemma set_before_first: "x \<in> set (before_first c s) \<Longrightarrow> x \<noteq> c \<and> x \<in> set s"
  by (auto simp: before_first_def dest: set_takeWhileD)

text \<open>Behind the scheme a redacted address has no user part, no query and no fragment.\<close>

lemma redact_host_clean:
  assumes "split_at (lit ''://'') url = Some (scheme, rest)"
  shows "\<exists>r. redact_host url = scheme @ lit ''://'' @ r \<and> set r \<inter> {64, 63, 35} = {}"
  using assms by (auto simp: redact_host_def Let_def dest!: set_after_last set_before_first)

text \<open>
  An entry of the run parameters is a redacted host or the argument that follows a flag of the list, under
  the name of that flag.
\<close>

definition param_ok :: "pystr list \<Rightarrow> pystr \<times> pystr \<Rightarrow> bool" where
  "param_ok argv kv \<longleftrightarrow>
     (fst kv = lit ''host'' \<and> (\<exists>url. snd kv = redact_host url
        \<and> (split_at (lit ''://'') url = None
           \<or> (\<exists>scheme r. snd kv = scheme @ lit ''://'' @ r \<and> set r \<inter> {64, 63, 35} = {}))))
   \<or> (\<exists>flag xs ys. flag \<in> set SAFE_FLAGS \<and> fst kv = param_name flag \<and> argv = xs @ flag # snd kv # ys)"

lemma param_ok_host: "param_ok argv (lit ''host'', redact_host url)"
proof (cases "split_at (lit ''://'') url")
  case None
  then show ?thesis by (auto simp: param_ok_def)
next
  case (Some sr)
  then obtain scheme rest where "split_at (lit ''://'') url = Some (scheme, rest)" by (cases sr) auto
  from redact_host_clean [OF this] show ?thesis unfolding param_ok_def by auto
qed

lemma param_ok_flag: "flag \<in> set SAFE_FLAGS \<Longrightarrow> param_ok (xs @ flag # v # ys) (param_name flag, v)"
  unfolding param_ok_def fst_conv snd_conv
  by (intro disjI2 exI [of _ flag] exI [of _ xs] exI [of _ ys]) simp

lemma set_update_entry: "kv \<in> set (AList.update k v d) \<Longrightarrow> kv = (k, v) \<or> kv \<in> set d"
  by (induction d) (auto split: if_splits)

lemma scan_params_ok:
  assumes "\<And>kv. kv \<in> set ps \<Longrightarrow> param_ok argv kv" and "argv = seen @ todo" and "kv \<in> set (scan_params ps todo)"
  shows "param_ok argv kv"
  using assms
proof (induction ps todo arbitrary: seen rule: scan_params.induct)
  case (2 ps arg rest)
  consider (host) "arg = lit ''--host'' \<and> rest \<noteq> []" | (eq) "\<not> (arg = lit ''--host'' \<and> rest \<noteq> [])" "prefix (lit ''--host='') arg"
    | (flag) "\<not> (arg = lit ''--host'' \<and> rest \<noteq> [])" "\<not> prefix (lit ''--host='') arg" "arg \<in> set SAFE_FLAGS \<and> rest \<noteq> []"
    | (other) "\<not> (arg = lit ''--host'' \<and> rest \<noteq> [])" "\<not> prefix (lit ''--host='') arg" "\<not> (arg \<in> set SAFE_FLAGS \<and> rest \<noteq> [])"
    by blast
  then show ?case
  proof cases
    case host
    from host have "argv = (seen @ [arg, hd rest]) @ tl rest" using "2.prems"(2) by (cases rest) auto
    with "2.IH"(1) [OF host _ this] "2.prems"(1,3) host show ?thesis
      by (auto simp del: AList.update.simps dest!: set_update_entry intro: param_ok_host)
  next
    case eq
    have "argv = (seen @ [arg]) @ rest" using "2.prems"(2) by simp
    with "2.IH"(2) [OF eq _ this] "2.prems"(1,3) eq show ?thesis
      by (auto simp del: AList.update.simps dest!: set_update_entry intro: param_ok_host)
  next
    case flag
    have a: "argv = (seen @ [arg, hd rest]) @ tl rest" "argv = seen @ arg # hd rest # tl rest"
      using "2.prems"(2) flag by (cases rest; simp)+
    have "param_ok argv (param_name arg, hd rest)" using flag param_ok_flag a(2) by metis
    with "2.IH"(3) [OF flag _ a(1)] "2.prems"(1,3) flag show ?thesis
      by (auto simp del: AList.update.simps dest!: set_update_entry)
  next
    case other
    have "argv = (seen @ [arg]) @ rest" using "2.prems"(2) by simp
    with "2.IH"(4) [OF other _ this] "2.prems"(1,3) other show ?thesis by auto
  qed
qed simp

definition server_ok :: "server_config \<Rightarrow> bool" where
  "server_ok c \<longleftrightarrow> sc_source c = lit ''operator_declared_unverified''
     \<and> sc_backend c \<in> {None, Some (lit ''memory''), Some (lit ''redis'')}
     \<and> (sc_workers c = None \<or> (\<exists>n. sc_workers c = Some n \<and> 1 \<le> n))
     \<and> sc_logging c \<in> {None} \<union> Some ` set (map lit [''quiet'', ''info'', ''debug'', ''warning'', ''error''])"

lemma config_item_ok: "server_ok c \<Longrightarrow> server_ok (config_item U c item)"
  by (auto simp: config_item_def server_ok_def Let_def split: option.splits prod.splits)

lemma server_config_ok: "server_ok (apply_server_config U default_server config)"
proof -
  have d: "server_ok default_server" by (simp add: server_ok_def default_server_def)
  then have "server_ok (foldl (config_item U) default_server xs)" for xs
    by (rule foldl_invariant) (rule config_item_ok)
  with d show ?thesis
    by (auto simp: apply_server_config_def server_ok_def split: option.splits)
qed

text \<open>
  C36: What a report can hold (type).  Whatever the command line is, every recorded run parameter is either
  the redacted form of a host address, without user part, query and fragment when it has a scheme, or the
  argument that follows a flag of the fixed list, under that flag's name; and whatever configuration the
  operator declares, the recorded one has a known backend and log level, a positive number of workers, and
  the mark that it was not verified.
\<close>

theorem report_fields_typed:
  "set (run_parameters argv) \<subseteq> Collect (param_ok argv) \<and> server_ok (apply_server_config U default_server config)"
  using scan_params_ok [of "[]" argv "[]" argv] server_config_ok by (auto simp: run_parameters_def)

section \<open>Percentiles\<close>

lemma set_flt_insert [simp]: "set (flt_insert x ys) = insert x (set ys)"
  by (induction ys) auto

lemma set_flt_sort [simp]: "set (flt_sort xs) = set xs"
  by (induction xs) (auto simp: flt_sort_def)

text \<open>A list of comparable floats in order: nothing is less than what stands before it.\<close>

abbreviation in_order :: "flt list \<Rightarrow> bool" where
  "in_order \<equiv> sorted_wrt (\<lambda>x y. \<not> flt_less y x)"

lemma in_order_insert: "in_order ys \<Longrightarrow> NaN \<notin> insert x (set ys) \<Longrightarrow> in_order (flt_insert x ys)"
proof (induction ys)
  case (Cons y ys)
  show ?case
  proof (cases "flt_less y x")
    case True
    with Cons have "in_order (flt_insert x ys)" by simp
    with Cons.prems True show ?thesis by (auto dest: flt_less_trans [of _ y])
  next
    case False
    have "\<not> flt_less z x" if "z \<in> set ys" for z
      using that Cons.prems False flt_not_less_trans [of z y x] by auto
    with Cons.prems False show ?thesis by auto
  qed
qed simp

lemma flt_sort_simps [simp]: "flt_sort [] = []" "flt_sort (x # xs) = flt_insert x (flt_sort xs)"
  by (simp_all add: flt_sort_def)

lemma in_order_sort: "NaN \<notin> set xs \<Longrightarrow> in_order (flt_sort xs)"
  by (induction xs) (simp_all add: in_order_insert)

lemma find_SomeD: "find P xs = Some x \<Longrightarrow> x \<in> set xs \<and> P x"
  by (induction xs) (auto split: if_splits)

lemma find_in_order:
  assumes "find P xs = Some x" and "in_order xs" and "y \<in> set xs" and "flt_less y x"
  shows "\<not> P y"
  using assms by (induction xs) (auto split: if_splits)

text \<open>The observations that a cumulative bucket counts\<close>

definition obs_covered :: "rat list \<Rightarrow> flt \<Rightarrow> nat" where
  "obs_covered obs le = length (filter (\<lambda>x. \<not> flt_less le (Fin x)) obs)"

text \<open>
  The percentile of a histogram: when the buckets count the observations up to their bounds and the last
  bound is infinite, the estimate is the least bound under which at least the share \<open>p\<close> of them lies.
\<close>

lemma hist_percentile_least:
  assumes "map_of bs = map_of (map (\<lambda>le. (le, int (obs_covered obs le))) bounds)"
    and "Infty False \<in> set bounds" "NaN \<notin> set bounds" "p \<le> 1"
  shows "hist_percentile bs (int (length obs)) p \<in> set bounds
    \<and> p * of_nat (length obs) \<le> of_nat (obs_covered obs (hist_percentile bs (int (length obs)) p))
    \<and> (\<forall>le \<in> set bounds. flt_less le (hist_percentile bs (int (length obs)) p)
         \<longrightarrow> of_nat (obs_covered obs le) < p * of_nat (length obs))"
proof -
  let ?target = "of_int (int (length obs)) * p"
  let ?P = "\<lambda>le. of_int (the (map_of bs le)) \<ge> ?target"
  have keys: "set (map fst bs) = set bounds"
  proof -
    have "dom (map_of bs) = dom (map_of (map (\<lambda>le. (le, int (obs_covered obs le))) bounds))" using assms(1) by simp
    then show ?thesis by (simp add: dom_map_of_conv_image_fst image_image)
  qed
  have P: "?P le \<longleftrightarrow> p * of_nat (length obs) \<le> of_nat (obs_covered obs le)" if "le \<in> set bounds" for le
    using that by (simp add: assms(1) map_of_map_restrict mult.commute)
  have "?P (Infty False)" using assms(2,4) P [OF assms(2)] mult_right_mono [OF assms(4), of "of_nat (length obs)"]
    by (simp add: obs_covered_def)
  then have "find ?P (flt_sort (map fst bs)) \<noteq> None"
    using assms(2) keys by (auto simp: find_None_iff)
  then obtain r where r: "find ?P (flt_sort (map fst bs)) = Some r" by blast
  then have "r \<in> set bounds" "?P r" using keys find_SomeD [OF r] by auto
  moreover have "of_nat (obs_covered obs le) < p * of_nat (length obs)" if "le \<in> set bounds" "flt_less le r" for le
    using find_in_order [OF r in_order_sort _ that(2)] P [OF that(1)] that(1) keys assms(3) not_le by auto
  moreover have "hist_percentile bs (int (length obs)) p = r" using r by (simp add: hist_percentile_def)
  ultimately show ?thesis using P by simp
qed

text \<open>Ten observations in the buckets 1, 5 and infinity; the median is in the second.\<close>

lemma hist_percentile_example:
  "hist_percentile [(Fin 1, 2), (Fin 5, 7), (Infty False, 10)] 10 (1 / 2) = Fin 5
   \<and> flt_less (Fin 1) (Fin 5) \<and> (2::rat) < 1 / 2 * 10"
proof -
  let ?obs = "[1, 1, 2, 2, 3, 4, 5, 6, 7, 8] :: rat list" and ?b = "[Fin 1, Fin 5, Infty False]"
  have m: "map_of [(Fin 1, 2), (Fin 5, 7), (Infty False, 10)] = map_of (map (\<lambda>le. (le, int (obs_covered ?obs le))) ?b)"
    by (simp add: obs_covered_def)
  from hist_percentile_least [OF m, of "1 / 2"]
  have "hist_percentile [(Fin 1, 2), (Fin 5, 7), (Infty False, 10)] 10 (1 / 2) \<noteq> Fin 1"
    "hist_percentile [(Fin 1, 2), (Fin 5, 7), (Infty False, 10)] 10 (1 / 2) \<noteq> Infty False"
    "hist_percentile [(Fin 1, 2), (Fin 5, 7), (Infty False, 10)] 10 (1 / 2) \<in> set ?b"
    by (auto simp: obs_covered_def)
  then show ?thesis by auto
qed

end
