(* ===== verification/PyFormat.thy ===== *)
theory PyFormat
  imports PyFloat Json
begin

text \<open>
  The format specifications of f-strings that the reports use: \<open>:.nf\<close> and \<open>:.n%\<close> on floats, rounding half
  to even on the exact value, and \<open>:<n\<close> and \<open>:>n\<close> on strings.
\<close>

section \<open>Fixed-point notation\<close>

definition decimals :: "nat \<Rightarrow> nat \<Rightarrow> pystr" where
  "decimals d n =
     (let s = nat_str n; t = replicate (d + 1 - length s) 48 @ s; k = length t - d
      in if d = 0 then s else take k t @ [46] @ drop k t)"

fun fixed :: "nat \<Rightarrow> flt \<Rightarrow> pystr" where
  "fixed d (Fin x) = (if x < 0 then [45] else []) @ decimals d (nat (round_half_even (\<bar>x\<bar> * 10 ^ d)))"
| "fixed d (Infty neg) = (if neg then [45] else []) @ lit ''inf''"
| "fixed d NaN = lit ''nan''"

definition percent :: "nat \<Rightarrow> flt \<Rightarrow> pystr" where
  "percent d x = fixed d (flt_mult x (Fin 100)) @ lit ''%''"

section \<open>Padding\<close>

definition ljust :: "nat \<Rightarrow> pystr \<Rightarrow> pystr" where
  "ljust n s = s @ replicate (n - length s) 32"

definition rjust :: "nat \<Rightarrow> pystr \<Rightarrow> pystr" where
  "rjust n s = replicate (n - length s) 32 @ s"

section \<open>The characters of a printed number\<close>

definition number_chars :: "codepoint set" where
  "number_chars = {48..57} \<union> set (lit ''+-.infa%'')"

lemma nat_str_chars: "set (nat_str n) \<subseteq> {48..57}"
  by (induction n rule: nat_str.induct) (subst nat_str.simps, auto)

lemma digit_chars: "{48..57} \<subseteq> number_chars"
  by (auto simp: number_chars_def)

lemma decimals_chars: "set (decimals d n) \<subseteq> number_chars"
proof -
  have "set (replicate k 48 @ nat_str n) \<subseteq> number_chars" for k
    using nat_str_chars digit_chars by fastforce
  then have "set (take i (replicate k 48 @ nat_str n)) \<subseteq> number_chars" "set (drop i (replicate k 48 @ nat_str n)) \<subseteq> number_chars"
    for i k using set_take_subset set_drop_subset by (meson subset_trans)+
  moreover have "set (nat_str n) \<subseteq> number_chars" using nat_str_chars digit_chars by blast
  moreover have "46 \<in> number_chars" by (simp add: number_chars_def lit_def)
  ultimately show ?thesis by (simp add: decimals_def Let_def)
qed

lemma fixed_chars: "set (fixed d x) \<subseteq> number_chars"
proof (cases x)
  case (Fin a)
  then show ?thesis using decimals_chars by (auto simp: number_chars_def lit_def)
qed (auto simp: number_chars_def lit_def)

lemma int_str_chars: "set (int_str i) \<subseteq> number_chars"
proof -
  have "set (nat_str n) \<subseteq> number_chars" for n using nat_str_chars digit_chars by blast
  then show ?thesis by (auto simp: int_str_def number_chars_def lit_def)
qed

lemma percent_chars: "set (percent d x) \<subseteq> number_chars"
  using fixed_chars [of d "flt_mult x (Fin 100)"] by (auto simp: percent_def number_chars_def lit_def)

end
