(* ===== verification/PerfOutput.thy ===== *)
theory PerfOutput
  imports PerfRun PerfReport PyFormat
begin

text \<open>
  What \<open>scripts/run_performance.py\<close> writes: the sentences of the violations, \<open>summary.md\<close>, the values of
  \<open>summary.json\<close>, the command lines of Locust and the recorded environment.
  The text of a float in JSON, the time stamp and the facts about the host are arguments.
\<close>

section \<open>Violations\<close>

text \<open>The representation of a list of keys, which hold no quotes and no backslashes\<close>

definition keys_repr :: "pystr list \<Rightarrow> pystr" where
  "keys_repr ks = lit ''['' @ str_join (lit '', '') (map (\<lambda>k. [39] @ k @ [39]) ks) @ lit '']''"

fun violation_text :: "gate_violation \<Rightarrow> pystr" where
  "violation_text (Locust_Exit_Code c) = lit ''locust exit code '' @ int_str c"
| "violation_text (Error_Rate r m) = lit ''error rate '' @ fixed 2 r @ lit ''% > '' @ fixed 2 m @ lit ''%''"
| "violation_text (P95_Latency p m) = lit ''p95 '' @ fixed 1 p @ lit ''ms > '' @ fixed 1 m @ lit ''ms''"
| "violation_text (P99_Latency p m) = lit ''p99 '' @ fixed 1 p @ lit ''ms > '' @ fixed 1 m @ lit ''ms''"
| "violation_text (Achieved_Ratio r m) = lit ''achieved ratio '' @ fixed 3 r @ lit '' < '' @ fixed 3 m"
| "violation_text Metrics_Missing = lit ''custom metrics missing or unparseable''"
| "violation_text (Keys_Missing ks) = lit ''custom metrics missing required keys: '' @ keys_repr ks"
| "violation_text (Http_Total_Mismatch t n) =
     lit ''counter mismatch: custom http total '' @ int_str t @ lit '' != locust request count '' @ int_str n"
| "violation_text (Mask_Demask_Mismatch m h) =
     lit ''counter mismatch: mask+demask '' @ int_str m @ lit '' != http_2xx '' @ int_str h"
| "violation_text (Failure_Mismatch f c) =
     lit ''counter mismatch: locust failure count '' @ int_str f
     @ lit '' != custom functional+transport errors '' @ int_str c"
| "violation_text No_Success = lit ''no successful 2xx responses: all requests were 429/errors''"
| "violation_text No_Mask = lit ''no successful mask operations recorded''"
| "violation_text Roundtrip_Empty = lit ''roundtrip: no MASK or DEMASK operations recorded''"
| "violation_text (Roundtrip_Mismatch m d i) =
     lit ''roundtrip reconciliation: MASK '' @ int_str m @ lit '' != DEMASK '' @ int_str d
     @ lit '' + incomplete '' @ int_str i"
| "violation_text (Roundtrip_Incomplete i share m) =
     lit ''roundtrip incomplete pairs '' @ int_str i @ lit '' > '' @ percent 0 share @ lit '' of MASK '' @ int_str m"
| "violation_text (Max_Users u r) = lit ''observed max users '' @ fixed 0 u @ lit '' < required '' @ int_str r"
| "violation_text (Peak_Rps p t m) =
     lit ''observed peak RPS '' @ fixed 1 p @ lit '' < target peak '' @ fixed 0 t @ lit '' * '' @ fixed 2 m"
| "violation_text Connections_Unavailable =
     lit ''required concurrent connections gate cannot be verified: connection sampling unavailable''"
| "violation_text (Peak_Connections p r) =
     lit ''observed peak connections '' @ fixed 0 p @ lit '' < required '' @ int_str r"
| "violation_text (Duration_Unstable d m) =
     lit ''duration '' @ int_str d @ lit ''s < '' @ int_str m @ lit ''s: percentiles are not stable''"
| "violation_text (Elapsed_Short t m) =
     lit ''measured elapsed '' @ fixed 1 t @ lit ''s < required '' @ fixed 1 m
     @ lit ''s: run too short to be a valid throughput measurement''"

section \<open>The Markdown report\<close>

definition or_na :: "nat \<Rightarrow> flt option \<Rightarrow> pystr" where
  "or_na d x = (case x of None \<Rightarrow> lit ''n/a'' | Some v \<Rightarrow> fixed d v)"

definition result_status :: "step_result \<Rightarrow> pystr" where
  "result_status r =
     (if sr_passed r then lit ''PASS''
      else lit ''FAIL: '' @ str_join (lit ''; '') (map violation_text (sr_violations r)))"

definition table_row :: "pystr list \<Rightarrow> pystr" where
  "table_row cells = lit ''| '' @ str_join (lit '' | '') cells @ lit '' |''"

text \<open>The cells of a line of the main table, in the order of the f-string\<close>

definition result_cells :: "step_result \<Rightarrow> pystr list" where
  "result_cells r =
     [fixed 0 (sr_target_rps r), fixed 1 (sr_achieved_rps r), fixed 2 (sr_achieved_ratio r),
      fixed 1 (sr_avg_ms r) @ lit '' ms'', fixed 1 (sr_p50_ms r) @ lit '' ms'', fixed 1 (sr_p95_ms r) @ lit '' ms'',
      fixed 1 (sr_p99_ms r) @ lit '' ms'', int_str (sr_mask_requests r), int_str (sr_demask_requests r),
      int_str (sr_incomplete_roundtrips r), int_str (sr_http_2xx r), int_str (sr_http_429 r), int_str (sr_http_422 r),
      int_str (sr_http_other r), int_str (sr_functional_errors r), int_str (sr_transport_errors r),
      or_na 1 (sr_cpu_percent r), or_na 1 (sr_memory_mb r), or_na 1 (sr_peak_cpu_percent r),
      or_na 1 (sr_peak_memory_mb r), or_na 0 (sr_observed_peak_connections r),
      or_na 1 (sr_measured_duration r) @ lit ''/'' @ int_str (sr_duration_seconds r) @ lit ''s'',
      fixed 2 (sr_error_rate_percent r) @ lit ''%'', result_status r]"

definition header_line :: pystr where
  "header_line = lit ''| Target RPS | Actual RPS | Ratio | avg | p50 | p95 | p99 | ''
     @ lit ''MASK | DEMASK | Incomplete | 2xx | 429 | 422 | other | func-err | t-err | ''
     @ lit ''CPU% | RAM MB | peak CPU% | peak RAM MB | peak conn | dur(meas/cfg) | Errors | Result |''"

definition delimiter_line :: pystr where
  "delimiter_line =
     lit ''| ---: | ---: | ---: | ---: | ---: | ---: | ---: | ---: | ---: | ---: | ''
     @ lit ''---: | ---: | ---: | ---: | ---: | ---: | ---: | ---: | ---: | ---: | ---: | :--- |''"

definition peak_cells :: "step_result \<Rightarrow> pystr list" where
  "peak_cells r =
     [int_str (sr_users r), fixed 0 (sr_observed_max_users r), fixed 0 (sr_target_peak_rps r),
      fixed 1 (sr_observed_peak_rps r), or_na 0 (sr_observed_peak_connections r)]"

definition peak_header_line :: pystr where
  "peak_header_line = lit ''| configured_max_users | observed_max_users | target_peak_rps | ''
     @ lit ''observed_peak_rps | observed_peak_connections |''"

definition peak_delimiter_line :: pystr where
  "peak_delimiter_line = lit ''| ---: | ---: | ---: | ---: | ---: |''"

definition report_lines :: "pystr \<Rightarrow> step_result list \<Rightarrow> pystr list" where
  "report_lines scenario results =
     [lit ''# Performance report: '' @ scenario, [], header_line, delimiter_line]
     @ map (\<lambda>r. table_row (result_cells r)) results
     @ [[], lit ''## Concurrency and peak'', [], peak_header_line, peak_delimiter_line]
     @ map (\<lambda>r. table_row (peak_cells r)) results"

definition summary_md :: "pystr \<Rightarrow> step_result list \<Rightarrow> pystr" where
  "summary_md scenario results = str_join [10] (report_lines scenario results) @ [10]"

section \<open>The JSON report\<close>

text \<open>\<open>asdict\<close>; \<open>ft\<close> gives the text of a float.\<close>

definition opt_float :: "(flt \<Rightarrow> pystr) \<Rightarrow> flt option \<Rightarrow> pyval" where
  "opt_float ft x = (case x of None \<Rightarrow> VNone | Some v \<Rightarrow> VFloat (ft v))"

definition result_dict :: "(flt \<Rightarrow> pystr) \<Rightarrow> step_result \<Rightarrow> (string \<times> pyval) list" where
  "result_dict ft r =
     [(''target_rps'', VFloat (ft (sr_target_rps r))), (''achieved_rps'', VFloat (ft (sr_achieved_rps r))),
      (''achieved_ratio'', VFloat (ft (sr_achieved_ratio r))), (''requests'', VInt (sr_requests r)),
      (''failures'', VInt (sr_failures r)), (''error_rate_percent'', VFloat (ft (sr_error_rate_percent r))),
      (''avg_ms'', VFloat (ft (sr_avg_ms r))), (''p50_ms'', VFloat (ft (sr_p50_ms r))),
      (''p95_ms'', VFloat (ft (sr_p95_ms r))), (''p99_ms'', VFloat (ft (sr_p99_ms r))), (''users'', VInt (sr_users r)),
      (''observed_max_users'', VFloat (ft (sr_observed_max_users r))),
      (''observed_peak_rps'', VFloat (ft (sr_observed_peak_rps r))),
      (''target_peak_rps'', VFloat (ft (sr_target_peak_rps r))), (''duration_seconds'', VInt (sr_duration_seconds r)),
      (''measured_duration'', opt_float ft (sr_measured_duration r)), (''mask_requests'', VInt (sr_mask_requests r)),
      (''demask_requests'', VInt (sr_demask_requests r)),
      (''incomplete_roundtrips'', VInt (sr_incomplete_roundtrips r)),
      (''incomplete_ratio'', VFloat (ft (sr_incomplete_ratio r))), (''http_2xx'', VInt (sr_http_2xx r)),
      (''http_429'', VInt (sr_http_429 r)), (''http_422'', VInt (sr_http_422 r)),
      (''http_other'', VInt (sr_http_other r)), (''functional_errors'', VInt (sr_functional_errors r)),
      (''transport_errors'', VInt (sr_transport_errors r)),
      (''custom_metrics_present'', VBool (sr_custom_metrics_present r)), (''cpu_measured'', VBool (sr_cpu_measured r)),
      (''memory_measured'', VBool (sr_memory_measured r)), (''cpu_percent'', opt_float ft (sr_cpu_percent r)),
      (''memory_mb'', opt_float ft (sr_memory_mb r)), (''peak_cpu_percent'', opt_float ft (sr_peak_cpu_percent r)),
      (''peak_memory_mb'', opt_float ft (sr_peak_memory_mb r)),
      (''connections_measured'', VBool (sr_connections_measured r)),
      (''observed_peak_connections'', opt_float ft (sr_observed_peak_connections r)),
      (''locust_exit_code'', VInt (sr_locust_exit_code r)), (''passed'', VBool (sr_passed r)),
      (''violations'', VList (map (\<lambda>v. VStr (violation_text v)) (sr_violations r)))]"

definition py_dict :: "(string \<times> pyval) list \<Rightarrow> pyval" where
  "py_dict kvs = VDict (map (\<lambda>(k, v). (VStr (lit k), v)) kvs)"

definition summary_payload ::
    "(flt \<Rightarrow> pystr) \<Rightarrow> pystr \<Rightarrow> pystr \<Rightarrow> step_result list \<Rightarrow> pyval option \<Rightarrow> pyval" where
  "summary_payload ft generated_at scenario results profile =
     py_dict ([(''generated_at'', VStr generated_at), (''scenario'', VStr scenario),
        (''results'', VList (map (\<lambda>r. py_dict (result_dict ft r)) results))]
       @ (case profile of None \<Rightarrow> [] | Some p \<Rightarrow> [(''profile'', p)]))"

section \<open>The recorded environment and profile\<close>

text \<open>\<open>x - q\<close> for a finite \<open>q\<close>\<close>

fun flt_minus_rat :: "flt \<Rightarrow> rat \<Rightarrow> flt" where
  "flt_minus_rat (Fin x) q = Fin (x - q)"
| "flt_minus_rat x q = x"

text \<open>
  The facts about the host: what \<open>platform\<close> reports, and the outputs of the two \<open>git\<close> commands, \<open>None\<close>
  when one of them cannot be started.
\<close>

record host_facts =
  hf_timestamp :: pystr
  hf_hostname :: pystr
  hf_os :: pystr
  hf_python :: pystr
  hf_git :: "(pystr \<times> pystr) option"

definition server_dict :: "server_config \<Rightarrow> pyval" where
  "server_dict s =
     py_dict [(''source'', VStr (sc_source s)),
       (''backend'', case sc_backend s of None \<Rightarrow> VNone | Some b \<Rightarrow> VStr b),
       (''workers'', case sc_workers s of None \<Rightarrow> VNone | Some n \<Rightarrow> VInt n),
       (''logging'', case sc_logging s of None \<Rightarrow> VNone | Some l \<Rightarrow> VStr l)]"

definition params_dict :: "params \<Rightarrow> pyval" where
  "params_dict ps = VDict (map (\<lambda>(k, v). (VStr k, VStr v)) ps)"

definition environment_dict :: "ucd \<Rightarrow> host_facts \<Rightarrow> pystr list \<Rightarrow> server_config \<Rightarrow> pyval" where
  "environment_dict U H argv server =
     py_dict [(''timestamp_utc'', VStr (hf_timestamp H)), (''hostname'', VStr (hf_hostname H)), (''os'', VStr (hf_os H)),
       (''python_version'', VStr (hf_python H)),
       (''git_commit'', VStr (case hf_git H of None \<Rightarrow> [] | Some (commit, _) \<Rightarrow> str_strip U commit)),
       (''git_dirty'', VBool (case hf_git H of None \<Rightarrow> False | Some (_, status) \<Rightarrow> str_strip U status \<noteq> [])),
       (''run_parameters'', params_dict (run_parameters argv)), (''server_configuration'', server_dict server)]"

definition collect_environment :: "ucd \<Rightarrow> host_facts \<Rightarrow> pystr list \<Rightarrow> pyval" where
  "collect_environment U H argv = environment_dict U H argv default_server"

definition ORGANIZER_PHASES :: "(int \<times> int \<times> int \<times> string) list" where
  "ORGANIZER_PHASES = [(0, 180, 330, ''ramp_up''), (180, 300, 330, ''steady''), (300, 330, 1000, ''peak''),
     (330, 360, 330, ''ramp_down''), (360, 480, 330, ''steady'')]"

definition phase_dict :: "int \<times> int \<times> int \<times> string \<Rightarrow> pyval" where
  "phase_dict p =
     (case p of (start, stop, target_rps, kind) \<Rightarrow>
        py_dict [(''start'', VInt start), (''end'', VInt stop), (''target_rps'', VInt target_rps), (''kind'', VStr (lit kind))])"

text \<open>\<open>profile\<close> in \<open>_run_organizer\<close>; the peaks of the containers and the stage timings come as values.\<close>

definition organizer_profile ::
    "ucd \<Rightarrow> (flt \<Rightarrow> pystr) \<Rightarrow> host_facts \<Rightarrow> pystr list \<Rightarrow> pystr option \<Rightarrow> perf_args \<Rightarrow> pyval \<Rightarrow> pyval \<Rightarrow>
     step_result \<Rightarrow> pyval" where
  "organizer_profile U ft H argv config a docker_metrics stage_timings r =
     py_dict [(''name'', VStr (lit ''organizer'')), (''duration_seconds'', VInt ORGANIZER_DURATION),
       (''measured_duration_seconds'', opt_float ft (sr_measured_duration r)),
       (''target_average_rps'', VFloat (ft (Fin ORGANIZER_TARGET_AVERAGE))),
       (''target_peak_rps'', VFloat (ft (Fin 1000))), (''configured_max_users'', VInt (pa_max_users a)),
       (''observed_max_users'', VFloat (ft (sr_observed_max_users r))),
       (''observed_peak_rps'', VFloat (ft (sr_observed_peak_rps r))),
       (''observed_peak_connections'', opt_float ft (sr_observed_peak_connections r)),
       (''rps_per_user'', VFloat (ft (pa_rps_per_user a))), (''phases'', VList (map phase_dict ORGANIZER_PHASES)),
       (''actual_average_rps'', VFloat (ft (sr_achieved_rps r))),
       (''target_vs_actual_delta'', VFloat (ft (flt_minus_rat (sr_achieved_rps r) ORGANIZER_TARGET_AVERAGE))),
       (''environment'', environment_dict U H argv (apply_server_config U default_server config)),
       (''docker_metrics'', docker_metrics), (''stage_timings'', stage_timings),
       (''run_parameters'', params_dict (run_parameters argv))]"

section \<open>Running Locust\<close>

definition locust_command :: "pystr \<Rightarrow> pystr \<Rightarrow> pystr \<Rightarrow> pystr \<Rightarrow> pystr \<Rightarrow> int \<Rightarrow> pystr \<Rightarrow> pystr list" where
  "locust_command python locustfile host users spawn_rate duration csv_prefix =
     [python, lit ''-m'', lit ''locust'', lit ''-f'', locustfile, lit ''--host'', host, lit ''--headless'', lit ''-u'', users,
      lit ''-r'', spawn_rate, lit ''-t'', int_str duration @ lit ''s'', lit ''--csv'', csv_prefix,
      lit ''--csv-full-history'', lit ''--only-summary'']"

definition step_command ::
    "pystr \<Rightarrow> pystr \<Rightarrow> pystr \<Rightarrow> int \<Rightarrow> pystr \<Rightarrow> int \<Rightarrow> pystr \<Rightarrow> pystr list" where
  "step_command python locustfile host users spawn_rate duration csv_prefix =
     locust_command python locustfile host (int_str users) spawn_rate duration csv_prefix"

definition organizer_command :: "pystr \<Rightarrow> pystr \<Rightarrow> pystr \<Rightarrow> pystr \<Rightarrow> pystr list" where
  "organizer_command python locustfile host csv_prefix =
     locust_command python locustfile host (lit ''1'') (lit ''1'') ORGANIZER_DURATION csv_prefix"

section \<open>The cells of the report\<close>

definition bar_free :: "pystr \<Rightarrow> bool" where
  "bar_free s \<longleftrightarrow> set s \<inter> {124, 10} = {}"

lemma bar_free_append [simp]: "bar_free (s @ t) \<longleftrightarrow> bar_free s \<and> bar_free t"
  by (auto simp: bar_free_def)

lemma number_bar_free: "number_chars \<inter> {124, 10} = {}"
  by (auto simp: number_chars_def lit_def)

lemma numbers_bar_free [simp]: "bar_free (fixed d x)" "bar_free (int_str i)" "bar_free (percent d x)"
  using fixed_chars [of d x] int_str_chars [of i] percent_chars [of d x] number_bar_free
  unfolding bar_free_def by blast+

lemma or_na_bar_free [simp]: "bar_free (or_na d x)"
proof (cases x)
  case None
  then show ?thesis by (simp add: or_na_def bar_free_def lit_def)
qed (simp add: or_na_def)

lemma lit_bar_free [simp]: "bar_free (lit s) \<longleftrightarrow> list_all (\<lambda>c. of_char c \<notin> {124, 10 :: nat}) s"
  by (auto simp: bar_free_def lit_def list_all_iff)

lemma join_bar_free: "bar_free sep \<Longrightarrow> \<forall>x \<in> set xs. bar_free x \<Longrightarrow> bar_free (str_join sep xs)"
  by (induction sep xs rule: str_join.induct) (auto simp: bar_free_def)

text \<open>The number of cells of a line of a table with bars at both ends\<close>

definition cells_of :: "pystr \<Rightarrow> nat" where
  "cells_of line = length (filter (\<lambda>c. c = 124) line) - 1"

lemma row_cells:
  assumes "\<forall>c \<in> set cells. bar_free c" "cells \<noteq> []"
  shows "cells_of (table_row cells) = length cells \<and> 10 \<notin> set (table_row cells)"
proof -
  have "length (filter (\<lambda>c. c = 124) (str_join (lit '' | '') cells)) = length cells - 1
      \<and> 10 \<notin> set (str_join (lit '' | '') cells)"
    using assms
  proof (induction cells rule: induct_list012)
    case (3 x y zs)
    then show ?case by (auto simp: bar_free_def lit_def filter_empty_conv)
  qed (auto simp: bar_free_def filter_empty_conv)
  with assms(2) show ?thesis by (cases cells) (auto simp: table_row_def cells_of_def lit_def)
qed

lemma required_keys_bar_free: "k \<in> set (required_keys scenario) \<Longrightarrow> bar_free k"
  by (auto simp: required_keys_def split: if_splits)

lemma keys_repr_bar_free: "\<forall>k \<in> set ks. bar_free k \<Longrightarrow> bar_free (keys_repr ks)"
  unfolding keys_repr_def by (simp, rule join_bar_free) (auto simp: bar_free_def lit_def)

definition known_keys :: "gate_violation \<Rightarrow> bool" where
  "known_keys v \<longleftrightarrow> (\<forall>ks. v = Keys_Missing ks \<longrightarrow> (\<forall>k \<in> set ks. bar_free k))"

lemma violation_bar_free: "known_keys v \<Longrightarrow> bar_free (violation_text v)"
  by (cases v) (simp_all add: known_keys_def keys_repr_bar_free)

lemma build_result_keys:
  assumes "build_result U row g = Inr r" and "v \<in> set (sr_violations r)"
  shows "known_keys v"
proof -
  have "known_keys v" if "v \<in> set (metrics_violations g n f d)" for n f d
    using that required_keys_bar_free
    by (auto simp: metrics_violations_def Let_def flag_def known_keys_def split: if_splits)
  moreover have "known_keys v" if "v \<in> set (load_violations g)"
    using that by (auto simp: load_violations_def flag_def known_keys_def split: if_splits option.splits)
  moreover have "set (flag b x) \<subseteq> {x}" for b and x :: gate_violation by (auto simp: flag_def)
  moreover obtain e p95 p99 ratio b1 b2 b3 b4 b5 where "set (sr_violations r) =
      set (flag b1 (Locust_Exit_Code (ga_locust_exit_code g))) \<union> set (flag b2 (Error_Rate e (ga_max_error_rate g)))
      \<union> set (flag b3 (P95_Latency p95 (ga_max_p95_ms g))) \<union> set (flag b4 (P99_Latency p99 (ga_max_p99_ms g)))
      \<union> set (flag b5 (Achieved_Ratio ratio (ga_min_achieved_ratio g)))
      \<union> (case ga_custom_metrics g of None \<Rightarrow> {Metrics_Missing}
         | Some d \<Rightarrow> set (metrics_violations g (sr_requests r) (sr_failures r) d)) \<union> set (load_violations g)"
    using assms(1) unfolding build_result_def Let_def
    by (cases "ga_custom_metrics g"; clarsimp simp: ebind_eq_Inr Un_assoc; blast)
  ultimately have "v \<in> {Locust_Exit_Code (ga_locust_exit_code g), Error_Rate e (ga_max_error_rate g),
      P95_Latency p95 (ga_max_p95_ms g), P99_Latency p99 (ga_max_p99_ms g),
      Achieved_Ratio ratio (ga_min_achieved_ratio g), Metrics_Missing} \<or> known_keys v"
    using assms(2) by (fastforce split: option.splits)
  then show ?thesis by (auto simp: known_keys_def)
qed

lemma status_bar_free:
  assumes "build_result U row g = Inr r"
  shows "bar_free (result_status r)"
proof -
  have "\<forall>x \<in> set (map violation_text (sr_violations r)). bar_free x"
    using build_result_keys [OF assms] violation_bar_free by auto
  then show ?thesis by (simp add: result_status_def join_bar_free)
qed

lemma result_cells_bar_free: "build_result U row g = Inr r \<Longrightarrow> \<forall>c \<in> set (result_cells r). bar_free c"
  by (simp add: result_cells_def status_bar_free)

lemma peak_cells_bar_free: "\<forall>c \<in> set (peak_cells r). bar_free c"
  by (simp add: peak_cells_def)

text \<open>
  C37: The tables of \<open>summary.md\<close> (functional).  The row of every judged run is one line with 24 cells like its
  header, whatever the numbers and the violations are, and its last cell is \<open>PASS\<close> exactly when the run
  passed; the rows of the second table have the five cells of its header and of its delimiter line.  The
  delimiter line of the main table, however, has 22 cells only.
\<close>

theorem report_rows_align:
  assumes "build_result U row g = Inr r"
  shows "cells_of (table_row (result_cells r)) = cells_of header_line \<and> cells_of header_line = 24
    \<and> 10 \<notin> set (table_row (result_cells r)) \<and> (last (result_cells r) = lit ''PASS'' \<longleftrightarrow> sr_passed r)
    \<and> cells_of (table_row (peak_cells r)) = cells_of peak_header_line
    \<and> cells_of peak_header_line = 5 \<and> cells_of peak_delimiter_line = 5
    \<and> cells_of delimiter_line = 22"
proof -
  have "cells_of header_line = 24" "cells_of delimiter_line = 22" "cells_of peak_header_line = 5"
    "cells_of peak_delimiter_line = 5" by code_simp+
  moreover have "length (result_cells r) = 24" "length (peak_cells r) = 5" "result_cells r \<noteq> []" "peak_cells r \<noteq> []"
    by (simp_all add: result_cells_def peak_cells_def)
  moreover have "last (result_cells r) = lit ''PASS'' \<longleftrightarrow> sr_passed r"
    by (simp add: result_cells_def result_status_def lit_def)
  ultimately show ?thesis
    using row_cells [OF result_cells_bar_free [OF assms]] row_cells [OF peak_cells_bar_free] by simp
qed

end
