(* ===== verification/LoadUser.thy ===== *)
theory LoadUser
  imports PerfGate PerfRun "HOL-Library.Multiset"
begin

text \<open>
  The user of the load test, \<open>tests/performance/locustfile.py\<close>, whose counters the performance runner judges.
  A user runs one scenario after the other; a scenario is a function of the trace of the updates this user
  has made so far.  The replies of the server, the random draws and the payload ids are arguments.  What
  Locust does with a request is an argument as well: the failure under which it records a request whose
  block raised (\<open>None\<close> when it does not record it), and how it judges one that the script did not mark.
\<close>

section \<open>Payloads, scenarios and weights\<close>

definition LOAD_ORIGINAL :: pystr where
  "LOAD_ORIGINAL = ru ''Klient Iwanow Iwan Iwanowi^, pasport 4509 123456, INN 7707083893, karta 4111 1111 1111 1111, telefon ''
     @ lit ''+7 999 123-45-67, email test@example.com, '' @ ru ''data rovdeniq 15.03.1990''"

definition CONFLICT_PAYLOAD :: pystr where
  "CONFLICT_PAYLOAD = ru ''Klient Petrow P'' @ [1105] @ ru ''tr Petrowi^, pasport 4509 654321, INN 500100732259, karta 4111 1111 1111 1111, telefon ''
     @ lit ''+7 916 555-12-34, email petr@example.com, '' @ ru ''data rovdeniq 20.07.1985''"

definition LOAD_SENTINELS :: "pystr list" where
  "LOAD_SENTINELS = [lit ''test@example.com'', lit ''+7 999 123-45-67'', lit ''4111 1111 1111 1111'', lit ''7707083893'',
     lit ''4509 123456'', ru ''Iwanow Iwan Iwanowi^'', lit ''15.03.1990'']"

definition large_payload :: "int \<Rightarrow> pystr" where
  "large_payload chars =
     take (nat chars) (concat (replicate (nat (chars div 6 + 1)) (ru ''Slowo ''))) @ lit '' test@example.com''"

datatype scenario = Mask_Only | Roundtrip | Mask_Retry | Demask_Retry | Duplicate_Payload | Large_Payload

definition MIXED_WEIGHTS :: "(scenario \<times> nat) list" where
  "MIXED_WEIGHTS = [(Roundtrip, 5), (Mask_Retry, 1), (Demask_Retry, 3), (Duplicate_Payload, 1), (Large_Payload, 1)]"

fun task_requests :: "scenario \<Rightarrow> nat" where
  "task_requests Mask_Only = 1"
| "task_requests Roundtrip = 2"
| "task_requests Mask_Retry = 2"
| "task_requests Demask_Retry = 3"
| "task_requests Duplicate_Payload = 4"
| "task_requests Large_Payload = 2"

text \<open>The value of \<open>LOAD_SCENARIO\<close>: a scenario, or \<open>None\<close> for \<open>mixed\<close>\<close>

definition LOAD_SCENARIOS :: "(pystr \<times> scenario option) list" where
  "LOAD_SCENARIOS = [(lit ''mask_only'', Some Mask_Only), (lit ''roundtrip'', Some Roundtrip),
     (lit ''mask_retry'', Some Mask_Retry), (lit ''demask_retry'', Some Demask_Retry),
     (lit ''duplicate_payload'', Some Duplicate_Payload), (lit ''large_payload'', Some Large_Payload), (lit ''mixed'', None)]"

definition REQUESTS_PER_TASK :: "scenario option \<Rightarrow> rat" where
  "REQUESTS_PER_TASK s =
     (case s of
        Some s \<Rightarrow> of_nat (task_requests s)
      | None \<Rightarrow> fl (of_nat (\<Sum>(s, w) \<leftarrow> MIXED_WEIGHTS. w * task_requests s) / of_nat (\<Sum>(s, w) \<leftarrow> MIXED_WEIGHTS. w)))"

text \<open>What the module computes when it is loaded: an unknown scenario is refused, the rate of a user is fixed.\<close>

definition tasks_per_user_second :: "pystr \<Rightarrow> rat \<Rightarrow> int \<Rightarrow> exn + rat" where
  "tasks_per_user_second scenario target_rps users =
     (case map_of LOAD_SCENARIOS scenario of
        None \<Rightarrow> Inl ValueError
      | Some s \<Rightarrow> Inr (fl (fl (max target_rps (fl (1 / 10)) / of_int (max users 1)) / REQUESTS_PER_TASK s)))"

text \<open>\<open>random.choices\<close> with weights, for the random number \<open>x\<close> times the sum of the weights\<close>

fun weighted_choice :: "rat \<Rightarrow> ('a \<times> nat) list \<Rightarrow> 'a option" where
  "weighted_choice x [] = None"
| "weighted_choice x [(a, w)] = Some a"
| "weighted_choice x ((a, w) # b # rest) = (if x < of_nat w then Some a else weighted_choice (x - of_nat w) (b # rest))"

section \<open>Traces and actions\<close>

text \<open>
  A POST is started, a request is recorded by Locust with its name and, when it failed, its message, and a
  counter is raised.
\<close>

datatype load_entry = Sent | Recorded string "pystr option" | Bumped pystr

text \<open>What a POST comes to: the greenlet is killed in it, it raises, or there is a status with the
  \<open>Retry-After\<close> header and what \<open>response.json()\<close> gives\<close>

datatype load_reply = Killed | Raises | Response int "pystr option" "exn + pyval"

record load_user =
  lu_reply :: "nat \<Rightarrow> pystr \<Rightarrow> pystr \<Rightarrow> load_reply"
  lu_uuid :: "nat \<Rightarrow> pystr"
  lu_random :: "nat \<Rightarrow> rat"
  lu_large_chars :: int
  lu_raised :: "pystr option"
  lu_unmarked :: "int \<Rightarrow> pystr option"

datatype stop = Greenlet_Exit | Exc exn

type_synonym 'a act = "load_entry list \<Rightarrow> (stop + 'a) \<times> load_entry list"

definition act_return :: "'a \<Rightarrow> 'a act" where
  "act_return x tr = (Inr x, tr)"

definition act_bind :: "'a act \<Rightarrow> ('a \<Rightarrow> 'b act) \<Rightarrow> 'b act" where
  "act_bind p k tr = (case p tr of (Inl s, tr') \<Rightarrow> (Inl s, tr') | (Inr x, tr') \<Rightarrow> k x tr')"

definition act_then :: "'a act \<Rightarrow> 'b act \<Rightarrow> 'b act" where
  "act_then p q = act_bind p (\<lambda>_. q)"

definition CUSTOM_KEYS :: "pystr list" where
  "CUSTOM_KEYS = map lit [''mask_requests'', ''demask_requests'', ''incomplete_roundtrips'', ''http_2xx'', ''http_429'',
     ''http_422'', ''http_other'', ''functional_errors'', ''transport_errors'']"

text \<open>\<open>_bump\<close>: an absent key is a \<open>KeyError\<close>\<close>

definition bump_metric :: "pystr \<Rightarrow> unit act" where
  "bump_metric key tr = (if key \<in> set CUSTOM_KEYS then (Inr (), tr @ [Bumped key]) else (Inl (Exc KeyError), tr))"

definition mark :: "string \<Rightarrow> pystr option \<Rightarrow> 'a \<Rightarrow> 'a act" where
  "mark name failure x tr = (Inr x, tr @ [Recorded name failure])"

section \<open>A request\<close>

definition parse_json_object :: "exn + pyval \<Rightarrow> (pyval \<times> pyval) list option act" where
  "parse_json_object body tr =
     (case body of
        Inr (VDict d) \<Rightarrow> (Inr (Some d), tr)
      | Inr _ \<Rightarrow> (Inr None, tr)
      | Inl e \<Rightarrow> if e = ValueError then (Inr None, tr) else (Inl (Exc e), tr))"

text \<open>A functional error with a message that ends the request\<close>

definition reject :: "string \<Rightarrow> pystr \<Rightarrow> pystr option act" where
  "reject name message = act_then (bump_metric (lit ''functional_errors'')) (mark name (Some message) None)"

text \<open>The keyword arguments of \<open>_post\<close>; a validator gives the message of its failure.\<close>

record post_args =
  pt_name :: string
  pt_kind :: string
  pt_validator :: "pystr \<Rightarrow> pystr option"
  pt_expected :: "int list"
  pt_expected_error :: "pystr option"

definition expected_body :: "post_args \<Rightarrow> exn + pyval \<Rightarrow> pystr option act" where
  "expected_body a body =
     (case pt_expected_error a of
        None \<Rightarrow> mark (pt_name a) None None
      | Some code \<Rightarrow> act_bind (parse_json_object body) (\<lambda>d.
          case d of
            None \<Rightarrow> reject (pt_name a) (lit ''expected status but body is not a JSON object'')
          | Some d \<Rightarrow>
              if dict_get d ''error'' VNone \<noteq> VStr code
              then reject (pt_name a) (lit ''expected status but error code did not match'')
              else mark (pt_name a) None None))"

definition result_body :: "load_user \<Rightarrow> post_args \<Rightarrow> exn + pyval \<Rightarrow> pystr option act" where
  "result_body L a body =
     act_bind (parse_json_object body) (\<lambda>d.
       case d of
         None \<Rightarrow> reject (pt_name a) (lit ''response is not a JSON object'')
       | Some d \<Rightarrow>
           (case dict_get d ''result'' VNone of
              VStr result \<Rightarrow>
                (case pt_validator a result of
                   Some failure \<Rightarrow> reject (pt_name a) failure
                 | None \<Rightarrow> mark (pt_name a) (lu_unmarked L 200) (Some result))
            | _ \<Rightarrow> reject (pt_name a) (lit ''response does not contain string result'')))"

definition response_body :: "load_user \<Rightarrow> post_args \<Rightarrow> int \<Rightarrow> pystr option \<Rightarrow> exn + pyval \<Rightarrow> pystr option act" where
  "response_body L a status retry_after body =
     (if status = 429
      then act_then (bump_metric (lit ''http_429''))
             (case retry_after of
                None \<Rightarrow> reject (pt_name a) (lit ''429 without Retry-After'')
              | Some _ \<Rightarrow> mark (pt_name a) None None)
      else if status \<in> set (pt_expected a) then act_then (bump_metric (lit ''http_'' @ int_str status)) (expected_body a body)
      else if status \<noteq> 200
      then act_then (bump_metric (lit ''http_other''))
             (reject (pt_name a)
                (lit ''status='' @ int_str status
                  @ (case retry_after of None \<Rightarrow> [] | Some h \<Rightarrow> if h = [] then [] else lit '' retry_after='' @ h)))
      else act_then (bump_metric (lit ''http_2xx''))
             (act_then (bump_metric (lit (pt_kind a @ ''_requests''))) (result_body L a body)))"

definition load_post :: "load_user \<Rightarrow> post_args \<Rightarrow> pystr \<Rightarrow> pystr \<Rightarrow> pystr option act" where
  "load_post L a payload_id payload tr =
     (let handle = (\<lambda>tr'. act_then (bump_metric (lit ''transport_errors'')) (act_return None)
                       (case lu_raised L of None \<Rightarrow> tr' | Some m \<Rightarrow> tr' @ [Recorded (pt_name a) (Some m)]))
      in case lu_reply L (count_list tr Sent) payload_id payload of
           Killed \<Rightarrow> (Inl Greenlet_Exit, tr @ [Sent])
         | Raises \<Rightarrow> handle (tr @ [Sent])
         | Response status retry_after body \<Rightarrow>
             (case response_body L a status retry_after body (tr @ [Sent]) of
                (Inl (Exc e), tr') \<Rightarrow> handle tr'
              | r \<Rightarrow> r))"

section \<open>The scenarios\<close>

definition mask_validator :: "pystr \<Rightarrow> pystr option" where
  "mask_validator result =
     (if \<exists>sentinel \<in> set LOAD_SENTINELS. str_in sentinel result
      then Some (lit ''mask leaked one or more original PII values'') else None)"

definition must_equal :: "pystr \<Rightarrow> string \<Rightarrow> pystr \<Rightarrow> pystr option" where
  "must_equal expected message result = (if result \<noteq> expected then Some (lit message) else None)"

definition post_as :: "string \<Rightarrow> string \<Rightarrow> (pystr \<Rightarrow> pystr option) \<Rightarrow> post_args" where
  "post_as name kind validator =
     \<lparr>pt_name = name, pt_kind = kind, pt_validator = validator, pt_expected = [], pt_expected_error = None\<rparr>"

definition load_mask :: "load_user \<Rightarrow> pystr \<Rightarrow> pystr \<Rightarrow> string \<Rightarrow> pystr option act" where
  "load_mask L payload_id payload name = load_post L (post_as name ''mask'' mask_validator) payload_id payload"

definition load_demask :: "load_user \<Rightarrow> pystr \<Rightarrow> pystr \<Rightarrow> pystr \<Rightarrow> string \<Rightarrow> pystr option act" where
  "load_demask L payload_id masked expected name =
     load_post L (post_as name ''demask'' (must_equal expected ''demask returned a different original'')) payload_id masked"

text \<open>\<open>uuid.uuid4()\<close>, drawn before the first request of a scenario\<close>

definition new_id :: "load_user \<Rightarrow> pystr act" where
  "new_id L tr = (Inr (lu_uuid L (count_list tr Sent)), tr)"

text \<open>\<open>if x is None: return\<close>, then the rest\<close>

definition when_some :: "'a option \<Rightarrow> ('a \<Rightarrow> unit act) \<Rightarrow> unit act" where
  "when_some v k = (case v of None \<Rightarrow> act_return () | Some x \<Rightarrow> k x)"

definition act_skip :: "'a act \<Rightarrow> unit act" where
  "act_skip p = act_then p (act_return ())"

definition scenario_mask_only :: "load_user \<Rightarrow> unit act" where
  "scenario_mask_only L =
     act_bind (new_id L) (\<lambda>i. act_skip (load_mask L i LOAD_ORIGINAL ''POST /process [mask]''))"

definition scenario_roundtrip :: "load_user \<Rightarrow> unit act" where
  "scenario_roundtrip L =
     act_bind (new_id L) (\<lambda>i.
     act_bind (load_mask L i LOAD_ORIGINAL ''POST /process [mask]'') (\<lambda>masked.
     when_some masked (\<lambda>masked.
     act_bind (load_demask L i masked LOAD_ORIGINAL ''POST /process [demask]'') (\<lambda>restored.
     if restored = None then bump_metric (lit ''incomplete_roundtrips'') else act_return ()))))"

definition scenario_mask_retry :: "load_user \<Rightarrow> unit act" where
  "scenario_mask_retry L =
     act_bind (new_id L) (\<lambda>i.
     act_bind (load_mask L i LOAD_ORIGINAL ''POST /process [retry-mask:first]'') (\<lambda>first.
     when_some first (\<lambda>first.
     act_skip (load_post L (post_as ''POST /process [retry-mask:second]'' ''mask''
       (must_equal first ''mask retry was not idempotent'')) i LOAD_ORIGINAL))))"

definition scenario_demask_retry :: "load_user \<Rightarrow> unit act" where
  "scenario_demask_retry L =
     act_bind (new_id L) (\<lambda>i.
     act_bind (load_mask L i LOAD_ORIGINAL ''POST /process [mask]'') (\<lambda>masked.
     when_some masked (\<lambda>masked.
     act_then (load_demask L i masked LOAD_ORIGINAL ''POST /process [retry-demask:first]'')
       (act_skip (load_demask L i masked LOAD_ORIGINAL ''POST /process [retry-demask:second]'')))))"

definition conflict_args :: post_args where
  "conflict_args =
     \<lparr>pt_name = ''POST /process [dup:conflict]'', pt_kind = ''mask'', pt_validator = (\<lambda>_. None), pt_expected = [422],
      pt_expected_error = Some (lit ''INVALID_PAYLOAD'')\<rparr>"

definition scenario_duplicate_payload :: "load_user \<Rightarrow> unit act" where
  "scenario_duplicate_payload L =
     act_bind (new_id L) (\<lambda>i.
     act_bind (load_mask L i LOAD_ORIGINAL ''POST /process [dup:first]'') (\<lambda>first.
     when_some first (\<lambda>first.
     act_then (load_post L conflict_args i CONFLICT_PAYLOAD) (
     act_bind (load_post L (post_as ''POST /process [dup:remask]'' ''mask''
       (must_equal first ''duplicate conflict corrupted the mask mapping'')) i LOAD_ORIGINAL) (\<lambda>second.
     when_some second (\<lambda>second.
     act_skip (load_demask L i second LOAD_ORIGINAL ''POST /process [dup:demask]'')))))))"

definition scenario_large_payload :: "load_user \<Rightarrow> unit act" where
  "scenario_large_payload L =
     act_bind (new_id L) (\<lambda>i.
     act_bind (load_mask L i (large_payload (lu_large_chars L)) ''POST /process [large-mask]'') (\<lambda>masked.
     when_some masked (\<lambda>masked.
     act_skip (load_demask L i masked (large_payload (lu_large_chars L)) ''POST /process [large-demask]''))))"

fun run_scenario :: "load_user \<Rightarrow> scenario \<Rightarrow> unit act" where
  "run_scenario L Mask_Only = scenario_mask_only L"
| "run_scenario L Roundtrip = scenario_roundtrip L"
| "run_scenario L Mask_Retry = scenario_mask_retry L"
| "run_scenario L Demask_Retry = scenario_demask_retry L"
| "run_scenario L Duplicate_Payload = scenario_duplicate_payload L"
| "run_scenario L Large_Payload = scenario_large_payload L"

text \<open>
  \<open>execute_scenario\<close> once it is paced.  The random number is taken for the number of requests sent so far.
\<close>

definition execute_scenario :: "load_user \<Rightarrow> scenario option \<Rightarrow> unit act" where
  "execute_scenario L s tr =
     (case s of
        Some s \<Rightarrow> run_scenario L s tr
      | None \<Rightarrow>
          (case weighted_choice (lu_random L (count_list tr Sent) * of_nat (\<Sum>(s, w) \<leftarrow> MIXED_WEIGHTS. w)) MIXED_WEIGHTS of
             Some s \<Rightarrow> run_scenario L s tr
           | None \<Rightarrow> (Inr (), tr)))"

text \<open>
  The first \<open>n\<close> tasks of a user.  A user is stopped by killing its greenlet, or left in a task when the run
  ends; an exception that leaves a task is recorded by Locust, and the next task follows.
\<close>

fun run_tasks :: "load_user \<Rightarrow> scenario option \<Rightarrow> nat \<Rightarrow> load_entry list \<Rightarrow> load_entry list" where
  "run_tasks L s 0 tr = tr"
| "run_tasks L s (Suc n) tr =
     (case execute_scenario L s tr of
        (Inl Greenlet_Exit, tr') \<Rightarrow> tr'
      | (_, tr') \<Rightarrow> run_tasks L s n tr')"

section \<open>The file of the counters\<close>

record load_config =
  lc_scenario :: pystr
  lc_organizer :: bool
  lc_duration :: int
  lc_max_users :: int
  lc_target_rps :: rat
  lc_users :: int

text \<open>\<open>_CUSTOM_METRICS\<close> after the updates of a run, and its snapshot with the incomplete roundtrips reconciled\<close>

definition custom_count :: "load_entry list \<Rightarrow> string \<Rightarrow> int" where
  "custom_count tr key = int (count_list tr (Bumped (lit key)))"

definition incomplete_total :: "load_config \<Rightarrow> load_entry list \<Rightarrow> int" where
  "incomplete_total C tr =
     (if lc_scenario C = lit ''roundtrip''
      then max (custom_count tr ''incomplete_roundtrips'')
             (max 0 (custom_count tr ''mask_requests'' - custom_count tr ''demask_requests''))
      else custom_count tr ''incomplete_roundtrips'')"

definition custom_snapshot :: "load_config \<Rightarrow> load_entry list \<Rightarrow> (string \<times> int) list" where
  "custom_snapshot C tr =
     [(''mask_requests'', custom_count tr ''mask_requests''), (''demask_requests'', custom_count tr ''demask_requests''),
      (''incomplete_roundtrips'', incomplete_total C tr), (''http_2xx'', custom_count tr ''http_2xx''),
      (''http_429'', custom_count tr ''http_429''), (''http_422'', custom_count tr ''http_422''),
      (''http_other'', custom_count tr ''http_other''), (''functional_errors'', custom_count tr ''functional_errors''),
      (''transport_errors'', custom_count tr ''transport_errors'')]"

text \<open>\<open>_write_custom_metrics\<close>: the object it writes; \<open>ft\<close> is the text of a float.\<close>

definition write_custom_metrics :: "(rat \<Rightarrow> pystr) \<Rightarrow> load_config \<Rightarrow> load_entry list \<Rightarrow> pyval" where
  "write_custom_metrics ft C tr =
     VDict (map (\<lambda>(k, v). (VStr (lit k), v))
       (map (\<lambda>(k, n). (k, VInt n)) (custom_snapshot C tr)
        @ [(''scenario'', VStr (lc_scenario C)),
           (''total_http_requests'', VInt (custom_count tr ''http_2xx'' + custom_count tr ''http_429''
              + custom_count tr ''http_422'' + custom_count tr ''http_other'' + custom_count tr ''transport_errors''))]
        @ (if lc_organizer C
           then [(''profile'', VStr (lit ''organizer'')), (''profile_duration_seconds'', VInt (lc_duration C)),
                 (''profile_max_users'', VInt (lc_max_users C))]
              @ (if lc_duration C = 480 then [(''target_average_rps'', VFloat (ft ORGANIZER_TARGET_AVERAGE))] else [])
           else [(''target_rps'', VFloat (ft (lc_target_rps C))), (''users'', VInt (lc_users C))])))"

section \<open>The file of the final statistics\<close>

record stats_files =
  sf_final :: "csv_row list option"
  sf_temporary :: "csv_row list option"

text \<open>
  \<open>_write_final_stats_csv\<close>: \<open>written\<close> is what gets into the temporary file (\<open>None\<close> when it cannot be
  opened), and the flags say whether the export, the replacement and the clean-up succeed.
\<close>

definition write_final_stats_csv ::
    "pystr \<Rightarrow> csv_row list option \<Rightarrow> bool \<Rightarrow> bool \<Rightarrow> bool \<Rightarrow> stats_files \<Rightarrow> stats_files" where
  "write_final_stats_csv path written exported replaced removed f =
     (if path = [] then f
      else
        let f' = (case written of None \<Rightarrow> f | Some rows \<Rightarrow> f\<lparr>sf_temporary := Some rows\<rparr>)
        in if written \<noteq> None \<and> exported \<and> replaced then f'\<lparr>sf_final := sf_temporary f', sf_temporary := None\<rparr>
           else if removed then f'\<lparr>sf_temporary := None\<rparr> else f')"

text \<open>A partial export never becomes the final file.\<close>

lemma final_stats_whole:
  "sf_final (write_final_stats_csv path written exported replaced removed f) \<noteq> sf_final f \<Longrightarrow>
     exported \<and> sf_final (write_final_stats_csv path written exported replaced removed f) = written"
  by (auto simp: write_final_stats_csv_def Let_def split: if_splits option.splits)

section \<open>What a user adds to the counters\<close>

text \<open>
  What the counters rely on is a documented behaviour of Locust: with \<open>catch_response\<close> a request that the
  script did not mark is a success when its status is 200.  Whether a request whose block raised is recorded
  is left open, and so is what \<open>response.json()\<close> raises.
\<close>

definition locust_ok :: "load_user \<Rightarrow> bool" where
  "locust_ok L \<longleftrightarrow> lu_unmarked L 200 = None"

fun is_recorded :: "load_entry \<Rightarrow> bool" where
  "is_recorded (Recorded name failure) = True"
| "is_recorded _ = False"

fun is_failed :: "load_entry \<Rightarrow> bool" where
  "is_failed (Recorded name failure) = (failure \<noteq> None)"
| "is_failed _ = False"

text \<open>Locust's \<open>Request Count\<close> and \<open>Failure Count\<close>\<close>

definition recorded_count :: "load_entry multiset \<Rightarrow> nat" where
  "recorded_count M = size (filter_mset is_recorded M)"

definition failed_count :: "load_entry multiset \<Rightarrow> nat" where
  "failed_count M = size (filter_mset is_failed M)"

definition bumped :: "load_entry multiset \<Rightarrow> string \<Rightarrow> nat" where
  "bumped M key = count M (Bumped (lit key))"

text \<open>
  Every recorded request has its status counted and every failure its error.  A request that raised is a
  transport error; it may be missing in the statistics, and its status may have been counted as well.
\<close>

definition counters_agree :: "load_entry multiset \<Rightarrow> bool" where
  "counters_agree M \<longleftrightarrow>
     (let statuses = bumped M ''http_2xx'' + bumped M ''http_429'' + bumped M ''http_422'' + bumped M ''http_other''
            + bumped M ''transport_errors'';
          errors = bumped M ''functional_errors'' + bumped M ''transport_errors''
      in recorded_count M \<le> statuses \<and> statuses \<le> recorded_count M + 2 * bumped M ''transport_errors''
       \<and> failed_count M \<le> errors \<and> errors \<le> failed_count M + bumped M ''transport_errors''
       \<and> bumped M ''mask_requests'' + bumped M ''demask_requests'' = bumped M ''http_2xx'')"

text \<open>
  The roundtrips: an incomplete one is a mask without a demask, or a demask whose answer was wrong.
\<close>

definition closed_roundtrips :: "load_entry multiset \<Rightarrow> bool" where
  "closed_roundtrips M \<longleftrightarrow>
     bumped M ''demask_requests'' \<le> bumped M ''mask_requests''
   \<and> bumped M ''incomplete_roundtrips'' + bumped M ''demask_requests''
       \<le> bumped M ''mask_requests'' + bumped M ''functional_errors'' + bumped M ''transport_errors''"

text \<open>What is kept by adding up, and the actions that only add entries with it\<close>

definition emits :: "(load_entry multiset \<Rightarrow> bool) \<Rightarrow> 'a act \<Rightarrow> bool" where
  "emits P p \<longleftrightarrow> (\<forall>tr. \<exists>ch. snd (p tr) = tr @ ch \<and> P (mset ch))"

locale additive =
  fixes P :: "load_entry multiset \<Rightarrow> bool"
  assumes none: "P {#}"
    and sum: "P M \<Longrightarrow> P N \<Longrightarrow> P (M + N)"
begin

lemma emits_silent: "(\<And>tr. snd (p tr) = tr) \<Longrightarrow> emits P p"
  using none by (simp add: emits_def)

lemma emits_return: "emits P (act_return x)"
  by (rule emits_silent) (simp add: act_return_def)

lemma emits_new_id: "emits P (new_id L)"
  by (rule emits_silent) (simp add: new_id_def)

lemma emits_bind:
  assumes "emits P p" and "\<And>x. emits P (k x)"
  shows "emits P (act_bind p k)"
  unfolding emits_def
proof
  fix tr
  obtain r tr' where p: "p tr = (r, tr')" by fastforce
  with assms(1) obtain ch where ch: "tr' = tr @ ch" "P (mset ch)" by (auto simp: emits_def) (metis snd_conv)
  show "\<exists>ch. snd (act_bind p k tr) = tr @ ch \<and> P (mset ch)"
  proof (cases r)
    case (Inl s)
    with p ch show ?thesis by (simp add: act_bind_def)
  next
    case (Inr x)
    obtain ch' where "snd (k x tr') = tr' @ ch'" "P (mset ch')" using assms(2) [of x] by (auto simp: emits_def)
    with p ch Inr sum [of "mset ch" "mset ch'"] show ?thesis by (auto simp: act_bind_def)
  qed
qed

lemma emits_then: "emits P p \<Longrightarrow> emits P q \<Longrightarrow> emits P (act_then p q)"
  by (simp add: act_then_def emits_bind)

lemma emits_skip: "emits P p \<Longrightarrow> emits P (act_skip p)"
  by (simp add: act_skip_def emits_then emits_return)

lemma emits_when_some: "(\<And>x. v = Some x \<Longrightarrow> emits P (k x)) \<Longrightarrow> emits P (when_some v k)"
  by (cases v) (simp_all add: when_some_def emits_return)

lemmas emits_rules = emits_bind emits_then emits_skip emits_when_some emits_return emits_new_id

lemma tasks_emit:
  assumes "emits P (execute_scenario L s)"
  shows "\<exists>ch. run_tasks L s n tr = tr @ ch \<and> P (mset ch)"
proof (induction n arbitrary: tr)
  case 0
  show ?case using none by simp
next
  case (Suc n)
  obtain r tr' where r: "execute_scenario L s tr = (r, tr')" by fastforce
  with assms obtain ch where ch: "tr' = tr @ ch" "P (mset ch)" by (auto simp: emits_def) (metis snd_conv)
  obtain ch' where ch': "run_tasks L s n tr' = tr' @ ch'" "P (mset ch')" using Suc.IH by blast
  have "run_tasks L s (Suc n) tr \<in> {tr', run_tasks L s n tr'}"
    using r by (auto split: sum.splits stop.splits)
  then show ?case using ch ch' sum [of "mset ch" "mset ch'"] by auto
qed

lemma sums: "(\<And>M. M \<in> set Ms \<Longrightarrow> P M) \<Longrightarrow> P (sum_list Ms)"
  by (induction Ms) (auto intro: none sum)

end

interpretation ac: additive counters_agree
  by unfold_locales (simp_all add: counters_agree_def Let_def recorded_count_def failed_count_def bumped_def)

interpretation rt: additive closed_roundtrips
  by unfold_locales (simp_all add: closed_roundtrips_def bumped_def)

section \<open>One request\<close>

definition usual_post :: "post_args \<Rightarrow> bool" where
  "usual_post a \<longleftrightarrow> pt_kind a \<in> {''mask'', ''demask''} \<and> set (pt_expected a) \<subseteq> {422}"

lemma usual_post_as [simp]: "usual_post (post_as name ''mask'' v)" "usual_post (post_as name ''demask'' v)"
  by (simp_all add: usual_post_def post_as_def)

lemma usual_conflict [simp]: "usual_post conflict_args"
  by (simp add: usual_post_def conflict_args_def)

text \<open>
  What a request adds: its entries agree with the counters, its kind is counted at most once and the other kind
  not at all, a returned result was counted, and a counted request without a result is a functional error.
\<close>

definition post_adds :: "string \<Rightarrow> stop + pystr option \<Rightarrow> load_entry multiset \<Rightarrow> bool" where
  "post_adds kind r M \<longleftrightarrow>
     counters_agree M \<and> bumped M ''incomplete_roundtrips'' = 0
   \<and> bumped M ''mask_requests'' + bumped M ''demask_requests'' \<le> 1
   \<and> (kind \<noteq> ''mask'' \<or> bumped M ''demask_requests'' = 0) \<and> (kind = ''mask'' \<or> bumped M ''mask_requests'' = 0)
   \<and> (case r of
        Inl s \<Rightarrow> s = Greenlet_Exit \<and> bumped M ''http_2xx'' = 0
      | Inr None \<Rightarrow> bumped M ''http_2xx'' \<le> bumped M ''functional_errors'' + bumped M ''transport_errors''
      | Inr (Some x) \<Rightarrow> bumped M ''http_2xx'' = 1)"

text \<open>What a request adds whose block raises\<close>

definition raise_adds :: "string \<Rightarrow> load_entry multiset \<Rightarrow> bool" where
  "raise_adds kind M \<longleftrightarrow>
     recorded_count M = 0 \<and> failed_count M = 0 \<and> bumped M ''functional_errors'' = 0
   \<and> bumped M ''transport_errors'' = 0 \<and> bumped M ''incomplete_roundtrips'' = 0
   \<and> bumped M ''http_2xx'' + bumped M ''http_429'' + bumped M ''http_422'' + bumped M ''http_other'' \<le> 1
   \<and> bumped M ''mask_requests'' + bumped M ''demask_requests'' = bumped M ''http_2xx''
   \<and> (kind \<noteq> ''mask'' \<or> bumped M ''demask_requests'' = 0) \<and> (kind = ''mask'' \<or> bumped M ''mask_requests'' = 0)"

lemma counts [simp]:
  "recorded_count {#} = 0" "failed_count {#} = 0" "bumped {#} key = 0"
  "recorded_count (add_mset e M) = (if is_recorded e then Suc (recorded_count M) else recorded_count M)"
  "failed_count (add_mset e M) = (if is_failed e then Suc (failed_count M) else failed_count M)"
  "bumped (add_mset e M) key = (if e = Bumped (lit key) then Suc (bumped M key) else bumped M key)"
  by (simp_all add: recorded_count_def failed_count_def bumped_def)

lemma post_adds_sent [simp]: "post_adds kind r (add_mset Sent M) = post_adds kind r M"
  by (simp add: post_adds_def counters_agree_def split: sum.split option.split)

lemma bumped_union [simp]: "bumped (M + N) key = bumped M key + bumped N key"
  by (simp add: bumped_def)

lemma bump_known [simp]: "key \<in> set CUSTOM_KEYS \<Longrightarrow> bump_metric key tr = (Inr (), tr @ [Bumped key])"
  by (simp add: bump_metric_def)

lemma custom_keys [simp]:
  "lit key \<in> set CUSTOM_KEYS \<longleftrightarrow> key \<in> {''mask_requests'', ''demask_requests'', ''incomplete_roundtrips'', ''http_2xx'',
     ''http_429'', ''http_422'', ''http_other'', ''functional_errors'', ''transport_errors''}"
  by (simp add: CUSTOM_KEYS_def)

lemma bucket_422 [simp]: "lit ''http_'' @ int_str 422 = lit ''http_422''"
  by code_simp

lemma reject_adds: "reject name m tr = (Inr None, tr @ [Bumped (lit ''functional_errors''), Recorded name (Some m)])"
  by (simp add: reject_def act_then_def act_bind_def mark_def)

lemma json_silent:
  "(\<exists>d. parse_json_object body tr = (Inr d, tr)) \<or> (\<exists>e. parse_json_object body tr = (Inl (Exc e), tr))"
  by (cases body) (auto simp: parse_json_object_def split: pyval.splits)

lemma expected_adds:
  "(\<exists>e. expected_body a body tr = (Inl (Exc e), tr))
   \<or> (\<exists>ch. expected_body a body tr = (Inr None, tr @ ch)
       \<and> (ch = [Recorded (pt_name a) None] \<or> (\<exists>m. ch = [Bumped (lit ''functional_errors''), Recorded (pt_name a) (Some m)])))"
  using json_silent [of body tr]
  by (auto simp: expected_body_def mark_def act_bind_def reject_adds split: option.splits)

lemma result_adds:
  assumes "lu_unmarked L 200 = None"
  shows "(\<exists>e. result_body L a body tr = (Inl (Exc e), tr))
   \<or> (\<exists>r ch. result_body L a body tr = (Inr r, tr @ ch)
       \<and> (r \<noteq> None \<and> ch = [Recorded (pt_name a) None]
          \<or> r = None \<and> (\<exists>m. ch = [Bumped (lit ''functional_errors''), Recorded (pt_name a) (Some m)])))"
  using json_silent [of body tr] assms
  by (auto simp: result_body_def mark_def act_bind_def reject_adds split: option.splits pyval.splits)

lemma response_adds:
  assumes "lu_unmarked L 200 = None" and "usual_post a"
  shows "\<exists>ch. (\<exists>r. response_body L a status retry_after body tr = (Inr r, tr @ ch) \<and> post_adds (pt_kind a) (Inr r) (mset ch))
     \<or> (\<exists>e. response_body L a status retry_after body tr = (Inl (Exc e), tr @ ch) \<and> raise_adds (pt_kind a) (mset ch))"
proof -
  have kind: "pt_kind a = ''mask'' \<or> pt_kind a = ''demask''" "status \<in> set (pt_expected a) \<Longrightarrow> status = 422"
    using assms(2) by (auto simp: usual_post_def)
  consider "status = 429" | "status \<noteq> 429" "status \<in> set (pt_expected a)"
    | "status \<notin> set (pt_expected a)" "status \<noteq> 429" "status \<noteq> 200"
    | "status \<notin> set (pt_expected a)" "status = 200" by auto
  then show ?thesis
  proof cases
    case 1
    then show ?thesis
      by (auto simp: response_body_def act_then_def act_bind_def mark_def reject_adds post_adds_def counters_agree_def
          split: option.splits)
  next
    case 2
    with kind(2) have b: "response_body L a status retry_after body tr = expected_body a body (tr @ [Bumped (lit ''http_422'')])"
      by (simp add: response_body_def act_then_def act_bind_def)
    from expected_adds [of a body "tr @ [Bumped (lit ''http_422'')]"] show ?thesis
    proof
      assume "\<exists>e. expected_body a body (tr @ [Bumped (lit ''http_422'')]) = (Inl (Exc e), tr @ [Bumped (lit ''http_422'')])"
      then show ?thesis unfolding b by (intro exI [of _ "[Bumped (lit ''http_422'')]"]) (simp add: raise_adds_def)
    qed (auto simp: b post_adds_def counters_agree_def)
  next
    case 3
    then show ?thesis
      by (auto simp: response_body_def act_then_def act_bind_def reject_adds post_adds_def counters_agree_def)
  next
    case 4
    let ?ch = "[Bumped (lit ''http_2xx''), Bumped (lit (pt_kind a @ ''_requests''))]"
    from 4 kind(1) have b: "response_body L a status retry_after body tr = result_body L a body (tr @ ?ch)"
      by (auto simp: response_body_def act_then_def act_bind_def)
    from result_adds [OF assms(1), of a body "tr @ ?ch"] show ?thesis
    proof
      assume "\<exists>e. result_body L a body (tr @ ?ch) = (Inl (Exc e), tr @ ?ch)"
      with kind(1) show ?thesis unfolding b by (intro exI [of _ ?ch]) (auto simp: raise_adds_def)
    qed (use kind(1) in \<open>auto simp: b post_adds_def counters_agree_def\<close>)
  qed
qed

text \<open>The handler of exceptions turns a request that raised into a transport error.\<close>

lemma handled_adds:
  "raise_adds kind (mset ch) \<Longrightarrow> ch' \<in> {[Bumped (lit ''transport_errors'')], [Recorded name failure, Bumped (lit ''transport_errors'')]} \<Longrightarrow>
   post_adds kind (Inr None) (mset (Sent # ch @ ch'))"
  by (auto simp: raise_adds_def post_adds_def counters_agree_def Let_def)

lemma post_adds_chunk:
  assumes "locust_ok L" and "usual_post a"
  shows "\<exists>ch. snd (load_post L a i p tr) = tr @ ch \<and> post_adds (pt_kind a) (fst (load_post L a i p tr)) (mset ch)"
proof -
  define ch' where "ch' = (case lu_raised L of None \<Rightarrow> [] | Some m \<Rightarrow> [Recorded (pt_name a) (Some m)])
      @ [Bumped (lit ''transport_errors'')]"
  have handled: "post_adds (pt_kind a) (Inr None) (mset (Sent # ch @ ch'))" if "raise_adds (pt_kind a) (mset ch)" for ch
    using handled_adds [OF that, of ch' "pt_name a" "lu_raised L"] by (auto simp: ch'_def split: option.split)
  show ?thesis
  proof (cases "lu_reply L (count_list tr Sent) i p")
    case Killed
    then show ?thesis by (simp add: load_post_def post_adds_def counters_agree_def)
  next
    case Raises
    have "load_post L a i p tr = (Inr None, tr @ Sent # [] @ ch')"
      using Raises by (simp add: load_post_def act_then_def act_bind_def act_return_def ch'_def split: option.split)
    moreover have "raise_adds (pt_kind a) (mset [])" by (simp add: raise_adds_def)
    ultimately show ?thesis using handled [of "[]"] by auto
  next
    case (Response status retry_after body)
    from response_adds [OF assms(1) [unfolded locust_ok_def] assms(2), of status retry_after body "tr @ [Sent]"]
    obtain ch where "(\<exists>r. response_body L a status retry_after body (tr @ [Sent]) = (Inr r, tr @ Sent # ch)
          \<and> post_adds (pt_kind a) (Inr r) (mset (Sent # ch)))
        \<or> (\<exists>e. response_body L a status retry_after body (tr @ [Sent]) = (Inl (Exc e), tr @ Sent # ch)
          \<and> raise_adds (pt_kind a) (mset ch))" by auto
    then show ?thesis
    proof
      assume "\<exists>e. response_body L a status retry_after body (tr @ [Sent]) = (Inl (Exc e), tr @ Sent # ch)
          \<and> raise_adds (pt_kind a) (mset ch)"
      with Response have "load_post L a i p tr = (Inr None, tr @ Sent # ch @ ch') \<and> raise_adds (pt_kind a) (mset ch)"
        by (auto simp: load_post_def act_then_def act_bind_def act_return_def ch'_def split: option.split)
      with handled [of ch] show ?thesis by auto
    qed (use Response in \<open>auto simp: load_post_def\<close>)
  qed
qed

lemma post_as_kind [simp]: "pt_kind (post_as name kind v) = kind"
  by (simp add: post_as_def)

lemma mask_adds:
  "locust_ok L \<Longrightarrow> \<exists>ch. snd (load_mask L i p name tr) = tr @ ch
     \<and> post_adds ''mask'' (fst (load_mask L i p name tr)) (mset ch)"
  using post_adds_chunk [of L "post_as name ''mask'' mask_validator" i p tr] by (simp add: load_mask_def)

lemma demask_adds:
  "locust_ok L \<Longrightarrow> \<exists>ch. snd (load_demask L i p e name tr) = tr @ ch
     \<and> post_adds ''demask'' (fst (load_demask L i p e name tr)) (mset ch)"
  using post_adds_chunk [of L "post_as name ''demask'' (must_equal e ''demask returned a different original'')" i p tr]
  by (simp add: load_demask_def)

lemma post_accounted: "locust_ok L \<Longrightarrow> usual_post a \<Longrightarrow> emits counters_agree (load_post L a i p)"
  using post_adds_chunk [of L a i p] unfolding emits_def post_adds_def by blast

lemma mask_accounted [simp]: "locust_ok L \<Longrightarrow> emits counters_agree (load_mask L i p name)"
  by (simp add: load_mask_def post_accounted)

lemma demask_accounted [simp]: "locust_ok L \<Longrightarrow> emits counters_agree (load_demask L i p e name)"
  by (simp add: load_demask_def post_accounted)

lemma bump_incomplete [simp]: "emits counters_agree (bump_metric (lit ''incomplete_roundtrips''))"
  by (simp add: emits_def counters_agree_def)

lemma scenario_accounted:
  assumes "locust_ok L"
  shows "emits counters_agree (run_scenario L s)"
proof (cases s)
  case Roundtrip
  show ?thesis
    unfolding Roundtrip run_scenario.simps scenario_roundtrip_def
    by (intro ac.emits_rules mask_accounted demask_accounted assms) (simp add: ac.emits_return)
qed (simp only: run_scenario.simps scenario_mask_only_def scenario_mask_retry_def scenario_demask_retry_def
    scenario_duplicate_payload_def scenario_large_payload_def;
    intro ac.emits_rules mask_accounted demask_accounted post_accounted assms; simp)+

lemma execute_emits:
  assumes "additive P" and "\<And>s. emits P (run_scenario L s)"
  shows "emits P (execute_scenario L s)"
  unfolding emits_def
proof
  fix tr
  from assms(2) have "\<exists>ch. snd (run_scenario L s tr) = tr @ ch \<and> P (mset ch)" for s by (simp add: emits_def)
  moreover have "\<exists>ch. tr = tr @ ch \<and> P (mset ch)" using additive.none [OF assms(1)] by simp
  ultimately show "\<exists>ch. snd (execute_scenario L s tr) = tr @ ch \<and> P (mset ch)"
    by (auto simp: execute_scenario_def split: option.split)
qed

lemma tasks_accounted:
  "locust_ok L \<Longrightarrow> counters_agree (mset (run_tasks L s n []))"
  using ac.tasks_emit [OF execute_emits [OF ac.additive_axioms scenario_accounted], of L s n "[]"] by auto

text \<open>The roundtrips\<close>

lemma roundtrip_closed:
  assumes "locust_ok L"
  shows "emits closed_roundtrips (scenario_roundtrip L)"
  unfolding emits_def
proof
  fix tr
  define i where "i = lu_uuid L (count_list tr Sent)"
  define m where "m = load_mask L i LOAD_ORIGINAL ''POST /process [mask]'' tr"
  obtain ch where ch: "snd m = tr @ ch" "post_adds ''mask'' (fst m) (mset ch)"
    using mask_adds [OF assms] unfolding m_def by blast
  show "\<exists>ch. snd (scenario_roundtrip L tr) = tr @ ch \<and> closed_roundtrips (mset ch)"
  proof (cases "fst m")
    case (Inl s)
    with ch show ?thesis
      by (cases m) (auto simp: scenario_roundtrip_def act_bind_def new_id_def i_def m_def post_adds_def closed_roundtrips_def)
  next
    case (Inr r)
    show ?thesis
    proof (cases r)
      case None
      with ch Inr show ?thesis
        by (cases m) (auto simp: scenario_roundtrip_def act_bind_def new_id_def i_def m_def post_adds_def
            closed_roundtrips_def when_some_def act_return_def)
    next
      case (Some masked)
      define d where "d = load_demask L i masked LOAD_ORIGINAL ''POST /process [demask]'' (tr @ ch)"
      obtain ch' where ch': "snd d = tr @ ch @ ch'" "post_adds ''demask'' (fst d) (mset ch')"
        using demask_adds [OF assms, of i masked LOAD_ORIGINAL "''POST /process [demask]''" "tr @ ch"]
        unfolding d_def by (metis append.assoc)
      define tail where
        "tail = (if fst d = Inr None then [Bumped (lit ''incomplete_roundtrips'')] else [])"
      have "snd (scenario_roundtrip L tr) = tr @ ch @ ch' @ tail"
        using ch(1) ch'(1) Inr Some
        by (cases m; cases d) (auto simp: scenario_roundtrip_def act_bind_def new_id_def i_def m_def d_def tail_def
            when_some_def act_return_def split: sum.splits)
      moreover have "closed_roundtrips (mset (ch @ ch' @ tail))"
        using ch(2) ch'(2) Inr Some
        by (auto simp: post_adds_def counters_agree_def closed_roundtrips_def tail_def split: sum.splits option.splits)
      ultimately show ?thesis by blast
    qed
  qed
qed

lemma tasks_close_roundtrips:
  "locust_ok L \<Longrightarrow> closed_roundtrips (mset (run_tasks L (Some Roundtrip) n []))"
proof -
  assume L: "locust_ok L"
  have "emits closed_roundtrips (execute_scenario L (Some Roundtrip))"
    using roundtrip_closed [OF L] by (simp add: execute_scenario_def emits_def)
  from rt.tasks_emit [OF this, of n "[]"] show ?thesis by auto
qed

section \<open>A run and its verdict\<close>

text \<open>
  The updates of a run: those of the first tasks of every user, in any order.  Every update is made under
  the lock or by Locust, and the counts do not depend on the order.
\<close>

definition load_run :: "scenario option \<Rightarrow> (load_user \<times> nat) list \<Rightarrow> load_entry list \<Rightarrow> bool" where
  "load_run s users tr \<longleftrightarrow> mset tr = (\<Sum>(L, n) \<leftarrow> users. mset (run_tasks L s n []))"

lemma run_accounted:
  assumes "load_run s users tr" and "\<forall>(L, n) \<in> set users. locust_ok L"
  shows "counters_agree (mset tr)"
  unfolding assms(1) [unfolded load_run_def] using assms(2) by (intro ac.sums) (auto intro: tasks_accounted)

lemma run_closed:
  assumes "load_run (Some Roundtrip) users tr" and "\<forall>(L, n) \<in> set users. locust_ok L"
  shows "closed_roundtrips (mset tr)"
  unfolding assms(1) [unfolded load_run_def] using assms(2) by (intro rt.sums) (auto intro: tasks_close_roundtrips)

lemma custom_count_bumped: "custom_count tr key = int (bumped (mset tr) key)"
  by (simp add: custom_count_def bumped_def count_mset)

text \<open>The runner reads the counters back.\<close>

lemma written_read:
  "\<exists>rest. read_custom_metrics (Some (write_custom_metrics ft C tr))
     = Some (map (\<lambda>(k, n). (lit k, n)) (custom_snapshot C tr) @ rest)"
  by (simp add: read_custom_metrics_def write_custom_metrics_def custom_snapshot_def List.map_filter_simps)

lemma snapshot_metric:
  "key \<in> fst ` set (custom_snapshot C tr) \<Longrightarrow>
     metric (map (\<lambda>(k, n). (lit k, n)) (custom_snapshot C tr) @ rest) key = the (map_of (custom_snapshot C tr) key)"
  by (auto simp: metric_def custom_snapshot_def)

lemma incomplete_exact:
  assumes "closed_roundtrips (mset tr)" and "failed_count (mset tr) = 0" "custom_count tr ''transport_errors'' = 0"
    and "counters_agree (mset tr)" and "lc_scenario C = lit ''roundtrip''"
  shows "custom_count tr ''mask_requests'' = custom_count tr ''demask_requests'' + incomplete_total C tr"
  using assms by (simp add: closed_roundtrips_def counters_agree_def Let_def incomplete_total_def custom_count_bumped)


section \<open>Examples\<close>

text \<open>A user whose masks are a star; what the demask gives is the argument.\<close>

definition star_user :: "pystr \<Rightarrow> load_user" where
  "star_user original =
     \<lparr>lu_reply = (\<lambda>n i p. Response 200 None
        (Inr (VDict [(VStr (lit ''result''), VStr (if p = LOAD_ORIGINAL then lit ''*'' else original))]))),
      lu_uuid = (\<lambda>n. lit ''id''), lu_random = (\<lambda>n. 0), lu_large_chars = 100, lu_raised = Some [], lu_unmarked = (\<lambda>_. None)\<rparr>"

definition star_config :: load_config where
  "star_config = \<lparr>lc_scenario = lit ''roundtrip'', lc_organizer = False, lc_duration = 480, lc_max_users = 200,
     lc_target_rps = 100, lc_users = 10\<rparr>"

lemma star_ok: "locust_ok (star_user original)"
  by (simp add: locust_ok_def star_user_def)

lemma star_facts:
  "mask_validator (lit ''*'') = None" "lit ''*'' \<noteq> LOAD_ORIGINAL" "[] \<noteq> LOAD_ORIGINAL"
  by code_simp+

lemmas star_run = star_user_def execute_scenario_def scenario_roundtrip_def new_id_def act_bind_def act_then_def
  act_return_def when_some_def load_mask_def load_demask_def load_post_def post_as_def response_body_def result_body_def
  parse_json_object_def mark_def reject_adds must_equal_def dict_get_def star_facts

lemma star_trace:
  "run_tasks (star_user LOAD_ORIGINAL) (Some Roundtrip) 1 []
     = [Sent, Bumped (lit ''http_2xx''), Bumped (lit ''mask_requests''), Recorded ''POST /process [mask]'' None,
        Sent, Bumped (lit ''http_2xx''), Bumped (lit ''demask_requests''), Recorded ''POST /process [demask]'' None]"
  by (simp add: star_run)

lemma wrong_trace:
  "run_tasks (star_user []) (Some Roundtrip) 1 []
     = [Sent, Bumped (lit ''http_2xx''), Bumped (lit ''mask_requests''), Recorded ''POST /process [mask]'' None,
        Sent, Bumped (lit ''http_2xx''), Bumped (lit ''demask_requests''), Bumped (lit ''functional_errors''),
        Recorded ''POST /process [demask]'' (Some (lit ''demask returned a different original'')),
        Bumped (lit ''incomplete_roundtrips'')]"
  by (simp add: star_run)

text \<open>
  A demask with a wrong answer is counted as a demask and as an incomplete roundtrip: one mask is then set
  against one demask and one incomplete roundtrip, and the invariant of the reconciliation does not hold.
\<close>

theorem wrong_demask_counted_twice:
  "custom_count (run_tasks (star_user []) (Some Roundtrip) 1 []) ''mask_requests'' = 1
   \<and> custom_count (run_tasks (star_user []) (Some Roundtrip) 1 []) ''demask_requests'' = 1
   \<and> incomplete_total star_config (run_tasks (star_user []) (Some Roundtrip) 1 []) = 1"
  unfolding wrong_trace by (simp add: custom_count_def incomplete_total_def star_config_def)

end
