(* ===== verification/PerfExample.thy ===== *)
theory PerfExample
  imports PerfRun PerfOutput LoadUser
begin

text \<open>A small run of the performance runner: one target, a hundred requests, half of them masks.\<close>

definition good_row :: csv_row where
  "good_row = map (\<lambda>(k, v). (lit k, Some (lit v)))
     [(''Name'', ''Aggregated''), (''Request Count'', ''100''), (''Failure Count'', ''0''), (''Requests/s'', ''90''),
      (''Average Response Time'', ''5''), (''50%'', ''4''), (''95%'', ''9''), (''99%'', ''20'')]"

definition good_metrics :: pyval where
  "good_metrics = VDict (map (\<lambda>(k, n). (VStr (lit k), VInt n))
     [(''http_2xx'', 99), (''http_429'', 1), (''http_422'', 0), (''http_other'', 0), (''transport_errors'', 0),
      (''mask_requests'', 50), (''demask_requests'', 49), (''functional_errors'', 0), (''incomplete_roundtrips'', 1)])"

text \<open>The directory holds the files of an earlier run, which had no failures either.\<close>

definition good_files :: "run_file files" where
  "good_files = [(lit ''final_stats.csv'', \<lparr>rf_rows = [good_row], rf_json = None\<rparr>),
     (lit ''custom_metrics.json'', \<lparr>rf_rows = [], rf_json = Some good_metrics\<rparr>)]"

definition stale_files :: "run_file files" where
  "stale_files = [(lit ''final_stats.csv'', \<lparr>rf_rows = [[]], rf_json = None\<rparr>),
     (lit ''stats_stats.csv'', \<lparr>rf_rows = [[]], rf_json = None\<rparr>)]"

definition good_run :: run_world where
  "good_run = \<lparr>wo_returncode = 0, wo_psutil_ok = True, wo_process_ticks = [Some (10, 1048576)], wo_compose = (\<lambda>_. None),
     wo_docker_ticks = [], wo_docker_alive = False, wo_conn_psutil_ok = True,
     wo_connection_ticks = [None, Some [\<lparr>cn_status = lit ''ESTABLISHED'', cn_raddr = Some (lit ''127.0.0.1'', 8000)\<rparr>]],
     wo_connections_alive = False, wo_wall_seconds = 60, wo_before = stale_files,
     wo_locked = (\<lambda>name. name = lit ''stats_stats.csv''), wo_written = good_files\<rparr>"

definition good_args :: perf_args where
  "good_args = \<lparr>pa_profile = Steps, pa_targets = Some (lit '' 100,''), pa_scenario = lit ''roundtrip'', pa_duration = 60,
     pa_min_duration_for_stable = 30, pa_rps_per_user = Fin 10, pa_spawn_rate = Fin 100, pa_max_users = 200,
     pa_max_error_rate = Fin 1, pa_max_p95_ms = Fin 200, pa_max_p99_ms = Fin 500, pa_min_achieved_ratio = Fin (7 / 8),
     pa_required_concurrent_users = 0, pa_required_concurrent_connections = 1, pa_min_peak_ratio = Fin 0,
     pa_max_incomplete_ratio = Fin (1 / 32)\<rparr>"

definition ready_value :: pyval where
  "ready_value = VDict [(VStr (lit ''status''), VStr (lit ''ready''))]"

definition good_health :: fetched where
  "good_health = Fetched 200 (dumps ready_value)"

definition good_host :: "url_parts option" where
  "good_host = Some \<lparr>up_scheme = lit ''http'', up_hostname = Some (lit ''localhost''), up_port = Inr (Some 8000)\<rparr>"

definition good_gate :: gate where
  "good_gate = gate_of ucd_ru good_args (run_locust ucd_ru (parse_host_port good_host) good_run)
     (AList.merge [(lit ''stats_stats.csv'', \<lparr>rf_rows = [[]], rf_json = None\<rparr>)] good_files) (Fin 100) 10 60 (Fin 100) None (Fin 0)"

lemma good_gate_limits:
  "ga_max_error_rate good_gate = Fin 1" "ga_max_incomplete_ratio good_gate = Fin (1 / 32)" "ga_target_rps good_gate = Fin 100"
  "ga_min_achieved_ratio good_gate = Fin (7 / 8)" "ga_locust_exit_code good_gate = 0" "ga_max_p95_ms good_gate = Fin 200"
  "ga_max_p99_ms good_gate = Fin 500" "ga_measured_duration good_gate = None"
  by code_simp+

lemma good_reads:
  "ebind (number_of ucd_ru good_row ''Request Count'') flt_int = Inr 100"
  "ebind (number_of ucd_ru good_row ''Failure Count'') flt_int = Inr 0" "number_of ucd_ru good_row ''Requests/s'' = Inr (Fin 90)"
  "number_of ucd_ru good_row ''Average Response Time'' = Inr (Fin 5)" "number_of ucd_ru good_row ''50%'' = Inr (Fin 4)"
  "number_of ucd_ru good_row ''95%'' = Inr (Fin 9)" "number_of ucd_ru good_row ''99%'' = Inr (Fin 20)"
  by code_simp+

lemma good_rates:
  "flt_mult (int_ratio 0 100) (Fin 100) = Fin 0" "flt_round (9 / 10) = Fin (8106479329266893 / 2 ^ 53)"
  by code_simp+

lemma good_counters:
  "ga_custom_metrics good_gate = read_custom_metrics (Some good_metrics)"
  "(case read_custom_metrics (Some good_metrics) of None \<Rightarrow> False | Some d \<Rightarrow> metrics_violations good_gate 100 0 d = []
      \<and> metric d ''mask_requests'' = 50 \<and> metric d ''incomplete_roundtrips'' = 1)"
  by code_simp+

lemma good_load: "load_violations good_gate = []"
  by code_simp

lemma good_result: "case build_result ucd_ru good_row good_gate of Inl e \<Rightarrow> False
    | Inr r \<Rightarrow> sr_passed r \<and> sr_requests r = 100 \<and> sr_failures r = 0 \<and> sr_mask_requests r = 50
       \<and> sr_incomplete_roundtrips r = 1 \<and> sr_achieved_rps r = Fin 90"
  using good_counters
  by (simp add: build_result_def Let_def good_reads good_gate_limits good_rates good_load flag_def flt_true_def
      split: option.splits)

lemma good_ready: "check_health good_health = Inr ()"
proof -
  obtain s where s: "dumps ready_value = Some s" by (simp add: ready_value_def)
  moreover have "json_ok ready_value" by (simp add: ready_value_def lit_def is_scalar_def)
  ultimately have "loads s = Some ready_value" by (rule loads_dumps)
  with s show ?thesis by (simp add: good_health_def check_health_def ready_value_def dict_get_def)
qed

lemma good_args_ok: "\<not> args_error good_args"
  by code_simp

lemma good_targets: "parse_targets ucd_ru (lit '' 100,'') = Inr [Fin 100]"
  by code_simp

lemma good_users: "step_users good_args (Fin 100) = Inr 10"
  by code_simp

lemma good_judge: "judge ucd_ru good_args (parse_host_port good_host) good_run (Fin 100) 10 60 (Fin 100) None (Fin 0)
    = build_result ucd_ru good_row good_gate"
proof -
  have w: "wo_before good_run = stale_files" "wo_written good_run = good_files" "wo_returncode good_run = 0"
    by (simp_all add: good_run_def)
  have kept: "reset_step_outputs (wo_locked good_run) stale_files
      = Inr [(lit ''stats_stats.csv'', \<lparr>rf_rows = [[]], rf_json = None\<rparr>)]"
    by (simp add: reset_step_outputs_def STEP_OUTPUTS_def stale_files_def good_run_def lit_def)
  have final: "fst (final_aggregate (AList.merge [(lit ''stats_stats.csv'', \<lparr>rf_rows = [[]], rf_json = None\<rparr>)] good_files) 0)
      = good_row" by code_simp
  show ?thesis by (simp add: judge_def w kept final good_gate_def)
qed

lemma good_exit: "perf_main ucd_ru good_args good_health good_host (\<lambda>_. good_run) = Exit 0"
proof -
  have a: "pa_targets good_args = Some (lit '' 100,'')" "pa_duration good_args = 60" "lit '' 100,'' \<noteq> []"
    "pa_profile good_args = Steps"
    by (simp_all add: good_args_def lit_def)
  show ?thesis
    using good_result
    by (auto simp: perf_main_def good_args_ok good_ready a good_targets run_steps_def good_users good_judge
        split: sum.splits)
qed

lemma good_numbers:
  assumes "build_result ucd_ru good_row good_gate = Inr r"
  shows "counters_small r \<and> rates_ordinary good_gate r"
proof -
  from good_result assms have r: "sr_requests r = 100" "sr_failures r = 0" "sr_mask_requests r = 50"
    "sr_incomplete_roundtrips r = 1" "sr_achieved_rps r = Fin 90" by simp_all
  have "rates_ordinary good_gate r"
    unfolding rates_ordinary_def good_gate_limits r(5)
    by (intro exI conjI, (rule refl | simp add: ordinary_def)+)
  then show ?thesis by (simp add: counters_small_def r)
qed


theorem report_rows_align_witness:
  "\<exists>r. build_result ucd_ru good_row good_gate = Inr r \<and> cells_of (table_row (result_cells r)) = 24
   \<and> last (result_cells r) = lit ''PASS''"
proof -
  obtain r where r: "build_result ucd_ru good_row good_gate = Inr r" "sr_passed r"
    using good_result by (auto split: sum.splits)
  from report_rows_align [OF r(1)] r show ?thesis by (intro exI [of _ r]) simp
qed

text \<open>A load test with one roundtrip whose demask was wrong: the runner is right to blame it.\<close>

definition wrong_run :: "load_entry list" where
  "wrong_run = run_tasks (star_user []) (Some Roundtrip) 1 []"

definition wrong_metrics :: "(pystr \<times> int) list" where
  "wrong_metrics = map (\<lambda>(k, n). (lit k, n))
     [(''mask_requests'', 1), (''demask_requests'', 1), (''incomplete_roundtrips'', 1), (''http_2xx'', 2), (''http_429'', 0),
      (''http_422'', 0), (''http_other'', 0), (''functional_errors'', 1), (''transport_errors'', 0),
      (''total_http_requests'', 2), (''users'', 10)]"


text \<open>The exit code of this run, and what follows for it\<close>

theorem runner_green_witness:
  "perf_main ucd_ru good_args good_health good_host (\<lambda>_. good_run) = Exit 0
   \<and> clean_run ucd_ru good_args (parse_host_port good_host) good_run"
proof -
  have a: "pa_profile good_args = Steps" "pa_max_error_rate good_args = Fin 1" "(1::rat) < 100"
    by (simp_all add: good_args_def)
  from runner_green [OF good_exit a] show ?thesis using good_exit by auto
qed

end
