(* ===== verification/Wiring.thy ===== *)
theory Wiring
  imports Service RedisStore PerfSampling
begin

text \<open>
  The composition root \<open>app/api/dependencies.py\<close> with \<open>app/config/settings.py\<close>, the set-up of the logger in
  \<open>app/observability/logging.py\<close>, and the request-context middleware that \<open>app/main.py\<close> does not mount.
  How pydantic reads the environment and the \<open>.env\<close> file is outside: a \<open>settings\<close> record is its outcome.
  \<open>os.environ\<close>, which the stores read themselves, is a map of its own.
\<close>

section \<open>Settings\<close>

record settings =
  st_app_env :: pystr
  st_log_level :: pystr
  st_log_format :: pystr
  st_restoration_ttl_seconds :: int
  st_restoration_max_entries :: int
  st_restoration_store_backend :: pystr
  st_redis_url :: pystr
  st_masking_key :: pystr
  st_consumers_dir :: pystr
  st_default_consumer_id :: pystr
  st_host :: pystr
  st_port :: int
  st_detection_llm_enabled :: bool
  st_llm_api_key :: pystr
  st_llm_base_url :: pystr
  st_rate_limit_max_requests :: int
  st_rate_limit_window_seconds :: rat

definition default_settings :: "pystr \<Rightarrow> settings" where
  "default_settings project_root =
     \<lparr>st_app_env = lit ''development'', st_log_level = lit ''INFO'', st_log_format = lit ''json'',
      st_restoration_ttl_seconds = 3600, st_restoration_max_entries = 1000000,
      st_restoration_store_backend = lit ''memory'', st_redis_url = lit ''redis://localhost:6379/0'',
      st_masking_key = [], st_consumers_dir = project_root @ lit ''/configs/consumers'',
      st_default_consumer_id = lit ''default'', st_host = lit ''0.0.0.0'', st_port = 8000,
      st_detection_llm_enabled = False, st_llm_api_key = [], st_llm_base_url = [],
      st_rate_limit_max_requests = 1000, st_rate_limit_window_seconds = 1\<rparr>"

section \<open>The services\<close>

text \<open>
  \<open>get_restoration_store\<close>: the Redis store behind a client for the URL, or the in-memory store with the
  source of its key.
\<close>

datatype wired_store = Redis_Backend pystr redis_store | Memory_Backend mstore key_source

definition get_restoration_store ::
    "ucd \<Rightarrow> (pystr \<Rightarrow> fernet) \<Rightarrow> (byte list \<Rightarrow> byte list \<Rightarrow> pystr) \<Rightarrow> (pystr \<rightharpoonup> pystr) \<Rightarrow> settings
      \<Rightarrow> exn + wired_store" where
  "get_restoration_store U fern mac environ s =
     (if st_restoration_store_backend s = lit ''redis''
      then ebind (RedisRestorationStore fern mac (st_restoration_ttl_seconds s) (Some (st_masking_key s)) None
                    (environ (lit ''MASKING_KEY''))) (\<lambda>C. Inr (Redis_Backend (st_redis_url s) C))
      else ebind (build_fernet_memory U (Some (st_masking_key s)) (environ (lit ''MASKING_KEY''))
                    (environ (lit ''APP_ENV''))) (\<lambda>k.
             Inr (Memory_Backend (InMemoryRestorationStore (of_int (st_restoration_ttl_seconds s))
                    (st_restoration_max_entries s)) k)))"

text \<open>
  \<open>_OpenAICompatClient\<close>: \<open>post\<close> is the HTTP call with its status check; it takes the URL, the headers and
  the body and gives the JSON value of the answer or raises.
\<close>

type_synonym http_post = "pystr \<Rightarrow> (pystr \<times> pystr) list \<Rightarrow> pyval \<Rightarrow> exn + pyval"

record openai_client =
  oc_base_url :: pystr
  oc_api_key :: pystr

definition OpenAICompatClient :: "pystr \<Rightarrow> pystr \<Rightarrow> openai_client" where
  "OpenAICompatClient base_url api_key =
     \<lparr>oc_base_url = rstrip_by (\<lambda>c. c = 47) base_url, oc_api_key = api_key\<rparr>"

definition chat_message :: "string \<Rightarrow> pystr \<Rightarrow> pyval" where
  "chat_message role content = VDict [(VStr (lit ''role''), VStr (lit role)), (VStr (lit ''content''), VStr content)]"

text \<open>\<open>v[0]\<close> on a parsed JSON value: a string has characters, a dictionary only string keys.\<close>

fun first_item :: "pyval \<Rightarrow> exn + pyval" where
  "first_item (VList []) = Inl IndexError"
| "first_item (VList (x # xs)) = Inr x"
| "first_item (VStr []) = Inl IndexError"
| "first_item (VStr (c # cs)) = Inr (VStr [c])"
| "first_item (VDict d) = Inl KeyError"
| "first_item _ = Inl TypeError"

definition complete :: "http_post \<Rightarrow> openai_client \<Rightarrow> pystr \<Rightarrow> pyval list \<Rightarrow> exn + pystr" where
  "complete post c system messages =
     (let payload = VDict [(VStr (lit ''model''), VStr (lit ''gpt-4o-mini'')), (VStr (lit ''temperature''), VInt 0),
            (VStr (lit ''messages''), VList (chat_message ''system'' system # messages))];
          headers = [(lit ''Authorization'', lit ''Bearer '' @ oc_api_key c)]
      in ebind (post (oc_base_url c @ lit ''/chat/completions'') headers payload) (\<lambda>answer.
         ebind (get_item answer ''choices'') (\<lambda>choices.
         ebind (first_item choices) (\<lambda>choice.
         ebind (get_item choice ''message'') (\<lambda>msg.
         ebind (get_item msg ''content'') (\<lambda>content. Inr (py_str content)))))))"

text \<open>\<open>_complete_cached\<close> without its cache: the fixed prompt and examples, then the text\<close>

definition wired_client :: "(nat \<Rightarrow> http_post) \<Rightarrow> openai_client \<Rightarrow> pystr \<Rightarrow> pyval list \<Rightarrow> llm_client" where
  "wired_client posts c system examples n txt = complete (posts n) c system (examples @ [chat_message ''user'' txt])"

definition get_detectors ::
    "ucd \<Rightarrow> date \<Rightarrow> (nat \<Rightarrow> http_post) \<Rightarrow> pystr \<Rightarrow> pyval list \<Rightarrow> llm_state \<Rightarrow> settings \<Rightarrow> detector list" where
  "get_detectors U today posts system examples cache s =
     regex_detector U today #
     (if st_detection_llm_enabled s
      then [llm_detector (wired_client posts (OpenAICompatClient (st_llm_base_url s) (st_llm_api_key s)) system examples)
              True cache]
      else [])"

definition get_detection_engine ::
    "ucd \<Rightarrow> date \<Rightarrow> (nat \<Rightarrow> rat) \<Rightarrow> (nat \<Rightarrow> http_post) \<Rightarrow> pystr \<Rightarrow> pyval list \<Rightarrow> llm_state \<Rightarrow> settings
      \<Rightarrow> pystr \<Rightarrow> detection_context \<Rightarrow> exn + detection_result" where
  "get_detection_engine U today clk posts system examples cache s =
     engine_detect clk (get_detectors U today posts system examples cache s)"

definition get_rate_limiter :: "settings \<Rightarrow> limiter" where
  "get_rate_limiter s = SlidingWindowRateLimiter (st_rate_limit_max_requests s) (st_rate_limit_window_seconds s)"

section \<open>The logger\<close>

text \<open>
  \<open>configure_logging\<close>: the application logger gets the level and one handler, and no longer passes records
  on.  \<open>setLevel\<close> raises \<open>ValueError\<close> for a name that is none of the levels.
\<close>

datatype formatter = Json_Formatter | Text_Formatter

record logger =
  lg_level :: pystr
  lg_handlers :: "formatter list"
  lg_propagate :: bool

definition build_formatter :: "ucd \<Rightarrow> pystr \<Rightarrow> formatter" where
  "build_formatter U log_format = (if str_lower U log_format = lit ''json'' then Json_Formatter else Text_Formatter)"

definition LEVELS :: "pystr list" where
  "LEVELS = map lit [''CRITICAL'', ''FATAL'', ''ERROR'', ''WARN'', ''WARNING'', ''INFO'', ''DEBUG'', ''NOTSET'']"

definition configure_logging :: "ucd \<Rightarrow> (pystr \<Rightarrow> pystr) \<Rightarrow> settings \<Rightarrow> logger \<Rightarrow> exn + logger" where
  "configure_logging U str_upper s lg =
     (let level = str_upper (st_log_level s) in
      if level \<in> set LEVELS
      then Inr \<lparr>lg_level = level, lg_handlers = [build_formatter U (st_log_format s)], lg_propagate = False\<rparr>
      else Inl ValueError)"

section \<open>The request-context middleware\<close>

record asgi_scope =
  as_type :: pystr
  as_headers :: "(byte list \<times> byte list) list"
  as_state :: "(pystr \<times> pystr) list option"

record asgi_message =
  am_type :: pystr
  am_headers :: "(byte list \<times> byte list) list option"

definition REQUEST_ID_BYTES :: "byte list" where
  "REQUEST_ID_BYTES = map of_char ''x-request-id''"

definition send_wrapper :: "byte list \<Rightarrow> asgi_message \<Rightarrow> asgi_message" where
  "send_wrapper request_id msg =
     (if am_type msg = lit ''http.response.start''
      then msg\<lparr>am_headers := Some ((case am_headers msg of None \<Rightarrow> [] | Some hs \<Rightarrow> hs) @ [(REQUEST_ID_BYTES, request_id)])\<rparr>
      else msg)"

text \<open>
  The wrapped application sends a list of messages.  \<open>dict(headers)\<close> keeps the last value of a repeated
  header; a scope without \<open>state\<close> raises \<open>KeyError\<close>, an id that is no UTF-8 a \<open>ValueError\<close>.
\<close>

definition request_context ::
    "(asgi_scope \<Rightarrow> exn + asgi_message list) \<Rightarrow> byte list \<Rightarrow> asgi_scope \<Rightarrow> exn + asgi_message list" where
  "request_context app uuid scope =
     (if as_type scope \<noteq> lit ''http'' then app scope
      else let found = map_of (rev (as_headers scope)) REQUEST_ID_BYTES;
               request_id = (case found of Some (b # bs) \<Rightarrow> b # bs | _ \<Rightarrow> uuid)
           in (case utf8_decode request_id of None \<Rightarrow> Inl ValueError
               | Some decoded \<Rightarrow>
                   (case as_state scope of None \<Rightarrow> Inl KeyError
                    | Some state \<Rightarrow>
                        ebind (app (scope\<lparr>as_state := Some (AList.update (lit ''request_id'') decoded state)\<rparr>))
                          (\<lambda>ms. Inr (map (send_wrapper request_id) ms)))))"

section \<open>What the wiring gives\<close>

lemma or_str_simps [simp]:
  "or_str None b = b" "or_str (Some []) b = b" "or_str (Some (c # cs)) b = Some (c # cs)"
  by (simp_all add: or_str_def)

text \<open>A Redis store is never wired with a key that no other worker has.\<close>

lemma build_fernet_redis_key:
  assumes "build_fernet_redis (Some key) env_key = Inr src"
  shows "\<exists>k. src = KeyGiven k \<and> k \<noteq> [] \<and> (k = key \<or> env_key = Some k)"
  using assms by (cases key) (auto simp: build_fernet_redis_def split: option.splits list.splits)

lemma redis_store_key:
  assumes "RedisRestorationStore fern mac ttl (Some key) None env_key = Inr C"
  shows "\<exists>k. k \<noteq> [] \<and> rc_fernet C = fern k \<and> (k = key \<or> env_key = Some k)"
proof -
  from assms obtain src where src: "build_fernet_redis (Some key) env_key = Inr src"
    and C: "rc_fernet C = fern (case src of KeyGiven k \<Rightarrow> k | KeyGenerated \<Rightarrow> [])"
    unfolding RedisRestorationStore_def Let_def by (auto simp: ebind_eq_Inr split: option.splits if_splits)
  from build_fernet_redis_key [OF src] C show ?thesis by auto
qed

lemma wired_redis_key:
  assumes "get_restoration_store U fern mac environ s = Inr (Redis_Backend url C)"
  shows "\<exists>k. k \<noteq> [] \<and> rc_fernet C = fern k \<and> (k = st_masking_key s \<or> environ (lit ''MASKING_KEY'') = Some k)"
  using assms redis_store_key by (auto simp: get_restoration_store_def ebind_eq_Inr split: if_splits)

text \<open>
  The in-memory store makes up a key exactly when none is set and the process environment does not say
  production; the setting \<open>app_env\<close> itself is not asked.
\<close>

lemma wired_generated_key:
  assumes "st_restoration_store_backend s \<noteq> lit ''redis''"
  shows "(\<exists>m. get_restoration_store U fern mac environ s = Inr (Memory_Backend m KeyGenerated)) \<longleftrightarrow>
     st_masking_key s = [] \<and> environ (lit ''MASKING_KEY'') \<in> {None, Some []}
     \<and> str_lower U (case environ (lit ''APP_ENV'') of None \<Rightarrow> lit ''development'' | Some e \<Rightarrow> e) \<noteq> lit ''production''"
  using assms
  by (cases "st_masking_key s")
    (auto simp: get_restoration_store_def build_fernet_memory_def split: option.splits list.splits if_splits)

text \<open>
  C40: The wired engine never raises (error).  Whatever the settings are, whatever the LLM endpoint answers or
  raises, with any cache, the engine returns a result for every text, and each entity in it has a span of the
  text that reads the entity's value.
\<close>

theorem wired_engine_located:
  "\<exists>r. get_detection_engine U today clk posts system examples cache s txt ctx = Inr r
     \<and> set (dr_entities r) \<subseteq> {e. located txt e}"
  unfolding get_detection_engine_def
  using engine_located [of "get_detectors U today posts system examples cache s" clk "txt" ctx]
    regexd.detect_honest [of U today] llmd.detect_honest
  by (auto simp: get_detectors_def)

end
