(* ===== verification/RedisProxy.thy ===== *)
theory RedisProxy
  imports ProxyExample RedisStore
begin

text \<open>
  The proxy over the Redis store, as \<open>app/api/dependencies.py\<close> wires it when the backend is \<open>redis\<close>: several
  workers share one server, and a request is served by any of them.  A worker is a configuration of the store
  with the same key and secret; the requests run one after the other, none disturbed inside a transition
  (\<open>RedisStore\<close> treats the disturbed ones).
\<close>

abbreviation redis_process where
  "redis_process R C \<equiv> process (redis_get R C) (redis_transition R C)"

abbreviation redis_time where
  "redis_time \<equiv> in_time undisturbed (\<lambda>env. re_get env 0) (\<lambda>env. re_get env 0) (\<lambda>env. re_exec env 0)"


text \<open>Over Redis, too, an original text is only answered to the consumer whose record holds it.\<close>

lemma redis_demask_own:
  assumes "redis_inv R C st" and "services_ok S policy payload" and "undisturbed env1" "undisturbed env2"
    and "re_get env1 0 \<le> re_get env2 0"
    and "redis_process R C S P env1 env2 clk payload pid policy st m = (Inr oc, st', m')"
    and "oc_operation oc = DEMASK"
  shows "\<exists>key c. state_key (sv_sha256 S) (cp_consumer_id policy) pid = Inr key
    \<and> redis_look R C st key (re_get env2 0) = Some c \<and> rs_consumer_id c = cp_consumer_id policy
    \<and> rs_masked_text c = payload \<and> oc_result oc = rs_original_text c
    \<and> (cp_demasking_enabled policy \<or> rs_state c = DEMASKED)"
  using rds.demasks_own [of R C st S policy payload env1 env2 P clk pid m oc st' m'] assms by blast

section \<open>A run\<close>

definition quiet :: "rat \<Rightarrow> server renv" where
  "quiet t = \<lparr>re_get = (\<lambda>_. t), re_exec = (\<lambda>_. t), re_nonce = (\<lambda>_. 0), re_before = (\<lambda>_. id), re_mid = (\<lambda>_. id),
     re_late = (\<lambda>_. id)\<rparr>"

lemma quiet_times [simp]: "undisturbed (quiet t)" "re_get (quiet t) 0 = t" "re_exec (quiet t) 0 = t"
  by (simp_all add: quiet_def undisturbed_def)

text \<open>A reversible encryption into ASCII: every byte in unary\<close>

fun unary :: "nat \<Rightarrow> byte list \<Rightarrow> byte list option" where
  "unary k [] = (if k = 0 then Some [] else None)"
| "unary k (c # cs) = (if c = 0 then unary (Suc k) cs else map_option (Cons k) (unary 0 cs))"

definition unary_fernet :: fernet where
  "unary_fernet = \<lparr>f_encrypt = (\<lambda>n bs. concat (map (\<lambda>b. replicate b 0 @ [1]) bs)), f_decrypt = unary 0\<rparr>"

lemma unary_byte: "unary k (replicate b 0 @ 1 # cs) = map_option (Cons (k + b)) (unary 0 cs)"
  by (induction b arbitrary: k) auto

lemma unary_concat: "unary 0 (concat (map (\<lambda>b. replicate b 0 @ [1]) bs)) = Some bs"
  by (induction bs) (simp_all add: unary_byte [simplified])

definition worker :: redis_store where
  "worker = sample_redis\<lparr>rc_fernet := unary_fernet\<rparr>"

lemma worker_distinct: "keys_distinct worker"
  using encode_inject
  by (auto simp: keys_distinct_def redis_key_def worker_def sample_redis_def encode_def split: option.splits)

lemma empty_inv: "redis_inv reference_redis worker empty_server"
  using reference_redis_ok worker_distinct unary_concat
  by (auto simp: redis_inv_def empty_server_def reference_redis_def worker_def fernet_text_def fernet_ok_def
      unary_fernet_def)

lemma worker_first:
  assumes "state_key toy_digest (cp_consumer_id mail_policy) (lit ''1'') = Inr key"
  shows "\<exists>oc st1 m1. redis_process reference_redis worker mail_services (\<lambda>_ r. Inr r) (quiet 0) (quiet 0) (\<lambda>_. 0)
      mail (lit ''1'') mail_policy empty_server no_metrics = (Inr oc, st1, m1) \<and> oc_result oc = mail_mask"
proof -
  obtain c where c: "prepare_mask mail_services mail key mail_policy = Inr c" "rs_masked_text c = mail_mask"
    using mail_prepared by blast
  note ok = mail_state_ok [OF assms c(1)]
  have pid: "rs_payload_id c = key" using prepare_mask_fields [OF c(1)] by simp
  then have sc: "list_all is_scalar key" using ok by (auto simp: state_ok_def)
  have absent: "redis_look reference_redis worker empty_server p t = None" for p t
    by (simp add: redis_look_def redis_read_def empty_server_def reference_redis_def split: sum.split)
  have g: "redis_get reference_redis worker (quiet 0) key empty_server = (Inr None, empty_server)"
    using rds.get_law [OF empty_inv quiet_times(1) [of 0] sc] absent [of key 0]
    by (auto simp: redis_get_def Let_def quiet_def)
  obtain k where k: "redis_key worker key = Inr k" using redis_key_scalar [OF sc] by blast
  have "fernet_ok (rc_fernet worker)" "fernet_text (rc_fernet worker)" using empty_inv by (auto simp: redis_inv_def)
  from redis_encode_decode [OF this ok pid, of "re_nonce (quiet 0) 0"] obtain v where
    v: "redis_encode worker (re_nonce (quiet 0) 0) c = Inr v" by auto
  have "mail_step key c None = Inr (Some c)" by (simp add: transition_state_def)
  then obtain st' where "redis_transition reference_redis worker (quiet 0) key (mail_step key c) empty_server = (Inr (Some c), st')"
    using redis_undisturbed [OF quiet_times(1) empty_inv k, of 0 "mail_step key c"] v
    by (simp add: absent redis_command_def)
  from mail_first_any [where get = "redis_get reference_redis worker" and transition = "redis_transition reference_redis worker",
      OF assms c g this] show ?thesis by blast
qed


end
