(* ===== verification/Prompts.thy ===== *)
theory Prompts
  imports Wiring
begin

text \<open>
  The fixed texts of \<open>app/detection/llm_detector.py\<close>: the system prompt and the worked example that go before
  the text of every request to the model.
\<close>

section \<open>Texts\<close>

text \<open>The lines of the prompt; 8212 is the dash.\<close>

definition SYSTEM_PROMPT :: pystr where
  "SYSTEM_PROMPT = str_join [10]
     [[],
      ru ''Najdi w tekste personalxnye dannye i werni '' @ lit ''JSON.'',
      [],
      ru ''Tipy: '' @ lit ''PERSON_NAME, BIRTH_DATE, BIRTH_PLACE, CITIZENSHIP, PASSPORT_NUMBER,'',
      lit ''PASSPORT_ISSUER, PASSPORT_DIVISION_CODE, PASSPORT_ISSUE_DATE, DRIVER_LICENSE,'',
      lit ''ADDRESS, EMAIL, PHONE, INN, BANK_CARD, CVV, PIN, CARDHOLDER_NAME.'',
      [],
      ru ''Prawila:'',
      lit ''- \"text\" '' @ [8212] @ ru '' to^naq podstroka iz teksta, simwol w simwol.'',
      ru ''- Adres wozwra]aj odnim fragmentom celikom.'',
      ru ''- Odno zna^enie '' @ [8212] @ ru '' odna zapisx, dave esli wstre^aetsq neskolxko raz.'',
      ru ''- Nahodi ws#, ^to pohove na PD. Somnewae[xsq '' @ [8212] @ ru '' wozwra]aj.'',
      ru ''- Tolxko '' @ lit ''JSON, '' @ ru ''bez '' @ lit ''markdown '' @ ru ''i poqsnenij.'',
      [],
      ru ''Format: '' @ lit ''{\"entities\":[{\"type\":\"EMAIL\",\"text\":\"a@b.ru\"}]}'',
      []]"

definition FEW_SHOT_USER :: pystr where
  "FEW_SHOT_USER =
     ru ''Klient Iwanow Iwan Iwanowi^, 12.03.1985 g.r., pasport 4510 123456, ''
     @ ru ''g. Moskwa, ul. Lenina, d. 5, kw. 12, tel. +7 999 123-45-67, '' @ lit ''ivanov@mail.ru''"

text \<open>The entries of the answer, and the answer they make up\<close>

definition FEW_SHOT_ENTRIES :: "(pii_type \<times> pystr) list" where
  "FEW_SHOT_ENTRIES =
     [(PERSON_NAME, ru ''Iwanow Iwan Iwanowi^''),
      (BIRTH_DATE, lit ''12.03.1985''),
      (PASSPORT_NUMBER, lit ''4510 123456''),
      (ADDRESS, ru ''g. Moskwa, ul. Lenina, d. 5, kw. 12''),
      (PHONE, lit ''+7 999 123-45-67''),
      (EMAIL, lit ''ivanov@mail.ru'')]"

definition few_shot_entry :: "pii_type \<times> pystr \<Rightarrow> pystr" where
  "few_shot_entry e =
     lit ''{\"type\":\"'' @ pii_value (fst e) @ lit ''\",\"text\":\"'' @ snd e @ lit ''\"}''"

definition FEW_SHOT_ASSISTANT :: pystr where
  "FEW_SHOT_ASSISTANT =
     lit ''{\"entities\":['' @ str_join (lit '','') (map few_shot_entry FEW_SHOT_ENTRIES) @ lit '']}''"

definition MESSAGES :: "pyval list" where
  "MESSAGES = [chat_message ''user'' FEW_SHOT_USER, chat_message ''assistant'' FEW_SHOT_ASSISTANT]"

text \<open>The completion that is cached, with the client of the composition root\<close>

definition prompted_client :: "(nat \<Rightarrow> http_post) \<Rightarrow> openai_client \<Rightarrow> llm_client" where
  "prompted_client posts c = wired_client posts c SYSTEM_PROMPT MESSAGES"

end
