(* ===== verification/Smoke.thy ===== *)
theory Smoke
  imports ProxyExample PyFloat
begin

text \<open>
  \<open>scripts/smoke_test.py\<close> and the client that \<open>smoke_validate_zip\<close> runs inside an unpacked archive: a
  conversation with the service, with assertions on its answers.  A script is a function of the state of
  the other side and of the lines printed so far; what answers it is the argument \<open>send\<close>.  For the
  application of theory \<open>Service\<close> the conversation is proved to succeed.
\<close>

section \<open>Scripts\<close>

datatype client_request = Get_Request pystr | Post_Request pystr pyval pystr

record client_reply =
  cr_status :: int
  cr_body_text :: pystr
  cr_json :: "pyval option"

text \<open>What ends a script early: a failed assertion with its message, the HTTP client, or the reading of a body\<close>

datatype script_error = AssertionError pystr | ClientError | BodyError exn

type_synonym 's server_side = "client_request \<Rightarrow> 's \<Rightarrow> (script_error + client_reply) \<times> 's"
type_synonym ('s, 'a) script = "'s \<times> pystr list \<Rightarrow> (script_error + 'a) \<times> 's \<times> pystr list"

definition script_bind :: "('s, 'a) script \<Rightarrow> ('a \<Rightarrow> ('s, 'b) script) \<Rightarrow> ('s, 'b) script" where
  "script_bind p k s = (case p s of (Inl e, s') \<Rightarrow> (Inl e, s') | (Inr x, s') \<Rightarrow> k x s')"

definition script_lift :: "(script_error + 'a) \<Rightarrow> ('s, 'a) script" where
  "script_lift r s = (r, s)"

definition script_assert :: "bool \<Rightarrow> pystr \<Rightarrow> ('s, unit) script" where
  "script_assert b msg = script_lift (if b then Inr () else Inl (AssertionError msg))"

definition script_print :: "string \<Rightarrow> ('s, unit) script" where
  "script_print line s = (Inr (), fst s, snd s @ [lit line])"

definition script_send :: "'s server_side \<Rightarrow> client_request \<Rightarrow> ('s, client_reply) script" where
  "script_send send c s = (case send c (fst s) of (r, st) \<Rightarrow> (r, st, snd s))"

text \<open>\<open>r.json()\<close> and \<open>r.json()["result"]\<close>\<close>

definition reply_json :: "client_reply \<Rightarrow> script_error + pyval" where
  "reply_json r = (case cr_json r of None \<Rightarrow> Inl (BodyError ValueError) | Some v \<Rightarrow> Inr v)"

definition reply_result :: "client_reply \<Rightarrow> script_error + pyval" where
  "reply_result r =
     (case reply_json r of
        Inl e \<Rightarrow> Inl e
      | Inr v \<Rightarrow> (case get_item v ''result'' of Inl e \<Rightarrow> Inl (BodyError e) | Inr x \<Rightarrow> Inr x))"

text \<open>\<open>==\<close> on parsed JSON: numbers by their value, objects without regard to the order of their keys\<close>

fun num_value :: "pyval \<Rightarrow> flt option" where
  "num_value (VBool b) = Some (Fin (if b then 1 else 0))"
| "num_value (VInt i) = Some (Fin (of_int i))"
| "num_value (VFloat s) = (case py_float ucd_ru s of Inl e \<Rightarrow> None | Inr x \<Rightarrow> Some x)"
| "num_value _ = None"

function (sequential) py_eq :: "pyval \<Rightarrow> pyval \<Rightarrow> bool" where
  "py_eq (VList xs) (VList ys) = (length xs = length ys \<and> list_all (\<lambda>(x, y). py_eq x y) (zip xs ys))"
| "py_eq (VDict d) (VDict d') =
     (length d = length d'
      \<and> list_all (\<lambda>kv. case map_of d' (fst kv) of None \<Rightarrow> False | Some v' \<Rightarrow> py_eq (snd kv) v') d)"
| "py_eq a b =
     (case (num_value a, num_value b) of (Some x, Some y) \<Rightarrow> flt_eq x y | _ \<Rightarrow> a = b)"
  by pat_completeness auto
termination
proof (relation "measure (\<lambda>(a, b). size a)")
  fix xs ys :: "pyval list" and p :: "pyval \<times> pyval" and x y
  assume "p \<in> set (zip xs ys)" "(x, y) = p"
  then have "x \<in> set xs" by (auto dest: set_zip_leftD)
  then show "((x, y), (VList xs, VList ys)) \<in> measure (\<lambda>(a, b). size a)"
    by (induction xs) auto
next
  fix d d' :: "(pyval \<times> pyval) list" and kv v
  assume "kv \<in> set d"
  then show "((snd kv, v), (VDict d, VDict d')) \<in> measure (\<lambda>(a, b). size a)"
    by (induction d) (auto simp: less_Suc_eq_le size_prod_simp trans_le_add2)
qed simp

section \<open>The smoke test\<close>

definition SMOKE_ORIGINAL :: pystr where
  "SMOKE_ORIGINAL = ru ''Napi[ite mne na '' @ lit ''test@example.com'' @ ru '' ili '' @ lit ''+7 999 123-45-67''"

text \<open>A POST to \<open>/process\<close>; the payload may be any JSON value that an earlier answer held.\<close>

definition post_payload :: "'s server_side \<Rightarrow> pyval \<Rightarrow> pystr \<Rightarrow> ('s, client_reply) script" where
  "post_payload send payload payload_id = script_send send (Post_Request (lit ''/process'') payload payload_id)"

definition status_message :: "string \<Rightarrow> client_reply \<Rightarrow> pystr" where
  "status_message what r = lit what @ lit '' failed: '' @ int_str (cr_status r)"

text \<open>\<open>main\<close>, for the text \<open>original\<close>\<close>

definition smoke_main :: "'s server_side \<Rightarrow> pystr \<Rightarrow> ('s, unit) script" where
  "smoke_main send original =
     (let payload_id = lit ''smoke-1'' in
      script_bind (script_send send (Get_Request (lit ''/health''))) (\<lambda>health.
      script_bind (script_assert (cr_status health = 200) (status_message ''health'' health)) (\<lambda>_.
      script_bind (script_lift (reply_json health)) (\<lambda>status.
      script_bind (script_assert (py_eq status (VDict [(VStr (lit ''status''), VStr (lit ''ok''))])) []) (\<lambda>_.
      script_bind (script_print ''health: ok'') (\<lambda>_.
      script_bind (post_payload send (VStr original) payload_id) (\<lambda>mask.
      script_bind (script_assert (cr_status mask = 200) (status_message ''mask'' mask)) (\<lambda>_.
      script_bind (script_lift (reply_result mask)) (\<lambda>masked.
      script_bind (script_assert (\<not> py_eq masked (VStr original)) []) (\<lambda>_.
      script_bind (script_print ''mask: ok'') (\<lambda>_.
      script_bind (post_payload send (VStr original) payload_id) (\<lambda>mask_retry.
      script_bind (script_lift (reply_result mask_retry)) (\<lambda>retried.
      script_bind (script_assert (py_eq retried masked) []) (\<lambda>_.
      script_bind (script_print ''mask retry: ok'') (\<lambda>_.
      script_bind (post_payload send masked payload_id) (\<lambda>demask.
      script_bind (script_assert (cr_status demask = 200) (status_message ''demask'' demask)) (\<lambda>_.
      script_bind (script_lift (reply_result demask)) (\<lambda>demasked.
      script_bind (script_assert (py_eq demasked (VStr original)) []) (\<lambda>_.
      script_bind (script_print ''demask: ok'') (\<lambda>_.
      script_bind (post_payload send masked payload_id) (\<lambda>demask_retry.
      script_bind (script_lift (reply_result demask_retry)) (\<lambda>demasked_again.
      script_bind (script_assert (py_eq demasked_again (VStr original)) []) (\<lambda>_.
      script_bind (script_print ''demask retry: ok'') (\<lambda>_.
        script_print ''smoke test passed''))))))))))))))))))))))))"

text \<open>The client inside \<open>smoke_validate_zip\<close>\<close>

definition archive_smoke :: "'s server_side \<Rightarrow> ('s, unit) script" where
  "archive_smoke send =
     script_bind (post_payload send (VStr (lit ''test@example.com'')) (lit ''smoke'')) (\<lambda>r.
     script_bind (script_assert (cr_status r = 200) (cr_body_text r)) (\<lambda>_.
     script_bind (script_lift (reply_result r)) (\<lambda>masked.
     script_bind (post_payload send masked (lit ''smoke'')) (\<lambda>r2.
     if cr_status r2 \<noteq> 200 then script_assert False (cr_body_text r2)
     else script_bind (script_lift (reply_result r2)) (\<lambda>result.
          script_bind (script_assert (py_eq result (VStr (lit ''test@example.com''))) (cr_body_text r2)) (\<lambda>_.
            script_print ''smoke ok''))))))"

section \<open>The application as the other side\<close>

text \<open>
  Each request meets its own environment, the next of a list of templates: clock readings, random draws,
  the request's UUID.  The connection breaks when the list is used up.
\<close>

definition route_at :: "pystr \<Rightarrow> route option" where
  "route_at path = find (\<lambda>rt. route_path rt = path) [Health_Route, Ready_Route, Metrics_Route, Process_Route]"

fun address :: "'env http_request \<Rightarrow> client_request \<Rightarrow> 'env http_request" where
  "address q (Get_Request path) =
     q\<lparr>hq_method := lit ''GET'', hq_path := path, hq_route := route_at path, hq_body := None,
       hq_request_id := None, hq_consumer_id := None\<rparr>"
| "address q (Post_Request path payload payload_id) =
     q\<lparr>hq_method := lit ''POST'', hq_path := path, hq_route := route_at path,
       hq_body := (case payload of VStr s \<Rightarrow> Some (s, payload_id) | _ \<Rightarrow> None),
       hq_request_id := None, hq_consumer_id := None\<rparr>"

definition client_view :: "(pyval \<Rightarrow> pystr) \<Rightarrow> response \<Rightarrow> client_reply" where
  "client_view body_text r = \<lparr>cr_status = rp_status r, cr_body_text = body_text (rp_content r), cr_json = Some (rp_content r)\<rparr>"

fun exchange ::
    "(pyval \<Rightarrow> pystr) \<Rightarrow> ('env, 'st, 'r) app_server \<Rightarrow> ('env http_request list \<times> ('st, 'r) world) server_side" where
  "exchange body_text A c ([], w) = (Inl ClientError, [], w)"
| "exchange body_text A c (q # qs, w) =
     (case serve_http A (address q c) w of (r, w') \<Rightarrow> (Inr (client_view body_text r), qs, w'))"

declare address.simps [simp del]

section \<open>One request\<close>

text \<open>The limiter has room for \<open>n\<close> more requests, whatever its clock shows.\<close>

definition room :: "limiter \<Rightarrow> nat \<Rightarrow> bool" where
  "room l n \<longleftrightarrow> int (length (window_of l (lit ''global''))) + int n \<le> rl_max_requests l"

lemma evict_hits_shorter: "length (evict_hits w now ts) \<le> length ts"
  by (induction ts) auto

lemma room_allows:
  assumes "room l (Suc n)"
  shows "\<exists>l'. allow l (lit ''global'') now = (True, l') \<and> room l' n"
proof -
  let ?win = "evict_hits (rl_window_seconds l) now (window_of l (lit ''global''))"
  have "length ?win \<le> length (window_of l (lit ''global''))" by (rule evict_hits_shorter)
  with assms show ?thesis by (auto simp: room_def allow_def Let_def window_of_update)
qed

text \<open>A request that the service answers is answered with status 200 and the result.\<close>

lemma serve_http_result:
  assumes w: "room (w_limiter w) (Suc n)" and q: "hq_path q = lit ''/process''" "hq_route q = Some Process_Route"
      "hq_body q = Some (payload, pid)"
    and ids: "payload \<noteq> []" "pid \<noteq> []" "list_all is_scalar pid"
    and policy: "get_policy (sr_policies A) (get_consumer_id A (hq_consumer_id q)) = Inr policy"
    and run: "\<And>m. \<exists>oc m'. process (sr_get A) (sr_transition A) (hq_services q) (sr_collectors A) (hq_env_get q)
        (hq_env_trans q) (hq_timers q) payload pid policy (w_store w) m = (Inr oc, st', m') \<and> oc_result oc = t"
  shows "\<exists>r w'. serve_http A q w = (r, w') \<and> answered_with r t \<and> w_store w' = st' \<and> room (w_limiter w') n"
proof -
  from room_allows [OF w] obtain l where l: "allow (w_limiter w) (lit ''global'') (hq_monotonic q) = (True, l)" "room l n"
    by blast
  let ?w = "w\<lparr>w_limiter := l, w_metrics := safe (sr_collectors A) (Inc inflight_requests [] 1) (w_metrics w)\<rparr>"
  from run [of "w_metrics ?w"] obtain oc m' where
    oc: "process (sr_get A) (sr_transition A) (hq_services q) (sr_collectors A) (hq_env_get q) (hq_env_trans q)
      (hq_timers q) payload pid policy (w_store w) (w_metrics ?w) = (Inr oc, st', m')" "oc_result oc = t" by blast
  from hash_id_total [OF ids(3)] obtain h where h: "hash_identifier (sv_sha256 (hq_services q)) pid 12 = Inr h" by blast
  let ?r = "json_response 200 [(''result'', VStr t)] []"
  obtain w1 where w1: "process_route A q payload pid ?w = (Inr ?r, w1)" "w_store w1 = st'" "w_limiter w1 = l"
    using policy oc h by (simp add: process_route_def Let_def log_to_def)
  have "ProcessRequest (payload, pid)" using ids by (cases payload; cases pid) (simp_all add: ProcessRequest_def)
  with q w1 have "call_next A q (shown_request_id q) ?w = (Inr ?r, w1)" by (simp add: call_next_def)
  with l q w1 show ?thesis
    by (auto simp: serve_http_def rate_limit_def observe_http_request_def track_inflight_def Let_def log_to_def
        shown_request_id_def answered_with_def json_response_def)
qed

text \<open>A request on a record that the store shows: the record moves on and is answered from.\<close>

context restoration_store
begin

lemma process_moves:
  assumes inv: "inv st" and env: "envok env1" "envok env2" "tget env1 \<le> ttrans env2"
    and ok: "services_ok S policy payload" and ids: "payload \<noteq> []" "pid \<noteq> []"
    and key: "state_key (sv_sha256 S) (cp_consumer_id policy) pid = Inr key"
    and look: "look st key (ttrans env2) = Some c"
    and run: "lifecycle S policy key payload (Some c) = Inr s"
  shows "\<exists>st'. advanced st st' key s (tend env2) \<and>
    (\<forall>m. \<exists>oc m'. process get transition S P env1 env2 clk payload pid policy st m = (Inr oc, st', m')
       \<and> oc_result oc = oc_result (outcome_of s))"
proof -
  from run look have run': "lifecycle S policy key payload (look st key (ttrans env2)) = Inr s" by simp
  have step: "\<exists>oc st' m'. process get transition S P env1 env2 clk payload pid policy st m = (Inr oc, st', m')
       \<and> oc_result oc = oc_result (outcome_of s) \<and> advanced st st' key s (tend env2)" for m
    using process_accept [OF inv env ok ids key run', of P clk m] look
    by (auto simp: answers_def)
  from step [of undefined] obtain st' where st': "advanced st st' key s (tend env2)"
    "\<exists>oc m'. process get transition S P env1 env2 clk payload pid policy st undefined = (Inr oc, st', m')" by blast
  have "st'' = st'" if "process get transition S P env1 env2 clk payload pid policy st m = (Inr oc, st'', m')" for m oc m' st''
    using that st'(2) by (auto simp: process_def split: if_splits sum.splits prod.splits)
  with step st'(1) show ?thesis by metis
qed

end

text \<open>The first request of a payload id is taken when there is room for its record.\<close>

lemma roomy_accepts:
  assumes F: "fernet_ok F" and inv: "mem_inv F st" and c: "state_ok c" "rs_payload_id c = key" and fn: "fn None = Inr (Some c)"
    and none: "map_of (ms_data st) key = None" and free: "int (length (ms_data st)) < ms_max_entries st"
  shows "fst (mem_transition F env key fn st) = Inr (Some c)"
proof -
  let ?e = "evict_expired (en_clock env 0) st"
  obtain old where old: "ms_data st = old @ ms_data ?e"
    using evict_front_suffix [of "ms_data st" "en_clock env 0"] by (auto simp: evict_expired_def)
  from arg_cong [OF old, of "\<lambda>d. map_of d key"] none have "(map_of (ms_data ?e) ++ map_of old) key = None" by simp
  then have "map_of (ms_data ?e) key = None" by (simp add: map_add_None)
  moreover from arg_cong [OF old, of length] have "length (ms_data ?e) \<le> length (ms_data st)" by simp
  ultimately have e: "map_of (ms_data ?e) key = None" "length (ms_data ?e) \<le> length (ms_data st)"
    "ms_max_entries ?e = ms_max_entries st" by (simp_all add: evict_expired_def)
  have "mem_inv F ?e" using evict_inv [OF inv] .
  moreover have "has_key key ?e \<or> int (length (ms_data ?e)) < ms_max_entries ?e" using e free by simp
  ultimately obtain st' where "store_entry F (en_clock env 2) (en_nonce env) key c ?e = (Inr (), st')"
    using store_entry_ok [OF F _ c] by blast
  then show ?thesis using e(1) fn by (simp add: mem_transition_def trans_begin_def trans_commit_def Let_def)
qed

lemma first_moves:
  assumes inv: "fernet_ok F \<and> mem_inv F st" and env: "calls_ok env1 env2"
    and ok: "services_ok S policy payload" and ids: "payload \<noteq> []" "pid \<noteq> []"
    and key: "state_key (sv_sha256 S) (cp_consumer_id policy) pid = Inr key"
    and none: "map_of (ms_data st) key = None" "int (length (ms_data st)) < ms_max_entries st"
    and c: "prepare_mask S payload key policy = Inr c"
  shows "\<exists>st'. mem.advanced F st st' key c (en_clock env2 2) \<and>
    (\<forall>m. \<exists>oc m'. mem_process F S P env1 env2 clk payload pid policy st m = (Inr oc, st', m')
       \<and> oc_result oc = oc_result (outcome_of c))"
proof -
  have run: "lifecycle S policy key payload None = Inr c" using c by (simp add: lifecycle_def transition_state_def)
  from lifecycle_ok [OF ok state_key_scalar [OF ok key] _ run] obtain bs where
    s: "state_ok c" "rs_payload_id c = key" and bs: "encode payload = Inr bs" by blast
  let ?fn = "\<lambda>current. ebind (transition_state S current payload key policy (Some c)) (\<lambda>s. Inr (Some s))"
  have fn: "?fn None = Inr (Some c)" by (simp add: transition_state_def)
  have look: "mem_look F st key t = None" for t using none(1) by (simp add: mem_look_def)
  have "env_ok env2" using env by blast
  from mem.transition_accept [where fn = ?fn, OF inv this s] fn look obtain r st' where
    r: "mem_transition F env2 key ?fn st = (r, st')"
      "r = Inr (Some c) \<and> mem.advanced F st st' key c (en_clock env2 2) \<or> (\<exists>e. r = Inl e)" by auto
  from inv have "fernet_ok F" "mem_inv F st" by auto
  from roomy_accepts [where fn = ?fn and env = env2, OF this s fn none] r(1) have "r = Inr (Some c)" by simp
  with r have t: "mem_transition F env2 key ?fn st = (Inr (Some c), st')" "mem.advanced F st st' key c (en_clock env2 2)"
    by auto
  have "mem_get F env1 key st = (Inr None, st)" using none(1) by (simp add: mem_get_def)
  with t(1) key ids c have "\<exists>oc m'. mem_process F S P env1 env2 clk payload pid policy st m = (Inr oc, st', m')
       \<and> oc_result oc = oc_result (outcome_of c)" for m
    using record_outcome_answers [OF bs, where P = P and s = c and d = "elapsed_ms clk 0 7" and ts = "stage_timings clk True" and m = m]
    by (auto simp: process_def outcome_from_state_def)
  with t(2) show ?thesis by blast
qed

section \<open>The service under test\<close>

text \<open>
  The application over the in-memory store with the default engines, as the client without a consumer
  header meets it: the policy of the default consumer, and what the digests and each request's
  environment must be like.
\<close>

definition under_test ::
    "fernet \<Rightarrow> digest \<Rightarrow> digest \<Rightarrow> consumer_policy \<Rightarrow> (env, mstore, 'r) app_server \<Rightarrow> bool" where
  "under_test F sha256 blake2b policy A \<longleftrightarrow>
     sr_get A = mem_get F \<and> sr_transition A = mem_transition F \<and> fernet_ok F
     \<and> digest_text sha256 \<and> digest_text blake2b \<and> policy_text policy
     \<and> get_policy (sr_policies A) (sr_default_consumer_id A) = Inr policy"

definition engine_request :: "ucd \<Rightarrow> date \<Rightarrow> digest \<Rightarrow> digest \<Rightarrow> env http_request \<Rightarrow> bool" where
  "engine_request U today sha256 blake2b q \<longleftrightarrow>
     (\<exists>rnd clk now. hq_services q = proxy_services U today rnd clk sha256 blake2b now \<and> valid_datetime now)
     \<and> calls_ok (hq_env_get q) (hq_env_trans q)"

lemma engine_services:
  assumes "under_test F sha256 blake2b policy A" "engine_request U today sha256 blake2b q" "storable payload"
  shows "services_ok (hq_services q) policy payload" "sv_sha256 (hq_services q) = sha256"
    "sv_blake2b (hq_services q) = blake2b"
proof -
  from assms(2) obtain rnd clk now where
    q: "hq_services q = proxy_services U today rnd clk sha256 blake2b now" "valid_datetime now"
    by (auto simp: engine_request_def)
  with assms(1,3) have "setup_ok sha256 blake2b now policy payload" by (simp add: setup_ok_def under_test_def)
  from setup_services [OF this] q(1) show "services_ok (hq_services q) policy payload" by simp
  from q(1) show "sv_sha256 (hq_services q) = sha256" "sv_blake2b (hq_services q) = blake2b"
    by (simp_all add: proxy_services_def)
qed

text \<open>The clock of the transition of a request: when it reads the store, and when it has written\<close>

abbreviation read_time :: "env http_request \<Rightarrow> rat" where
  "read_time q \<equiv> en_clock (hq_env_trans q) 1"

abbreviation write_time :: "env http_request \<Rightarrow> rat" where
  "write_time q \<equiv> en_clock (hq_env_trans q) 2"

text \<open>What a POST does when the service takes it from the record \<open>s0\<close> of its key to \<open>s\<close>\<close>

abbreviation posted where
  "posted F A q payload pid w n key s \<equiv>
     \<exists>r w'. serve_http A (address q (Post_Request (lit ''/process'') (VStr payload) pid)) w = (r, w')
       \<and> answered_with r (oc_result (outcome_of s)) \<and> room (w_limiter w') n \<and> mem_inv F (w_store w')
       \<and> ms_ttl_seconds (w_store w') = ms_ttl_seconds (w_store w)
       \<and> (\<forall>t. t < write_time q + ms_ttl_seconds (w_store w) \<longrightarrow> mem_look F (w_store w') key t = Some s)"

lemma post_answered:
  assumes A: "under_test F sha256 blake2b policy A" and n: "room (w_limiter w) (Suc n)"
    and ids: "payload \<noteq> []" "pid \<noteq> []" "list_all is_scalar pid"
    and run: "mem.advanced F (w_store w) st' key s (write_time q)"
      "\<forall>m. \<exists>oc m'. mem_process F (hq_services q) (sr_collectors A) (hq_env_get q) (hq_env_trans q) (hq_timers q)
         payload pid policy (w_store w) m = (Inr oc, st', m') \<and> oc_result oc = oc_result (outcome_of s)"
  shows "posted F A q payload pid w n key s"
proof -
  let ?q = "address q (Post_Request (lit ''/process'') (VStr payload) pid)"
  have q: "hq_path ?q = lit ''/process''" "hq_route ?q = Some Process_Route" "hq_body ?q = Some (payload, pid)"
    "hq_consumer_id ?q = None" "hq_services ?q = hq_services q" "hq_env_get ?q = hq_env_get q"
    "hq_env_trans ?q = hq_env_trans q" "hq_timers ?q = hq_timers q"
    by (simp_all add: address.simps route_at_def lit_def)
  have "get_policy (sr_policies A) (get_consumer_id A (hq_consumer_id ?q)) = Inr policy"
    using A q(4) by (simp add: get_consumer_id_def under_test_def)
  from serve_http_result [where st' = st' and t = "oc_result (outcome_of s)", OF n q(1-3) ids this] run A q
  show ?thesis unfolding mem.advanced_def by (simp add: under_test_def) metis
qed

lemma post_known:
  assumes A: "under_test F sha256 blake2b policy A" and q: "engine_request U today sha256 blake2b q"
    and inv: "mem_inv F (w_store w)" and n: "room (w_limiter w) (Suc n)"
    and ids: "payload \<noteq> []" "pid \<noteq> []" "list_all is_scalar pid" and pl: "storable payload"
    and key: "state_key sha256 (cp_consumer_id policy) pid = Inr key"
    and look: "mem_look F (w_store w) key (read_time q) = Some c"
    and run: "lifecycle (hq_services q) policy key payload (Some c) = Inr s"
  shows "posted F A q payload pid w n key s"
proof -
  note S = engine_services [OF A q pl]
  have e: "env_ok (hq_env_get q)" "env_ok (hq_env_trans q)" "en_clock (hq_env_get q) 0 \<le> en_clock (hq_env_trans q) 1"
    using q by (auto simp: engine_request_def)
  have i: "fernet_ok F \<and> mem_inv F (w_store w)" using A inv by (simp add: under_test_def)
  have "state_key (sv_sha256 (hq_services q)) (cp_consumer_id policy) pid = Inr key" using key S(2) by simp
  from mem.process_moves [OF i e S(1) ids(1,2) this look run, of "sr_collectors A" "hq_timers q"] post_answered [OF A n ids]
  show ?thesis by blast
qed

lemma post_first:
  assumes A: "under_test F sha256 blake2b policy A" and q: "engine_request U today sha256 blake2b q"
    and inv: "mem_inv F (w_store w)" and n: "room (w_limiter w) (Suc n)"
    and ids: "payload \<noteq> []" "pid \<noteq> []" "list_all is_scalar pid" and pl: "storable payload"
    and key: "state_key sha256 (cp_consumer_id policy) pid = Inr key"
    and none: "map_of (ms_data (w_store w)) key = None" "int (length (ms_data (w_store w))) < ms_max_entries (w_store w)"
    and c: "prepare_mask (hq_services q) payload key policy = Inr c"
  shows "posted F A q payload pid w n key c"
proof -
  note S = engine_services [OF A q pl]
  have e: "calls_ok (hq_env_get q) (hq_env_trans q)" using q by (simp add: engine_request_def)
  have i: "fernet_ok F \<and> mem_inv F (w_store w)" using A inv by (simp add: under_test_def)
  have "state_key (sv_sha256 (hq_services q)) (cp_consumer_id policy) pid = Inr key" using key S(2) by simp
  from first_moves [OF i e S(1) ids(1,2) this none c, of "sr_collectors A" "hq_timers q"] post_answered [OF A n ids]
  show ?thesis by blast
qed

text \<open>The record that masking makes, and where retries and the masked text take it\<close>

lemma masked_record:
  assumes A: "under_test F sha256 blake2b policy A" and q: "engine_request U today sha256 blake2b q"
    and original: "original \<noteq> []" "storable original" and key: "list_all is_scalar key"
    and c: "prepare_mask (hq_services q) original key policy = Inr c"
    and h: "hash_payload blake2b (rs_masked_text c) \<noteq> hash_payload blake2b original"
    and S: "sv_blake2b S = blake2b"
  shows "lifecycle S policy key original (Some c) = Inr c"
    and "cp_demasking_enabled policy \<Longrightarrow>
      lifecycle S policy key (rs_masked_text c) (Some c) = Inr (c\<lparr>rs_state := DEMASKED\<rparr>)"
    and "lifecycle S policy key (rs_masked_text c) (Some (c\<lparr>rs_state := DEMASKED\<rparr>)) = Inr (c\<lparr>rs_state := DEMASKED\<rparr>)"
    and "rs_masked_text c \<noteq> []" "rs_masked_text c \<noteq> original"
    and "oc_result (outcome_of c) = rs_masked_text c"
    and "oc_result (outcome_of (c\<lparr>rs_state := DEMASKED\<rparr>)) = original"
proof -
  note e = engine_services [OF A q original(2)]
  from e(1) key c have ok: "state_ok c" unfolding services_ok_def by blast
  note cf = prepare_mask_fields [OF c, unfolded e(3)]
  have "\<exists>hm. hash_payload blake2b (rs_masked_text c) = Inr hm"
    using encode_total [of "rs_masked_text c"] ok by (auto simp: hash_payload_def state_ok_def)
  with cf h S show "lifecycle S policy key original (Some c) = Inr c"
    "cp_demasking_enabled policy \<Longrightarrow>
      lifecycle S policy key (rs_masked_text c) (Some c) = Inr (c\<lparr>rs_state := DEMASKED\<rparr>)"
    "lifecycle S policy key (rs_masked_text c) (Some (c\<lparr>rs_state := DEMASKED\<rparr>)) = Inr (c\<lparr>rs_state := DEMASKED\<rparr>)"
    by (auto simp: lifecycle_def transition_state_def demask_state_def)
  from q obtain rnd clk now where "hq_services q = proxy_services U today rnd clk sha256 blake2b now"
    by (auto simp: engine_request_def)
  with c mask_nonempty original(1) show "rs_masked_text c \<noteq> []"
    by (auto simp: prepare_mask_def proxy_services_def ebind_eq_Inr Let_def)
  from h show "rs_masked_text c \<noteq> original" by auto
  from cf show "oc_result (outcome_of c) = rs_masked_text c"
    "oc_result (outcome_of (c\<lparr>rs_state := DEMASKED\<rparr>)) = original"
    by (simp_all add: outcome_of_def make_outcome_def)
qed

section \<open>Running a script\<close>

lemmas script_defs = script_bind_def script_lift_def script_assert_def script_print_def script_send_def post_payload_def
  reply_result_def reply_json_def client_view_def get_item_def

lemma py_eq_str [simp]: "py_eq (VStr a) (VStr b) \<longleftrightarrow> a = b"
  by simp

lemma answered_item: "answered_with r t \<Longrightarrow> rp_status r = 200 \<and> rp_content r = VDict [(VStr (lit ''result''), VStr t)]"
  by (simp add: answered_with_def)

lemma health_answered:
  "\<exists>r w'. serve_http A (address q (Get_Request (lit ''/health''))) w = (r, w') \<and> rp_status r = 200
     \<and> rp_content r = VDict [(VStr (lit ''status''), VStr (lit ''ok''))]
     \<and> w_store w' = w_store w \<and> w_limiter w' = w_limiter w"
  by (simp add: serve_http_def rate_limit_def address.simps observe_http_request_def call_next_def route_at_def lit_def
      track_inflight_def Let_def health_route_def json_response_def log_to_def)


text \<open>The client of \<open>smoke_validate_zip\<close> is content with the same service.\<close>

lemma archive_smoke_passes:
  assumes A: "under_test F sha256 blake2b policy A" and policy: "cp_demasking_enabled policy"
    and q: "engine_request U today sha256 blake2b q1" "engine_request U today sha256 blake2b q2"
    and w: "mem_inv F (w_store w)" "room (w_limiter w) (Suc (Suc 0))"
    and times: "read_time q2 < write_time q1 + ms_ttl_seconds (w_store w)"
    and key: "state_key sha256 (cp_consumer_id policy) (lit ''smoke'') = Inr key"
    and none: "map_of (ms_data (w_store w)) key = None" "int (length (ms_data (w_store w))) < ms_max_entries (w_store w)"
    and c: "prepare_mask (hq_services q1) (lit ''test@example.com'') key policy = Inr c"
    and masked: "storable (rs_masked_text c)"
      "hash_payload blake2b (rs_masked_text c) \<noteq> hash_payload blake2b (lit ''test@example.com'')"
  shows "\<exists>w'. archive_smoke (exchange body_text A) (([q1, q2], w), []) = (Inr (), ([], w'), [lit ''smoke ok''])"
proof -
  let ?pid = "lit ''smoke''"
  let ?mail = "lit ''test@example.com''"
  have pid: "?pid \<noteq> []" "list_all is_scalar ?pid" by (simp_all add: lit_def is_scalar_def)
  have "length ?mail < 10 ^ 2" by (simp add: lit_def)
  also have "(10 :: nat) ^ 2 \<le> 10 ^ 4300" by (rule power_increasing) simp_all
  finally have "storable ?mail" unfolding storable_def .
  moreover have "?mail \<noteq> []" by (simp add: lit_def)
  ultimately have mail: "?mail \<noteq> []" "storable ?mail" by blast+
  note S = engine_services [OF A q(1) mail(2)]
  from key S(2) have "state_key (sv_sha256 (hq_services q1)) (cp_consumer_id policy) ?pid = Inr key" by simp
  note rec = masked_record [OF A q(1) mail state_key_scalar [OF S(1) this] c masked(2)]
  from post_first [OF A q(1) w mail(1) pid mail(2) key none c] times obtain r1 w1 where
    1: "serve_http A (address q1 (Post_Request (lit ''/process'') (VStr ?mail) ?pid)) w = (r1, w1)"
      "answered_with r1 (rs_masked_text c)" "mem_inv F (w_store w1)" "room (w_limiter w1) (Suc 0)"
      "mem_look F (w_store w1) key (read_time q2) = Some c"
    unfolding rec(6) [OF S(3)] by metis
  from post_known [OF A q(2) 1(3,4) rec(4) [OF S(3)] pid masked(1) key 1(5)
      rec(2) [OF engine_services(3) [OF A q(2) mail(2)] policy]] obtain r2 w2 where
    2: "serve_http A (address q2 (Post_Request (lit ''/process'') (VStr (rs_masked_text c)) ?pid)) w1 = (r2, w2)"
      "answered_with r2 ?mail" unfolding rec(7) [OF S(3)] by blast
  from answered_item [OF 1(2)] answered_item [OF 2(2)] 1(1) 2(1) show ?thesis
    by (simp add: archive_smoke_def script_defs)
qed

section \<open>A run\<close>

definition mail_at :: "rat \<Rightarrow> env http_request" where
  "mail_at t = mail_request\<lparr>hq_env_get := at_time t, hq_env_trans := at_time t\<rparr>"

definition roomy_world :: "(mstore, unit) world" where
  "roomy_world = mail_world\<lparr>w_limiter := SlidingWindowRateLimiter 4 1\<rparr>"


end
