(* ===== verification/PackageRun.thy ===== *)
theory PackageRun
  imports Package Json
begin

text \<open>
  \<open>scripts/package_submission.py\<close>, the rest: the entries written into the archive, the smoke validation of
  an unpacked archive and \<open>main\<close>.  What a started process returns, what \<open>zipfile\<close> finds in an archive and
  whether \<open>pytest\<close> can be imported are arguments; failures of the file system are not modelled.
\<close>

section \<open>The archive\<close>

record zip_entry =
  ze_name :: pystr
  ze_date_time :: "nat \<times> nat \<times> nat \<times> nat \<times> nat \<times> nat"
  ze_external_attr :: nat
  ze_content :: "byte list"

definition NORMALIZED_ZIP_TIME :: "nat \<times> nat \<times> nat \<times> nat \<times> nat \<times> nat" where
  "NORMALIZED_ZIP_TIME = (1980, 1, 1, 0, 0, 0)"

text \<open>The loop of \<open>build_zip\<close>; \<open>0o644 << 16\<close> is the mode of the file in the upper half of the attribute.\<close>

definition archive_entries :: "ucd \<Rightarrow> node \<Rightarrow> (pystr list \<Rightarrow> byte list) \<Rightarrow> pystr list list \<Rightarrow> zip_entry list" where
  "archive_entries U base read_bytes output_path =
     map (\<lambda>file. \<lparr>ze_name = as_posix file, ze_date_time = NORMALIZED_ZIP_TIME,
                   ze_external_attr = (6 * 64 + 4 * 8 + 4) * 2 ^ 16, ze_content = read_bytes file\<rparr>)
       (collect_files U base output_path)"

section \<open>Processes\<close>

record packaging_host =
  ph_unicode :: ucd
  ph_project :: node
  ph_read_bytes :: "pystr list \<Rightarrow> byte list"
  ph_zip :: "pystr \<Rightarrow> pystr option \<times> pystr list"
  ph_zip_size :: "zip_entry list \<Rightarrow> int"
  ph_python :: pystr
  ph_extract_dir :: pystr
  ph_returncode :: "pystr list \<Rightarrow> int"
  ph_pytest_importable :: bool

datatype package_event = Ran "pystr list" | Said pystr | Wrote pystr "zip_entry list"

text \<open>What ends the script early: a rejected archive, a checked process or the failed subset of the tests\<close>

datatype package_error = ZipRejected zip_error | CalledProcessError int | SubsetFailed int

type_synonym 'a packaging = "(package_error + 'a) \<times> package_event list"

definition pk_bind :: "'a packaging \<Rightarrow> ('a \<Rightarrow> 'b packaging) \<Rightarrow> 'b packaging" where
  "pk_bind p k =
     (case p of (Inl e, evs) \<Rightarrow> (Inl e, evs) | (Inr x, evs) \<Rightarrow> (case k x of (r, evs') \<Rightarrow> (r, evs @ evs')))"

definition pk_print :: "pystr \<Rightarrow> unit packaging" where
  "pk_print line = (Inr (), [Said line])"

text \<open>\<open>subprocess.run\<close> without and with \<open>check=True\<close>\<close>

definition run_process :: "packaging_host \<Rightarrow> pystr list \<Rightarrow> int packaging" where
  "run_process H argv = (Inr (ph_returncode H argv), [Ran argv])"

definition run_checked :: "packaging_host \<Rightarrow> pystr list \<Rightarrow> unit packaging" where
  "run_checked H argv =
     pk_bind (run_process H argv) (\<lambda>code. (if code = 0 then Inr () else Inl (CalledProcessError code), []))"

definition check_archive :: "packaging_host \<Rightarrow> pystr \<Rightarrow> unit packaging" where
  "check_archive H output_path =
     (case ph_zip H output_path of
        (bad, names) \<Rightarrow>
          (case validate_zip (ph_unicode H) bad names of Inl e \<Rightarrow> (Inl (ZipRejected e), []) | Inr _ \<Rightarrow> (Inr (), [])))"

section \<open>The smoke validation\<close>

definition dev_deps_available :: "packaging_host \<Rightarrow> bool" where
  "dev_deps_available H = ph_pytest_importable H"

definition SMOKE_CLIENT :: pystr where
  "SMOKE_CLIENT =
     lit ''from fastapi.testclient import TestClient; ''
     @ lit ''from app.main import app; ''
     @ lit ''c = TestClient(app); ''
     @ lit ''r = c.post('/process', json={'payload': 'test@example.com', 'payload_id': 'smoke'}); ''
     @ lit ''assert r.status_code == 200, r.text; ''
     @ lit ''masked = r.json()['result']; ''
     @ lit ''r2 = c.post('/process', json={'payload': masked, 'payload_id': 'smoke'}); ''
     @ lit ''assert r2.status_code == 200 and r2.json()['result'] == 'test@example.com', r2.text; ''
     @ lit ''print('smoke ok')''"

definition pip_install :: "packaging_host \<Rightarrow> string \<Rightarrow> pystr list" where
  "pip_install H target = [ph_python H, lit ''-m'', lit ''pip'', lit ''install'', lit ''-e'', lit target]"

definition smoke_command :: "packaging_host \<Rightarrow> pystr list" where
  "smoke_command H = [ph_python H, lit ''-c'', SMOKE_CLIENT]"

definition pytest_command :: "packaging_host \<Rightarrow> pystr list" where
  "pytest_command H =
     [ph_python H, lit ''-m'', lit ''pytest'', lit ''tests/integration/test_process.py'', lit ''-q'', lit ''--basetemp'',
      ph_extract_dir H @ lit ''/.pytest-temp'']"

definition smoke_validate_zip :: "packaging_host \<Rightarrow> pystr \<Rightarrow> unit packaging" where
  "smoke_validate_zip H output_path =
     pk_bind (check_archive H output_path) (\<lambda>_.
     pk_bind (run_checked H (pip_install H ''.'')) (\<lambda>_.
     pk_bind (run_checked H (smoke_command H)) (\<lambda>_.
     pk_bind
       (if \<not> dev_deps_available H
        then pk_print (lit ''smoke pytest subset skipped: dev toolchain (pytest) not available'')
        else pk_bind (run_checked H (pip_install H ''.[dev]'')) (\<lambda>_.
             pk_bind (run_process H (pytest_command H)) (\<lambda>returncode.
             if returncode \<noteq> 0 then (Inl (SubsetFailed returncode), [])
             else pk_print (lit ''smoke pytest subset: ok'')))) (\<lambda>_.
     pk_print (lit ''Smoke-validated '' @ output_path)))))"

section \<open>Main\<close>

text \<open>The arguments after parsing, the paths as they are printed\<close>

record package_args =
  pg_output :: pystr
  pg_validate_only :: "pystr option"
  pg_smoke_only :: "pystr option"

text \<open>\<open>build_zip\<close>: the archive is written before it is validated.\<close>

definition write_zip :: "packaging_host \<Rightarrow> pystr list list \<Rightarrow> pystr \<Rightarrow> unit packaging" where
  "write_zip H output_rel output_path =
     (let entries = archive_entries (ph_unicode H) (ph_project H) (ph_read_bytes H) output_rel in
      pk_bind (Inr (), [Wrote output_path entries]) (\<lambda>_.
      pk_bind (case validate_zip (ph_unicode H) None (map ze_name entries) of
                 Inl e \<Rightarrow> (Inl (ZipRejected e), []) | Inr _ \<Rightarrow> (Inr (), [])) (\<lambda>_.
      pk_print (lit ''Created '' @ output_path @ lit '' with '' @ nat_str (length entries) @ lit '' files (''
        @ int_str (ph_zip_size H entries) @ lit '' bytes, validated)''))))"

definition package_main :: "packaging_host \<Rightarrow> pystr list list \<Rightarrow> package_args \<Rightarrow> int packaging" where
  "package_main H output_rel args =
     (case pg_smoke_only args of
        Some path \<Rightarrow> pk_bind (smoke_validate_zip H path) (\<lambda>_. (Inr 0, []))
      | None \<Rightarrow>
          (case pg_validate_only args of
             Some path \<Rightarrow>
               pk_bind (check_archive H path) (\<lambda>_. pk_bind (pk_print (lit ''Validated '' @ path)) (\<lambda>_. (Inr 0, [])))
           | None \<Rightarrow> pk_bind (write_zip H output_rel (pg_output args)) (\<lambda>_. (Inr 0, []))))"

section \<open>The archive is determined by the files\<close>

text \<open>A directory lists each name once.\<close>

fun unique_names :: "node \<Rightarrow> bool" where
  "unique_names (Dir_Node kids) = (distinct (map fst kids) \<and> (\<forall>nk \<in> set kids. unique_names (snd nk)))"
| "unique_names _ = True"

lemma distinct_map_insert_by: "distinct (map f (insert_by k x xs)) \<longleftrightarrow> f x \<notin> f ` set xs \<and> distinct (map f xs)"
  by (induction xs) (auto simp: set_insert_by)

lemma distinct_map_sort_by: "distinct (map f (sort_by k xs)) \<longleftrightarrow> distinct (map f xs)"
proof (induction xs)
  case (Cons x xs)
  have "sort_by k (x # xs) = insert_by k x (sort_by k xs)" by (simp add: sort_by_def)
  with Cons show ?case by (simp add: distinct_map_insert_by)
qed (simp add: sort_by_def)

lemma distinct_sort_by [simp]: "distinct (sort_by k xs) \<longleftrightarrow> distinct xs"
  using distinct_map_sort_by [of "\<lambda>x. x" k xs] by simp

lemma distinct_concat_names:
  assumes "distinct (map fst L)"
    and "\<forall>(n, ws) \<in> set L. distinct ws \<and> (\<forall>w \<in> set ws. \<exists>p. w = rel @ n # p)"
  shows "distinct (concat (map snd L))"
  using assms
proof (induction L)
  case (Cons x L)
  obtain n ws where x: "x = (n, ws)" by (cases x)
  have "w \<notin> set ws'" if "w \<in> set ws" "(n', ws') \<in> set L" for w n' ws'
  proof
    assume "w \<in> set ws'"
    with Cons.prems(2) that x have "n = n'" by fastforce
    with Cons.prems(1) that(2) x show False by force
  qed
  with Cons x show ?case by fastforce
qed simp

lemma walk_distinct: "unique_names t \<Longrightarrow> distinct (walk U rel t)"
proof (induction U rel t rule: walk.induct)
  case (3 U rel kids)
  let ?files = "map fst (filter (\<lambda>nk. is_file (snd nk)) kids)"
  let ?dirs = "filter (\<lambda>nk. is_dir (snd nk) \<and> \<not> excluded_part U (fst nk)) kids"
  let ?subs = "sort_by fst (map (\<lambda>nk. (fst nk, walk U (rel @ [fst nk]) (snd nk))) ?dirs)"
  have kids: "distinct (map fst kids)" "\<forall>nk \<in> set kids. unique_names (snd nk)" using "3.prems" by auto
  then have sub: "distinct (map fst (filter P kids))" for P by (auto simp: distinct_map_filter)
  have "inj_on (\<lambda>n. rel @ [n]) A" for A by (simp add: inj_on_def)
  with sub have "distinct (map (\<lambda>n. rel @ [n]) (sort_by (\<lambda>n. n) ?files))" by (simp add: distinct_map)
  moreover have "distinct (concat (map snd ?subs))"
  proof (rule distinct_concat_names [where rel = rel])
    show "distinct (map fst ?subs)" using sub by (simp add: distinct_map_sort_by comp_def)
    show "\<forall>(n, ws) \<in> set ?subs. distinct ws \<and> (\<forall>w \<in> set ws. \<exists>p. w = rel @ n # p)"
      using "3.IH" kids(2) by (auto simp: walk_files)
  qed
  moreover have "w \<notin> set (concat (map snd ?subs))" if "w \<in> set (map (\<lambda>n. rel @ [n]) (sort_by (\<lambda>n. n) ?files))" for w
    using that by (auto simp: walk_files dest: file_at_nonempty)
  ultimately show ?case by (simp only: walk.simps distinct_append) blast
qed simp_all

lemma ordered_unique:
  assumes "ordered_by k xs" "ordered_by k ys" "distinct xs" "distinct ys" "set xs = set ys" "inj_on k (set xs)"
  shows "xs = ys"
  using assms
proof (induction xs arbitrary: ys)
  case (Cons x xs)
  then obtain y ys' where ys: "ys = y # ys'" by (cases ys) auto
  have "str_le (k x) (k y)" "str_le (k y) (k x)"
    using Cons.prems(1,2,5) ys str_le_refl by (metis set_ConsD list.set_intros(1) sorted_wrt.simps(2))+
  then have "k x = k y" by (rule str_le_antisym)
  then have "x = y" using Cons.prems(5,6) ys by (auto simp: inj_on_def)
  moreover from this Cons.prems ys have "set xs = set ys'" by auto
  moreover have "inj_on k (set xs)" using Cons.prems(6) by (rule inj_on_subset) auto
  ultimately show ?case using Cons.IH [of ys'] Cons.prems ys by simp
qed simp

lemma as_posix_inj: "inj_on as_posix {p. p \<noteq> [] \<and> (\<forall>n \<in> set p. 47 \<notin> set n)}"
  by (rule inj_on_inverseI [where g = "split_char 47"]) (simp add: split_as_posix)

section \<open>Properties\<close>

text \<open>
  C31: The archive is deterministic (equivalence).  Two checkouts that hold the same admitted files with the
  same contents give the same archive, entry by entry and in the same order: the order in which the file
  system lists a directory, the excluded files and directories, links and time stamps have no influence.
\<close>

theorem archive_deterministic:
  assumes names: "unique_names base" "unique_names base'" "\<And>p. file_at base p \<Longrightarrow> \<forall>n \<in> set p. 47 \<notin> set n"
    and same: "\<And>p. \<not> is_excluded_relative U p \<Longrightarrow> p \<notin> set out \<Longrightarrow> file_at base p = file_at base' p"
      "\<And>p. \<not> is_excluded_relative U p \<Longrightarrow> p \<notin> set out \<Longrightarrow> file_at base p \<Longrightarrow> read p = read' p"
  shows "archive_entries U base read out = archive_entries U base' read' out"
proof -
  note exact = collect_files_exact [of U base out] collect_files_exact [of U base' out]
  have "collect_files U base out = collect_files U base' out"
  proof (rule ordered_unique [where k = as_posix])
    show "distinct (collect_files U base out)" "distinct (collect_files U base' out)"
      using names(1,2) by (simp_all add: collect_files_def walk_distinct)
    show "set (collect_files U base out) = set (collect_files U base' out)" using exact same(1) by auto
    show "inj_on as_posix (set (collect_files U base out))"
      by (rule inj_on_subset [OF as_posix_inj]) (use exact names(3) file_at_nonempty in blast)
  qed (use exact in simp_all)
  moreover have "read p = read' p" if "p \<in> set (collect_files U base out)" for p
    using that exact(1) same(2) by blast
  ultimately show ?thesis by (simp add: archive_entries_def)
qed

definition archive_accepted :: "packaging_host \<Rightarrow> pystr \<Rightarrow> bool" where
  "archive_accepted H path \<longleftrightarrow>
     validate_zip (ph_unicode H) (fst (ph_zip H path)) (snd (ph_zip H path)) = Inr ()"

definition succeeds :: "packaging_host \<Rightarrow> pystr list \<Rightarrow> bool" where
  "succeeds H argv \<longleftrightarrow> ph_returncode H argv = 0"

lemmas packaging_defs = pk_bind_def pk_print_def run_process_def run_checked_def check_archive_def

text \<open>
  The exit code of the packager means what it says (error behaviour).  \<open>main\<close> returns 0 in smoke mode
  exactly when the archive is accepted by the validation, installs, its client finds the service working,
  and either \<open>pytest\<close> is not importable or the test dependencies install and the subset of the tests
  passes; in validation mode exactly when the archive is accepted; and otherwise exactly when the archive
  that was just written is accepted.  No other exit code is returned.
\<close>

theorem package_main_exact:
  "fst (package_main H output_rel args) = Inr code \<longleftrightarrow> code = 0 \<and>
    (case (pg_smoke_only args, pg_validate_only args) of
       (Some path, _) \<Rightarrow> archive_accepted H path \<and> succeeds H (pip_install H ''.'') \<and> succeeds H (smoke_command H)
         \<and> (if ph_pytest_importable H then succeeds H (pip_install H ''.[dev]'') \<and> succeeds H (pytest_command H) else True)
     | (None, Some path) \<Rightarrow> archive_accepted H path
     | (None, None) \<Rightarrow> build_zip (ph_unicode H) (ph_project H) output_rel
         = Inr (map as_posix (collect_files (ph_unicode H) (ph_project H) output_rel)))"
proof (cases "pg_smoke_only args")
  case (Some path)
  then show ?thesis
    by (auto simp: package_main_def smoke_validate_zip_def packaging_defs archive_accepted_def dev_deps_available_def succeeds_def
        split: prod.splits sum.splits)
next
  case smoke: None
  show ?thesis
  proof (cases "pg_validate_only args")
    case (Some path)
    with smoke show ?thesis
      by (auto simp: package_main_def packaging_defs archive_accepted_def split: prod.splits sum.splits)
  next
    case None
    have "map ze_name (archive_entries U base rd out) = map as_posix (collect_files U base out)" for U base rd out
      by (simp add: archive_entries_def comp_def)
    with smoke None show ?thesis
      by (auto simp: package_main_def write_zip_def packaging_defs build_zip_def Let_def split: sum.splits)
  qed
qed

section \<open>An example\<close>

text \<open>Another checkout of \<open>project\<close>: other directory order, no repository, no environment file\<close>

definition checkout :: node where
  "checkout = Dir_Node [dir_named ''app'' [(lit ''link.py'', Link_Node), file_named ''main.py'']]"

theorem archive_deterministic_witness:
  "archive_entries ucd_ru checkout (\<lambda>p. [1]) [] = archive_entries ucd_ru project (\<lambda>p. if p = [lit ''.env''] then [2] else [1]) []"
proof (rule archive_deterministic [symmetric])
  have files: "file_at checkout p \<longleftrightarrow> p = [lit ''app'', lit ''main.py'']" for p
    by (auto simp: checkout_def file_named_def dir_named_def file_at_dir)
  have ex: "is_excluded_relative ucd_ru [lit ''.env'']" "is_excluded_relative ucd_ru [lit ''.git'', lit ''config'']"
    by code_simp+
  show "unique_names project" "unique_names checkout"
    by (simp_all add: project_def checkout_def file_named_def dir_named_def lit_def)
  show "\<forall>n \<in> set p. 47 \<notin> set n" if "file_at project p" for p
    using that project_plain [of p] by (auto simp: plain_name_def)
  show "file_at project p = file_at checkout p" if "\<not> is_excluded_relative ucd_ru p" for p
    using that ex by (auto simp: project_files files)
  show "(if p = [lit ''.env''] then [2] else [1]) = [1 :: byte]" if "\<not> is_excluded_relative ucd_ru p" for p
    using that ex by auto
qed

end
