(* ===== verification/Reports.thy ===== *)
theory Reports
  imports Score Benchmark Package PyFormat
begin

text \<open>
  What the two benchmark scripts print: the table of \<open>benchmarks/score.py\<close> with the sentences of its quality
  gate, and the summary of \<open>scripts/benchmark.py\<close> with the sentence that goes with its exit code.  A printed
  line is a string; ratios are exact rationals, rounded when they are printed.
\<close>

section \<open>The table of scores\<close>

definition fmt_metric :: "rat \<Rightarrow> pystr" where
  "fmt_metric v = fixed 3 (Fin v)"

definition score_row :: "pystr \<Rightarrow> int \<Rightarrow> int \<Rightarrow> int \<Rightarrow> pystr" where
  "score_row name t f n =
     (let precision = ratio t f; recall = ratio t n in
      ljust 22 name @ rjust 4 (int_str t) @ rjust 4 (int_str f) @ rjust 4 (int_str n)
      @ rjust 11 (fmt_metric precision) @ rjust 9 (fmt_metric recall) @ rjust 8 (fmt_metric (f1_score precision recall)))"

definition score_header :: pystr where
  "score_header = ljust 22 (ru ''tip'') @ rjust 4 (lit ''TP'') @ rjust 4 (lit ''FP'') @ rjust 4 (lit ''FN'')
     @ rjust 11 (lit ''precision'') @ rjust 9 (lit ''recall'') @ rjust 8 (lit ''F1'')"

definition score_types :: "tallies \<Rightarrow> pystr list" where
  "score_types a = sort_by (\<lambda>s. s) (remdups (map fst (ta_tp a) @ map fst (ta_fp a) @ map fst (ta_fn a)))"

definition false_positive_lines :: "tallies \<Rightarrow> pystr list" where
  "false_positive_lines a =
     (if ta_false_positives a = [] then []
      else [[10] @ lit ''False positives '' @ ru ''na negatiwnyh kejsah'' @ lit '':'']
        @ map (\<lambda>(case_id, ty, v). lit ''  '' @ case_id @ lit '': '' @ ty @ lit '' = '' @ v) (ta_false_positives a))"

fun score_violation_text :: "violation \<Rightarrow> pystr" where
  "score_violation_text (Zero_Recall ty) = pii_value ty @ lit '': recall is zero''"
| "score_violation_text (Low_Recall ty r) =
     pii_value ty @ lit '': recall '' @ fixed 3 (Fin r) @ lit '' < '' @ fixed 3 (Fin MIN_RECALL)"
| "score_violation_text (Low_Overall_Recall r) =
     lit ''overall recall '' @ fixed 3 (Fin r) @ lit '' < '' @ fixed 3 (Fin MIN_OVERALL_RECALL)"
| "score_violation_text (Low_Overall_F1 f) =
     lit ''overall F1 '' @ fixed 3 (Fin f) @ lit '' < '' @ fixed 3 (Fin MIN_OVERALL_F1)"

definition gate_lines :: "violation list \<Rightarrow> pystr list" where
  "gate_lines vs =
     (if vs \<noteq> [] then [[10] @ lit ''Quality gate FAILED:''] @ map (\<lambda>v. lit ''  - '' @ score_violation_text v) vs
      else [[10] @ lit ''Quality gate passed.''])"

definition score_report :: "tallies \<Rightarrow> pystr list" where
  "score_report a =
     [score_header]
     @ map (\<lambda>ty. score_row ty (count_of (ta_tp a) ty) (count_of (ta_fp a) ty) (count_of (ta_fn a) ty)) (score_types a)
     @ [score_row (lit ''TOTAL'') (total_of (ta_tp a)) (total_of (ta_fp a)) (total_of (ta_fn a))]
     @ false_positive_lines a @ gate_lines (violations a)"

section \<open>The summary of the load benchmark\<close>

definition count_text :: "counters \<Rightarrow> counter \<Rightarrow> pystr" where
  "count_text c k = nat_str (co_count c k)"

definition total_errors :: "counters \<Rightarrow> nat" where
  "total_errors c = co_count c functional_errors + co_count c transport_errors"

definition ms_text :: "rat \<Rightarrow> pystr" where
  "ms_text v = fixed 2 (Fin v) @ lit ''ms''"

definition bench_report :: "int \<Rightarrow> rat \<Rightarrow> rat \<Rightarrow> counters \<Rightarrow> pystr list" where
  "bench_report users duration elapsed c =
     (let n = co_count c total_requests; latencies = co_latencies c;
          rps = (if elapsed \<noteq> 0 then of_nat n / elapsed else 0);
          error_rate = (if n \<noteq> 0 then of_nat (total_errors c) / of_nat n else 0);
          avg = (if latencies \<noteq> [] then sum_list latencies / of_nat (length latencies) else 0)
      in [lit ''users='' @ int_str users @ lit '' duration='' @ fixed 0 (Fin duration) @ lit ''s'',
          lit ''achieved_rps='' @ fixed 1 (Fin rps),
          lit ''total_requests='' @ nat_str n,
          lit ''mask_attempts='' @ count_text c mask_attempts @ lit '' demask_attempts='' @ count_text c demask_attempts
            @ lit '' (successful_mask='' @ count_text c successful_mask
            @ lit '' successful_demask='' @ count_text c successful_demask @ lit '')'',
          lit ''http_2xx='' @ count_text c http_2xx @ lit '' http_429='' @ count_text c http_429,
          lit ''functional_errors='' @ count_text c functional_errors
            @ lit '' transport_errors='' @ count_text c transport_errors,
          lit ''avg='' @ ms_text avg @ lit '' p50='' @ ms_text (percentile latencies (1 / 2))
            @ lit '' p95='' @ ms_text (percentile latencies (95 / 100))
            @ lit '' p99='' @ ms_text (percentile latencies (99 / 100)),
          lit ''error_rate='' @ fixed 4 (Fin error_rate)])"

text \<open>What goes to \<open>stderr\<close>\<close>

definition bench_errors :: "counters \<Rightarrow> pystr list" where
  "bench_errors c =
     (if co_count c mask_attempts + co_count c demask_attempts \<noteq> co_count c total_requests
      then [lit ''ERROR: counter mismatch: mask_attempts + demask_attempts != total_requests'']
      else if co_count c total_requests = 0 then [lit ''ERROR: no requests were made'']
      else if co_count c functional_errors \<noteq> 0 \<or> co_count c transport_errors \<noteq> 0
      then [lit ''ERROR: functional/transport errors detected (functional='' @ count_text c functional_errors
             @ lit '' transport='' @ count_text c transport_errors @ lit '')'']
      else if co_count c successful_mask = 0 \<or> co_count c successful_demask = 0
      then [lit ''ERROR: no successful mask/demask roundtrip (successful_mask='' @ count_text c successful_mask
             @ lit '' successful_demask='' @ count_text c successful_demask @ lit '')'']
      else [])"

section \<open>The printed text agrees with the exit code\<close>

lemma bench_errors_exit: "bench_errors c = [] \<longleftrightarrow> exit_code c = 0"
  by (simp add: bench_errors_def exit_code_def)

lemma gate_lines_verdict: "last (score_report a) = [10] @ lit ''Quality gate passed.'' \<longleftrightarrow> violations a = []"
proof (cases "violations a = []")
  case False
  then obtain v where v: "last (score_report a) = lit ''  - '' @ score_violation_text v"
    by (simp add: score_report_def gate_lines_def last_map)
  have "lit ''  - '' @ s \<noteq> [10] @ t" for s t by (simp add: lit_def)
  with False v show ?thesis by simp
qed (simp add: score_report_def gate_lines_def)

text \<open>The table has a line for every type that was found or expected, once, in the order of the names.\<close>

lemma score_types_exact:
  "set (score_types a) = fst ` set (ta_tp a) \<union> fst ` set (ta_fp a) \<union> fst ` set (ta_fn a)
   \<and> ordered_by (\<lambda>s. s) (score_types a)"
  by (auto simp: score_types_def ordered_sort_by)

text \<open>The columns of the table line up when the counts have at most four digits.\<close>

lemma just_length: "length s \<le> n \<Longrightarrow> length (ljust n s) = n" "length s \<le> n \<Longrightarrow> length (rjust n s) = n"
  by (simp_all add: ljust_def rjust_def)

end
