(* ===== verification/LoadProfile.thy ===== *)
theory LoadProfile
  imports LoadUser
begin

text \<open>
  The organizer profile of the load test, \<open>tests/performance/locustfile.py\<close>: the target rate over time, the
  number of task slots scheduled up to a time, the search for the time of a slot, the shared scheduler that
  hands the slots to the users, and the number of users.  Every operation on floats is rounded as in Python.
\<close>

section \<open>Configuration\<close>

text \<open>The numbers read from the environment, and the constants the module makes of them\<close>

record profile_env =
  pe_duration :: int
  pe_max_users :: int
  pe_rps_per_user :: rat
  pe_required_users :: int

definition organizer_duration :: "profile_env \<Rightarrow> int" where
  "organizer_duration E = max (pe_duration E) 1"

definition organizer_max_users :: "profile_env \<Rightarrow> int" where
  "organizer_max_users E = min (max (pe_max_users E) 1) ORGANIZER_HARD_MAX_USERS"

definition organizer_rps_per_user :: "profile_env \<Rightarrow> rat" where
  "organizer_rps_per_user E = max (pe_rps_per_user E) (fl (1 / 10))"

definition required_concurrent_users :: "profile_env \<Rightarrow> int" where
  "required_concurrent_users E = max (pe_required_users E) 0"

section \<open>The profile\<close>

definition target_rps_at :: "rat \<Rightarrow> rat" where
  "target_rps_at t =
     (if t < 0 then 0
      else if t < 180 then fl (fl (330 * t) / 180)
      else if t < 300 then 330
      else if t < 330 then 1000
      else if t < 360 then fl (1000 - fl (fl (670 * fl (t - 330)) / 30))
      else if t < 480 then 330
      else 0)"

text \<open>\<open>_cumulative_tasks\<close>: the slots scheduled up to \<open>t\<close>, one after the other over the segments\<close>

definition cumulative_tasks :: "rat \<Rightarrow> rat \<Rightarrow> rat \<Rightarrow> rat" where
  "cumulative_tasks per_task duration t =
     (if t \<le> 0 then 0
      else
        let t = min t duration;
            seg_end = min t 180;
            total = (if 0 < seg_end then fl (fl (fl (330 / 180) * fl (seg_end * seg_end)) / 2) else 0)
        in if t \<le> 180 then fl (total / per_task)
        else let total = fl (total + fl (330 * fl (min t 300 - 180)))
        in if t \<le> 300 then fl (total / per_task)
        else let total = fl (total + fl (1000 * fl (min t 330 - 300)))
        in if t \<le> 330 then fl (total / per_task)
        else let seg_end = min t 360;
                 frac = fl (fl (seg_end - 330) / 30);
                 total = fl (total + fl (fl (fl (1000 + fl (1000 - fl (670 * frac))) * fl (seg_end - 330)) / 2))
        in if t \<le> 360 then fl (total / per_task)
        else fl (fl (total + fl (330 * fl (t - 360))) / per_task))"

text \<open>The loop of \<open>_scheduled_time_for_ordinal\<close>, 60 times\<close>

definition midpoint :: "rat \<Rightarrow> rat \<Rightarrow> rat" where
  "midpoint lo hi = fl (fl (lo + hi) / 2)"

fun bisect :: "nat \<Rightarrow> (rat \<Rightarrow> rat) \<Rightarrow> rat \<Rightarrow> rat \<Rightarrow> rat \<Rightarrow> rat \<times> rat" where
  "bisect 0 f n lo hi = (lo, hi)"
| "bisect (Suc k) f n lo hi =
     (let mid = midpoint lo hi in if f mid < n then bisect k f n mid hi else bisect k f n lo mid)"

definition scheduled_time_for_ordinal :: "rat \<Rightarrow> rat \<Rightarrow> rat \<Rightarrow> rat" where
  "scheduled_time_for_ordinal per_task duration n =
     (if n \<le> 0 then 0
      else case bisect 60 (cumulative_tasks per_task duration) n 0 duration of (lo, hi) \<Rightarrow> midpoint lo hi)"

section \<open>Users and slots\<close>

definition organizer_user_count :: "profile_env \<Rightarrow> rat \<Rightarrow> int" where
  "organizer_user_count E target =
     min (organizer_max_users E) (max (max 1 \<lceil>fl (target / organizer_rps_per_user E)\<rceil>) (required_concurrent_users E))"

text \<open>\<open>_current_per_user_rate\<close> for the run time of the active shape, if there is one, and \<open>OrganizerShape.tick\<close>\<close>

definition current_per_user_rate :: "profile_env \<Rightarrow> rat \<Rightarrow> rat \<Rightarrow> rat option \<Rightarrow> rat" where
  "current_per_user_rate E per_task static run_time =
     (case run_time of
        None \<Rightarrow> static
      | Some t \<Rightarrow>
          let target = target_rps_at t
          in max (fl (fl (target / of_int (organizer_user_count E target)) / per_task)) (fl (1 / 1000)))"

definition tick :: "profile_env \<Rightarrow> rat \<Rightarrow> (int \<times> rat) option" where
  "tick E t =
     (if of_int (organizer_duration E) \<le> t then None
      else let users = organizer_user_count E (target_rps_at t) in Some (users, max 1 (of_int users)))"

record scheduler =
  sd_next_ordinal :: int
  sd_total_slots :: rat

definition reset_scheduler :: "profile_env \<Rightarrow> rat \<Rightarrow> scheduler" where
  "reset_scheduler E per_task =
     \<lparr>sd_next_ordinal = 1,
      sd_total_slots = cumulative_tasks per_task (of_int (organizer_duration E)) (of_int (organizer_duration E))\<rparr>"

text \<open>
  \<open>_organizer_pace\<close>: the next ordinal is taken under the lock.  \<open>None\<close> when no slot is left (the user waits
  for the end of the run), otherwise the time the task starts at, for a caller that comes at \<open>now\<close> and a sleep
  that lasts as long as it is asked to.
\<close>

definition organizer_pace :: "profile_env \<Rightarrow> rat \<Rightarrow> rat \<Rightarrow> scheduler \<Rightarrow> rat option \<times> scheduler" where
  "organizer_pace E per_task now sd =
     (let ordinal = sd_next_ordinal sd;
          sd' = sd\<lparr>sd_next_ordinal := ordinal + 1\<rparr>
      in if sd_total_slots sd < of_int ordinal then (None, sd')
         else let delay = fl (scheduled_time_for_ordinal per_task (of_int (organizer_duration E)) (of_int ordinal) - now)
              in (Some (if 0 < delay then now + delay else now), sd'))"

text \<open>The tasks of all users in the order in which they take the lock, each with the time of its call\<close>

fun paced_starts :: "profile_env \<Rightarrow> rat \<Rightarrow> rat list \<Rightarrow> scheduler \<Rightarrow> rat option list" where
  "paced_starts E per_task [] sd = []"
| "paced_starts E per_task (now # nows) sd =
     (case organizer_pace E per_task now sd of (start, sd') \<Rightarrow> start # paced_starts E per_task nows sd')"

section \<open>The exact profile\<close>

definition target_rate :: "rat \<Rightarrow> rat" where
  "target_rate t =
     (if t < 0 then 0
      else if t < 180 then 330 * t / 180
      else if t < 300 then 330
      else if t < 330 then 1000
      else if t < 360 then 1000 - 670 * (t - 330) / 30
      else if t < 480 then 330
      else 0)"

text \<open>The area under the profile as a sum over the phases; \<open>phase_part a b t\<close> is how far \<open>t\<close> is in a phase.\<close>

definition phase_part :: "rat \<Rightarrow> rat \<Rightarrow> rat \<Rightarrow> rat" where
  "phase_part a b t = min t b - min t a"

definition area :: "rat \<Rightarrow> rat" where
  "area t = 330 / 360 * (min t 180 * min t 180) + 330 * phase_part 180 300 t + 1000 * phase_part 300 330 t
     + (1000 - 670 / 60 * phase_part 330 360 t) * phase_part 330 360 t + 330 * (t - min t 360)"

text \<open>The area under the target rate up to \<open>t\<close>; from 480 s on the rate is zero.\<close>

definition profile_area :: "rat \<Rightarrow> rat" where
  "profile_area t = area (min t 480)"

text \<open>In every phase it grows by trapezoids, and afterwards not at all.\<close>

theorem profile_is_area:
  assumes "0 \<le> s" "s \<le> t" "(p, q) \<in> {(0, 180), (180, 300), (300, 330), (330, 360), (360, 480), (480, 10 ^ 9)}"
    and "p \<le> s" "t < q"
  shows "profile_area t - profile_area s = (target_rate s + target_rate t) / 2 * (t - s)"
  using assms
  by (auto simp: profile_area_def area_def phase_part_def target_rate_def min_absorb1 min_absorb2 field_simps)

lemma phase_part_step:
  "s \<le> t \<Longrightarrow> a \<le> b \<Longrightarrow> 0 \<le> phase_part a b s \<and> phase_part a b s \<le> phase_part a b t \<and> phase_part a b t \<le> b - a"
  by (auto simp: phase_part_def min_def)

lemma ramp_step:
  assumes "0 \<le> (x::rat)" "x \<le> y" "y \<le> 180"
  shows "330 / 360 * (x * x) \<le> 330 / 360 * (y * y)"
    "330 / 360 * (y * y) - 330 / 360 * (x * x) \<le> 1000 * (y - x)"
proof -
  have "x * x \<le> y * y" by (rule mult_mono) (use assms in auto)
  then show "330 / 360 * (x * x) \<le> 330 / 360 * (y * y)" by simp
  have "330 / 360 * (y * y) - 330 / 360 * (x * x) = (y - x) * (330 / 360 * (x + y))" by (simp add: algebra_simps)
  also have "\<dots> \<le> (y - x) * 1000" by (rule mult_left_mono) (use assms in auto)
  finally show "330 / 360 * (y * y) - 330 / 360 * (x * x) \<le> 1000 * (y - x)" by (simp add: algebra_simps)
qed

lemma decay_step:
  assumes "0 \<le> (x::rat)" "x \<le> y" "y \<le> 30"
  shows "(1000 - 670 / 60 * x) * x \<le> (1000 - 670 / 60 * y) * y"
    "(1000 - 670 / 60 * y) * y - (1000 - 670 / 60 * x) * x \<le> 1000 * (y - x)"
proof -
  have eq: "(1000 - 670 / 60 * y) * y - (1000 - 670 / 60 * x) * x = (y - x) * (1000 - 670 / 60 * (x + y))"
    by (simp add: field_simps)
  have "0 \<le> (y - x) * (1000 - 670 / 60 * (x + y))" by (rule mult_nonneg_nonneg) (use assms in auto)
  with eq show "(1000 - 670 / 60 * x) * x \<le> (1000 - 670 / 60 * y) * y" by linarith
  have "(y - x) * (1000 - 670 / 60 * (x + y)) \<le> (y - x) * 1000" by (rule mult_left_mono) (use assms in auto)
  with eq show "(1000 - 670 / 60 * y) * y - (1000 - 670 / 60 * x) * x \<le> 1000 * (y - x)" by (simp add: algebra_simps)
qed

lemma five_mono:
  "(a::rat) \<le> a' \<Longrightarrow> b \<le> b' \<Longrightarrow> c \<le> c' \<Longrightarrow> d \<le> d' \<Longrightarrow> e \<le> e' \<Longrightarrow>
     a + 330 * b + 1000 * c + d + 330 * e \<le> a' + 330 * b' + 1000 * c' + d' + 330 * e'"
  by linarith

lemma five_bound:
  assumes "(a'::rat) - a \<le> 1000 * (x' - x)" "b \<le> b'" "d' - d \<le> 1000 * (p' - p)" "e \<le> e'"
    and "s = x + b + c + p + e" "t = x' + b' + c' + p' + e'"
  shows "a' + 330 * b' + 1000 * c' + d' + 330 * e' - (a + 330 * b + 1000 * c + d + 330 * e) \<le> 1000 * (t - s)"
proof -
  have "0 \<le> 670 * (b' - b)" "0 \<le> 670 * (e' - e)" using assms(2,4) by simp_all
  with assms(1,3) show ?thesis unfolding assms(5,6) ring_distribs by linarith
qed

lemma area_step:
  assumes "0 \<le> s" "s \<le> t"
  shows "area s \<le> area t" "area t - area s \<le> 1000 * (t - s)"
proof -
  let ?p = "phase_part 330 360"
  have m: "0 \<le> min s 180" "min s 180 \<le> min t 180" "min t 180 \<le> 180" using assms by (auto simp: min_def)
  have p: "0 \<le> ?p s" "?p s \<le> ?p t" "?p t \<le> 30" using phase_part_step [OF assms(2), of 330 360] by auto
  have step: "phase_part 180 300 s \<le> phase_part 180 300 t" "phase_part 300 330 s \<le> phase_part 300 330 t"
    using phase_part_step [OF assms(2), of 180 300] phase_part_step [OF assms(2), of 300 330] by auto
  have last: "s - min s 360 \<le> t - min t 360" using assms by (auto simp: min_def)
  show "area s \<le> area t"
    unfolding area_def by (rule five_mono [OF ramp_step(1) [OF m] step decay_step(1) [OF p] last])
  have whole: "u = min u 180 + phase_part 180 300 u + phase_part 300 330 u + ?p u + (u - min u 360)" for u
    by (simp add: phase_part_def)
  show "area t - area s \<le> 1000 * (t - s)"
    unfolding area_def
    by (rule five_bound [OF ramp_step(2) [OF m] step(1) decay_step(2) [OF p] last whole [of s] whole [of t]])
qed

section \<open>The rounding of the schedule\<close>

text \<open>Numbers below \<open>2 ^ 18\<close> are rounded by at most \<open>eps\<close>; \<open>within_eps k x a\<close> is an error of \<open>k\<close> times that.\<close>

definition eps :: rat where "eps = 1 / 2 ^ 35"

definition within_eps :: "rat \<Rightarrow> rat \<Rightarrow> rat \<Rightarrow> bool" where
  "within_eps k x a \<longleftrightarrow> \<bar>x - a\<bar> \<le> k * eps"

lemma eps_pos: "0 < eps"
  by (simp add: eps_def)

lemma within_refl: "within_eps 0 x x"
  by (simp add: within_eps_def)

lemma within_weaken: "within_eps k x a \<Longrightarrow> k \<le> k' \<Longrightarrow> within_eps k' x a"
  unfolding within_eps_def using eps_pos mult_right_mono [of k k' eps] by linarith

lemma within_size: "within_eps k x a \<Longrightarrow> k \<le> 100000 \<Longrightarrow> \<bar>x\<bar> \<le> \<bar>a\<bar> + 1 / 2"
proof -
  assume x: "within_eps k x a" "k \<le> 100000"
  have "k * eps \<le> 100000 * eps" using x(2) eps_pos by (intro mult_right_mono) simp_all
  also have "\<dots> \<le> 1 / 2" by (simp add: eps_def)
  finally show ?thesis using x(1) unfolding within_eps_def by linarith
qed

lemma within_fl:
  assumes "within_eps k x a" "\<bar>a\<bar> \<le> 200000" "k \<le> 100000"
  shows "within_eps (k + 1) (fl x) a"
proof -
  have "\<bar>x\<bar> \<le> 200001" using within_size [OF assms(1,3)] assms(2) by linarith
  also have "(200001 :: rat) \<le> 2 powi 18" by simp
  finally have "\<bar>fl x - x\<bar> \<le> 2 powi (18 - 53)" by (rule fl_abs) simp
  also have "(2 :: rat) powi (18 - 53) = eps" by (simp add: eps_def power_int_def power_divide)
  finally show ?thesis using assms(1) unfolding within_eps_def ring_distribs by linarith
qed

lemma within_add: "within_eps k x a \<Longrightarrow> within_eps l y b \<Longrightarrow> within_eps (k + l) (x + y) (a + b)"
  unfolding within_eps_def ring_distribs by linarith

lemma within_const_minus: "within_eps k x a \<Longrightarrow> within_eps k (c - x) (c - a)"
  unfolding within_eps_def by linarith

lemma within_const_add: "within_eps k x a \<Longrightarrow> within_eps k (c + x) (c + a)"
  unfolding within_eps_def by linarith

lemma within_scale:
  assumes "within_eps k x a" "0 \<le> c"
  shows "within_eps (c * k) (c * x) (c * a)"
proof -
  have "\<bar>c * x - c * a\<bar> = c * \<bar>x - a\<bar>" using assms(2) by (simp add: right_diff_distrib [symmetric] abs_mult)
  also have "\<dots> \<le> c * (k * eps)" using assms unfolding within_eps_def by (rule mult_left_mono)
  finally show ?thesis by (simp add: within_eps_def)
qed

lemma within_mult:
  assumes "within_eps k x a" "within_eps l y b" "\<bar>x\<bar> \<le> X" "\<bar>b\<bar> \<le> B" "0 \<le> k" "0 \<le> l"
  shows "within_eps (X * l + k * B) (x * y) (a * b)"
proof -
  have "x * y - a * b = x * (y - b) + (x - a) * b" by (simp add: algebra_simps)
  then have "\<bar>x * y - a * b\<bar> \<le> \<bar>x\<bar> * \<bar>y - b\<bar> + \<bar>x - a\<bar> * \<bar>b\<bar>" by (metis abs_mult abs_triangle_ineq)
  moreover have "\<bar>x\<bar> * \<bar>y - b\<bar> \<le> X * (l * eps)"
    using assms(2,3) unfolding within_eps_def by (intro mult_mono) auto
  moreover have "\<bar>x - a\<bar> * \<bar>b\<bar> \<le> k * eps * B"
    using assms(1,4,5) eps_pos unfolding within_eps_def by (intro mult_mono) auto
  ultimately show ?thesis unfolding within_eps_def by (simp add: algebra_simps)
qed

text \<open>The parts of the sum in \<open>_cumulative_tasks\<close>\<close>

lemma ramp_rounded:
  assumes "0 < s" "s \<le> 180"
  shows "within_eps 4 (fl (fl (fl (330 / 180) * fl (s * s)) / 2)) (330 / 360 * (s * s))"
proof -
  have "s * s \<le> 180 * 180" using assms by (intro mult_mono) simp_all
  then have ss: "s * s \<le> 32400" "0 \<le> s * s" by simp_all
  have q: "within_eps 1 (fl (s * s)) (s * s)" using within_fl [OF within_refl [of "s * s"]] ss by simp
  have "\<bar>fl (330 / 180) - 330 / 180\<bar> \<le> 2 powi (1 - 53)" by (rule fl_abs) simp_all
  then have c: "within_eps (1 / 2 ^ 17) (fl (330 / 180)) (330 / 180)"
    by (simp add: within_eps_def eps_def power_int_def power_divide)
  then have "\<bar>fl (330 / 180)\<bar> \<le> 5 / 2" using within_size [OF c] by simp
  from within_mult [OF c q this, of 32400] ss
  have "within_eps (5 / 2 * 1 + 1 / 2 ^ 17 * 32400) (fl (330 / 180) * fl (s * s)) (330 / 180 * (s * s))" by simp
  from within_weaken [OF this, of 3] have "within_eps 3 (fl (330 / 180) * fl (s * s)) (330 / 180 * (s * s))" by simp
  from within_fl [OF this] ss have p: "within_eps 4 (fl (fl (330 / 180) * fl (s * s))) (330 / 180 * (s * s))" by simp
  have "within_eps 2 (fl (fl (330 / 180) * fl (s * s)) / 2) (330 / 360 * (s * s))"
    using within_scale [OF p, of "1 / 2"] by simp
  from within_weaken [OF within_fl [OF this]] ss show ?thesis by simp
qed

lemma steady_rounded:
  assumes "0 \<le> x - a" "x - a \<le> 180" "0 \<le> r" "r \<le> 1000"
  shows "within_eps 1001 (fl (r * fl (x - a))) (r * (x - a))"
proof -
  have "within_eps 1 (fl (x - a)) (x - a)" using within_fl [OF within_refl [of "x - a"]] assms by simp
  from within_weaken [OF within_scale [OF this assms(3)], of 1000] assms(4)
  have "within_eps 1000 (r * fl (x - a)) (r * (x - a))" by simp
  moreover have "r * (x - a) \<le> 1000 * 180" using assms by (intro mult_mono) simp_all
  moreover have "0 \<le> r * (x - a)" using assms by simp
  ultimately show ?thesis using within_fl [of 1000 "r * fl (x - a)" "r * (x - a)"] by simp
qed

lemma decay_rounded:
  assumes "0 \<le> y" "y \<le> 30"
  shows "within_eps 21200 (fl (fl (fl (1000 + fl (1000 - fl (670 * fl (fl y / 30)))) * fl y) / 2)) ((1000 - 670 / 60 * y) * y)"
proof -
  have y: "within_eps 1 (fl y) y" using within_fl [OF within_refl [of y]] assms by simp
  from within_scale [OF this, of "1 / 30"] have "within_eps (1 / 30) (fl y / 30) (y / 30)" by simp
  from within_weaken [OF within_fl [OF this], of 2] assms have "within_eps 2 (fl (fl y / 30)) (y / 30)" by simp
  from within_scale [OF this, of 670] have "within_eps 1340 (670 * fl (fl y / 30)) (670 / 30 * y)" by simp
  from within_const_minus [OF within_fl [OF this]] assms
  have "within_eps 1341 (1000 - fl (670 * fl (fl y / 30))) (1000 - 670 / 30 * y)" by simp
  from within_const_add [OF within_fl [OF this], of 1000] assms
  have "within_eps 1342 (1000 + fl (1000 - fl (670 * fl (fl y / 30)))) (1000 + (1000 - 670 / 30 * y))" by simp
  from within_fl [OF this] assms
  have z: "within_eps 1343 (fl (1000 + fl (1000 - fl (670 * fl (fl y / 30))))) (1000 + (1000 - 670 / 30 * y))" by simp
  then have "\<bar>fl (1000 + fl (1000 - fl (670 * fl (fl y / 30))))\<bar> \<le> 2001"
    using within_size [OF z] assms by simp
  from within_weaken [OF within_mult [OF z y this, of 30], of 42300] assms
  have "within_eps 42300 (fl (1000 + fl (1000 - fl (670 * fl (fl y / 30)))) * fl y) ((1000 + (1000 - 670 / 30 * y)) * y)"
    by simp
  moreover have m: "0 \<le> (1000 + (1000 - 670 / 30 * y)) * y" "(1000 + (1000 - 670 / 30 * y)) * y \<le> 2000 * 30"
    using assms by (simp, intro mult_mono) simp_all
  ultimately have p: "within_eps 42301 (fl (fl (1000 + fl (1000 - fl (670 * fl (fl y / 30)))) * fl y)) ((1000 + (1000 - 670 / 30 * y)) * y)"
    using within_fl [of 42300 _ "(1000 + (1000 - 670 / 30 * y)) * y"] by simp
  have half: "(1000 - 670 / 60 * y) * y = 1 / 2 * ((1000 + (1000 - 670 / 30 * y)) * y)" by (simp add: field_simps)
  show ?thesis unfolding half
    using within_weaken [OF within_fl [OF within_scale [OF p, of "1 / 2"]], of 21200] m by simp
qed

lemma within_quotient:
  assumes "within_eps k x a" "\<bar>a\<bar> \<le> 200000" "0 \<le> k" "k \<le> 50000" "1 \<le> per"
  shows "within_eps (k + 1) (fl (x / per)) (a / per)"
proof -
  have "1 / per * k \<le> 1 * k" using assms(3,5) by (intro mult_right_mono) simp_all
  then have "within_eps k (x / per) (a / per)" using within_weaken [OF within_scale [OF assms(1), of "1 / per"], of k] assms(5) by simp
  moreover have "\<bar>a / per\<bar> \<le> 200000"
  proof -
    have "\<bar>a\<bar> \<le> \<bar>a\<bar> * per" using assms(5) by (simp add: mult_le_cancel_left1)
    then have "\<bar>a / per\<bar> \<le> \<bar>a\<bar>" using assms(5) by (simp add: abs_divide divide_le_eq)
    then show ?thesis using assms(2) by linarith
  qed
  ultimately show ?thesis using within_fl assms(4) by simp
qed

lemma within_sum:
  assumes "within_eps k x a" "within_eps l y b" "\<bar>a + b\<bar> \<le> 200000" "k + l \<le> 50000"
  shows "within_eps (k + l + 1) (fl (x + y)) (a + b)"
  using within_fl [OF within_add [OF assms(1,2)] assms(3)] assms(4) by simp

lemma decay_size:
  assumes "0 \<le> y" "y \<le> 30"
  shows "0 \<le> (1000 - 670 / 60 * y) * y" "(1000 - 670 / 60 * y) * y \<le> (30000 :: rat)"
proof -
  show "0 \<le> (1000 - 670 / 60 * y) * y" using assms by (intro mult_nonneg_nonneg) simp_all
  have "(1000 - 670 / 60 * y) * y \<le> 1000 * 30" using assms by (intro mult_mono) simp_all
  then show "(1000 - 670 / 60 * y) * y \<le> 30000" by simp
qed

text \<open>The slots that the code counts are the area under the target rate, up to the roundings.\<close>

lemma cumulative_close:
  assumes "1 \<le> per" "0 < t" "0 < duration" "duration \<le> 480"
  shows "within_eps 25000 (cumulative_tasks per duration t) (area (min t duration) / per)"
proof -
  define u where "u = min t duration"
  have u: "0 < u" "u \<le> 480" using assms by (simp_all add: u_def)
  define T1 where "T1 = fl (fl (fl (330 / 180) * fl (min u 180 * min u 180)) / 2)"
  define T2 where "T2 = fl (T1 + fl (330 * fl (min u 300 - 180)))"
  define T3 where "T3 = fl (T2 + fl (1000 * fl (min u 330 - 300)))"
  define y where "y = min u 360 - 330"
  define T4 where "T4 = fl (T3 + fl (fl (fl (1000 + fl (1000 - fl (670 * fl (fl y / 30)))) * fl y) / 2))"
  define T5 where "T5 = fl (T4 + fl (330 * fl (u - 360)))"
  have cumulative: "cumulative_tasks per duration t = (if u \<le> 180 then fl (T1 / per) else if u \<le> 300 then fl (T2 / per)
      else if u \<le> 330 then fl (T3 / per) else if u \<le> 360 then fl (T4 / per) else fl (T5 / per))"
    using assms(2) u(1)
    by (simp add: cumulative_tasks_def Let_def u_def [symmetric] T1_def T2_def T3_def T4_def T5_def y_def)
  have e1: "within_eps 4 T1 (330 / 360 * (min u 180 * min u 180))"
    unfolding T1_def by (rule ramp_rounded) (use u in auto)
  have e2: "within_eps 1006 T2 (29700 + 330 * (min u 300 - 180))" if "180 < u"
  proof -
    have "within_eps 4 T1 29700" using e1 that by (simp add: min_absorb2)
    from within_sum [OF this steady_rounded [of "min u 300" 180 330]] that show ?thesis unfolding T2_def by simp
  qed
  have e3: "within_eps 2008 T3 (69300 + 1000 * (min u 330 - 300))" if "300 < u"
  proof -
    have "within_eps 1006 T2 69300" using e2 that by (simp add: min_absorb2)
    from within_sum [OF this steady_rounded [of "min u 330" 300 1000]] that show ?thesis unfolding T3_def by simp
  qed
  have e4: "within_eps 23209 T4 (99300 + (1000 - 670 / 60 * y) * y)" if "330 < u"
  proof -
    have y: "0 \<le> y" "y \<le> 30" using that by (auto simp: y_def)
    note decay_size [OF y]
    moreover have "within_eps 2008 T3 99300" using e3 that by (simp add: min_absorb2)
    ultimately show ?thesis using within_sum [OF _ decay_rounded [OF y], of 2008 T3 99300] unfolding T4_def by simp
  qed
  have e5: "within_eps 24211 T5 (119250 + 330 * (u - 360))" if "360 < u"
  proof -
    have "within_eps 23209 T4 119250" using e4 that by (simp add: y_def min_absorb2)
    from within_sum [OF this steady_rounded [of u 360 330]] that u(2) show ?thesis unfolding T5_def by simp
  qed
  note q = within_quotient [OF _ _ _ _ assms(1), THEN within_weaken, of _ _ _ 25000]
  consider "u \<le> 180" | "180 < u" "u \<le> 300" | "300 < u" "u \<le> 330" | "330 < u" "u \<le> 360" | "360 < u" by linarith
  then have "within_eps 25000 (cumulative_tasks per duration t) (area u / per)"
  proof cases
    case 1
    have "u * u \<le> 180 * 180" using 1 u by (intro mult_mono) simp_all
    with 1 e1 u q [of 4 T1 "330 / 360 * (u * u)"] show ?thesis
      by (simp add: cumulative area_def phase_part_def min_absorb1)
  next
    case 2
    with e2 q [of 1006 T2 "29700 + 330 * (u - 180)"] show ?thesis
      by (simp add: cumulative area_def phase_part_def min_absorb1 min_absorb2)
  next
    case 3
    with e3 q [of 2008 T3 "69300 + 1000 * (u - 300)"] show ?thesis
      by (simp add: cumulative area_def phase_part_def min_absorb1 min_absorb2)
  next
    case 4
    then have y: "y = u - 330" by (simp add: y_def min_absorb1)
    have "0 \<le> y" "y \<le> 30" using 4 y by simp_all
    from decay_size [OF this] 4 e4 q [of 23209 T4 "99300 + (1000 - 670 / 60 * y) * y"] show ?thesis
      by (simp add: cumulative area_def phase_part_def min_absorb1 min_absorb2 y)
  next
    case 5
    with e5 u q [of 24211 T5 "119250 + 330 * (u - 360)"] show ?thesis
      by (simp add: cumulative area_def phase_part_def min_absorb1 min_absorb2)
  qed
  then show ?thesis by (simp add: u_def)
qed

section \<open>The schedule is the inverse of the profile\<close>

lemma profile_area_step:
  assumes "0 \<le> s" "s \<le> t"
  shows "profile_area s \<le> profile_area t" "profile_area t - profile_area s \<le> 1000 * (t - s)"
proof -
  have m: "0 \<le> min s 480" "min s 480 \<le> min t 480" "min t 480 - min s 480 \<le> t - s" using assms by auto
  from area_step [OF m(1,2)] m(3) show "profile_area s \<le> profile_area t" "profile_area t - profile_area s \<le> 1000 * (t - s)"
    by (simp_all add: profile_area_def)
qed

lemma profile_area_close:
  assumes "0 \<le> s" "0 \<le> t" "\<bar>t - s\<bar> \<le> d"
  shows "\<bar>profile_area t - profile_area s\<bar> \<le> 1000 * d"
proof (cases "s \<le> t")
  case True
  from profile_area_step [OF assms(1) this] assms(3) show ?thesis by (simp add: abs_le_iff)
next
  case False
  then have "t \<le> s" by simp
  from profile_area_step [OF assms(2) this] assms(3) show ?thesis by (simp add: abs_le_iff)
qed

text \<open>The slots up to a time, exactly\<close>

definition profile_slots :: "rat \<Rightarrow> rat \<Rightarrow> rat" where
  "profile_slots per t = profile_area t / per"

lemma profile_slots_mono: "1 \<le> per \<Longrightarrow> 0 \<le> s \<Longrightarrow> s \<le> t \<Longrightarrow> profile_slots per s \<le> profile_slots per t"
  by (simp add: profile_slots_def profile_area_step(1) divide_right_mono)

lemma profile_slots_close:
  assumes "1 \<le> per" "0 \<le> s" "0 \<le> t" "\<bar>t - s\<bar> \<le> d"
  shows "\<bar>profile_slots per t - profile_slots per s\<bar> \<le> 1000 * d"
proof -
  have "\<bar>profile_slots per t - profile_slots per s\<bar> = \<bar>profile_area t - profile_area s\<bar> / per"
    using assms(1) by (simp add: profile_slots_def diff_divide_distrib [symmetric] abs_divide)
  also have "\<dots> \<le> \<bar>profile_area t - profile_area s\<bar>" using assms(1) by (simp add: divide_le_eq mult_le_cancel_left1)
  finally show ?thesis using profile_area_close [OF assms(2-4)] by linarith
qed

lemma cumulative_slots:
  assumes "1 \<le> per" "0 < duration" "duration \<le> 480" "0 \<le> t" "t \<le> duration"
  shows "within_eps 25000 (cumulative_tasks per duration t) (profile_slots per t)"
proof (cases "t = 0")
  case True
  then show ?thesis
    by (simp add: cumulative_tasks_def profile_slots_def profile_area_def area_def phase_part_def within_eps_def eps_def)
next
  case False
  have "min t duration = t" "min t 480 = t" using assms by auto
  with cumulative_close [OF assms(1) _ assms(2,3), of t] False assms(4) show ?thesis
    by (simp add: profile_slots_def profile_area_def)
qed

lemma middle_error: "\<bar>m - (lo + hi)\<bar> \<le> e \<Longrightarrow> \<bar>r - m / 2\<bar> \<le> e / 2 \<Longrightarrow> \<bar>r - (lo + hi) / 2\<bar> \<le> (e :: rat)"
  unfolding abs_le_iff by (auto simp: field_simps)

lemma middle_ends:
  assumes "\<bar>r - (lo + hi) / 2\<bar> \<le> e" "\<bar>hi - lo\<bar> \<le> (w :: rat)"
  shows "\<bar>hi - r\<bar> \<le> w / 2 + e" "\<bar>r - lo\<bar> \<le> w / 2 + e" "\<bar>r - hi\<bar> \<le> w / 2 + e"
  using assms unfolding abs_le_iff by (auto simp: field_simps)

text \<open>The middle of two times in the profile is rounded by less than \<open>2 ^ -43\<close>.\<close>

lemma midpoint_close:
  assumes "0 \<le> lo" "lo \<le> of_int d" "0 \<le> hi" "hi \<le> of_int d" "0 < d" "d \<le> 480"
  shows "0 \<le> midpoint lo hi" "midpoint lo hi \<le> of_int d" "\<bar>midpoint lo hi - (lo + hi) / 2\<bar> \<le> 1 / 2 ^ 43"
proof -
  let ?m = "fl (lo + hi)"
  have "(of_int d :: rat) \<le> of_int 480" unfolding of_int_le_iff by (rule assms(6))
  then have d: "(of_int d :: rat) \<le> 480" by simp
  have m: "0 \<le> ?m" using assms by (simp add: fl_nonneg)
  have "?m \<le> fl (of_int (2 * d))" using assms by (intro fl_mono) simp
  also have "\<dots> = of_int (2 * d)" using assms by (intro fl_of_int) simp
  finally have top: "?m / 2 \<le> of_int d" by simp
  show "0 \<le> midpoint lo hi" unfolding midpoint_def using m by (simp add: fl_nonneg)
  have "midpoint lo hi \<le> fl (of_int d)" unfolding midpoint_def by (rule fl_mono [OF top])
  then show "midpoint lo hi \<le> of_int d" using fl_of_int [of d] assms by simp
  have a: "\<bar>?m - (lo + hi)\<bar> \<le> 2 powi (10 - 53)" by (rule fl_abs) (use assms d in simp_all)
  have b: "\<bar>midpoint lo hi - ?m / 2\<bar> \<le> 2 powi (9 - 53)" unfolding midpoint_def by (rule fl_abs) (use m top d in simp_all)
  define \<eta> where "\<eta> = (1 :: rat) / 2 ^ 43"
  have "\<bar>?m - (lo + hi)\<bar> \<le> \<eta>" "\<bar>midpoint lo hi - ?m / 2\<bar> \<le> \<eta> / 2"
    using a b by (simp_all add: \<eta>_def power_int_def power_divide)
  then have "\<bar>midpoint lo hi - (lo + hi) / 2\<bar> \<le> \<eta>" by (rule middle_error)
  then show "\<bar>midpoint lo hi - (lo + hi) / 2\<bar> \<le> 1 / 2 ^ 43" by (simp only: \<eta>_def)
qed

text \<open>The bisection keeps a bracket of the slot and halves it in every step, up to that rounding.\<close>

lemma bisect_bracket:
  assumes "0 \<le> lo" "lo \<le> of_int d" "0 \<le> hi" "hi \<le> of_int d" "0 < d" "d \<le> 480"
    and "\<bar>hi - lo\<bar> \<le> L + 1 / 2 ^ 42" "f lo < n" "n \<le> f hi" "bisect k f n lo hi = (a, b)"
  shows "0 \<le> a \<and> a \<le> of_int d \<and> 0 \<le> b \<and> b \<le> of_int d \<and> \<bar>b - a\<bar> \<le> L / 2 ^ k + 1 / 2 ^ 42 \<and> f a < n \<and> n \<le> f b"
  using assms
proof (induction k arbitrary: lo hi L)
  case (Suc k)
  define m where "m = midpoint lo hi"
  note mid = midpoint_close [OF Suc.prems(1-6), folded m_def]
  have "(L + 1 / 2 ^ 42) / 2 + 1 / 2 ^ 43 = L / 2 + 1 / 2 ^ 42" by (simp add: add_divide_distrib)
  with middle_ends [OF mid(3) Suc.prems(7)]
  have half: "\<bar>hi - m\<bar> \<le> L / 2 + 1 / 2 ^ 42" "\<bar>m - lo\<bar> \<le> L / 2 + 1 / 2 ^ 42" by simp_all
  have "0 \<le> a \<and> a \<le> of_int d \<and> 0 \<le> b \<and> b \<le> of_int d \<and> \<bar>b - a\<bar> \<le> L / 2 / 2 ^ k + 1 / 2 ^ 42 \<and> f a < n \<and> n \<le> f b"
  proof (cases "f m < n")
    case True
    show ?thesis
      by (rule Suc.IH [OF mid(1,2) Suc.prems(3-6) half(1) True Suc.prems(9)])
        (use True Suc.prems(10) in \<open>simp add: m_def [symmetric] Let_def\<close>)
  next
    case False
    then have "n \<le> f m" by simp
    show ?thesis
      by (rule Suc.IH [OF Suc.prems(1,2) mid(1,2) Suc.prems(5,6) half(2) Suc.prems(8) \<open>n \<le> f m\<close>])
        (use False Suc.prems(10) in \<open>simp add: m_def [symmetric] Let_def\<close>)
  qed
  then show ?case by simp
qed simp

text \<open>A slot is scheduled where the profile reaches its number.\<close>

lemma scheduled_exact:
  assumes "1 \<le> per" "0 < d" "d \<le> 480" "0 < n" "n \<le> cumulative_tasks per (of_int d) (of_int d)"
  defines "t \<equiv> scheduled_time_for_ordinal per (of_int d) n"
  shows "0 \<le> t" "t \<le> of_int d" "\<bar>profile_slots per t - n\<bar> \<le> 8 / 10 ^ 7"
proof -
  let ?f = "cumulative_tasks per (of_int d)"
  have "(of_int d :: rat) \<le> of_int 480" "(of_int 0 :: rat) < of_int d" unfolding of_int_le_iff of_int_less_iff by (rule assms)+
  then have d: "(of_int d :: rat) \<le> 480" "(0 :: rat) < of_int d" by simp_all
  obtain lo hi where b: "bisect 60 ?f n 0 (of_int d) = (lo, hi)" by fastforce
  have "?f 0 < n" using assms by (simp add: cumulative_tasks_def)
  with bisect_bracket [OF _ _ _ _ assms(2,3) _ _ _ b, of 480] assms d
  have w: "0 \<le> lo" "lo \<le> of_int d" "0 \<le> hi" "hi \<le> of_int d" "\<bar>hi - lo\<bar> \<le> 480 / 2 ^ 60 + 1 / 2 ^ 42"
    and f: "?f lo < n" "n \<le> ?f hi" by auto
  have t: "t = midpoint lo hi" using assms(4) by (simp add: t_def scheduled_time_for_ordinal_def b)
  note mid = midpoint_close [OF w(1-4) assms(2,3), folded t]
  show "0 \<le> t" "t \<le> of_int d" by (rule mid)+
  define \<delta> where "\<delta> = (1 :: rat) / 2 ^ 41"
  have "(480 / 2 ^ 60 + 1 / 2 ^ 42) / 2 + 1 / 2 ^ 43 \<le> \<delta>" by (simp add: \<delta>_def)
  with middle_ends [OF mid(3) w(5)] have near: "\<bar>t - lo\<bar> \<le> \<delta>" "\<bar>t - hi\<bar> \<le> \<delta>" by (auto intro: order_trans)
  have close: "\<bar>profile_slots per t - profile_slots per lo\<bar> \<le> 1000 * \<delta>" "\<bar>profile_slots per t - profile_slots per hi\<bar> \<le> 1000 * \<delta>"
    using profile_slots_close [OF assms(1) w(1) mid(1) near(1)] profile_slots_close [OF assms(1) w(3) mid(1) near(2)] by simp_all
  have ends: "\<bar>?f lo - profile_slots per lo\<bar> \<le> 25000 * eps" "\<bar>?f hi - profile_slots per hi\<bar> \<le> 25000 * eps"
    using cumulative_slots [OF assms(1) d(2,1)] w unfolding within_eps_def by simp_all
  have "1000 * \<delta> + 25000 * eps \<le> 8 / 10 ^ 7" by (simp add: \<delta>_def eps_def)
  with f close ends show "\<bar>profile_slots per t - n\<bar> \<le> 8 / 10 ^ 7" by linarith
qed

lemma per_task_ge_1: "1 \<le> REQUESTS_PER_TASK s"
proof (cases s)
  case None
  have "fl (of_int 1) \<le> fl (of_nat (\<Sum>(s, w) \<leftarrow> MIXED_WEIGHTS. w * task_requests s) / of_nat (\<Sum>(s, w) \<leftarrow> MIXED_WEIGHTS. w))"
    by (rule fl_mono) (simp add: MIXED_WEIGHTS_def)
  then show ?thesis using fl_of_int [of 1] None by (simp add: REQUESTS_PER_TASK_def)
next
  case (Some sc)
  then show ?thesis by (cases sc) (simp_all add: REQUESTS_PER_TASK_def)
qed

lemma duration_pos: "0 < organizer_duration E"
  by (simp add: organizer_duration_def)

text \<open>The call with number \<open>i\<close> gets the ordinal \<open>i\<close> places further.\<close>

lemma pace_next: "snd (organizer_pace E per now sd) = sd\<lparr>sd_next_ordinal := sd_next_ordinal sd + 1\<rparr>"
  by (simp add: organizer_pace_def Let_def)

lemma paced_nth:
  "i < length nows \<Longrightarrow> paced_starts E per nows sd ! i
     = fst (organizer_pace E per (nows ! i) (sd\<lparr>sd_next_ordinal := sd_next_ordinal sd + int i\<rparr>))"
proof (induction nows arbitrary: sd i)
  case (Cons now nows)
  show ?case
  proof (cases i)
    case 0
    then show ?thesis by (simp split: prod.split)
  next
    case (Suc j)
    with Cons.IH [of j "snd (organizer_pace E per now sd)"] Cons.prems show ?thesis
      by (simp add: case_prod_beta pace_next ac_simps)
  qed
qed simp

lemma abs_bound: "\<bar>x - y\<bar> \<le> e \<Longrightarrow> x \<le> y + e" "\<bar>x - y\<bar> \<le> e \<Longrightarrow> y \<le> x + (e :: rat)"
  by (simp_all add: abs_le_iff algebra_simps)

text \<open>A task that waits starts at its scheduled time, up to the rounding of the delay.\<close>

lemma start_close:
  assumes "0 \<le> now" "0 \<le> t" "t \<le> 480"
  defines "start \<equiv> (if 0 < fl (t - now) then now + fl (t - now) else now)"
  shows "now \<le> start" "t - 1 / 2 ^ 44 \<le> start" "start = now \<or> \<bar>start - t\<bar> \<le> 1 / 2 ^ 44"
proof -
  show "now \<le> start" by (simp add: start_def)
  have *: "t - 1 / 2 ^ 44 \<le> start \<and> (start = now \<or> \<bar>start - t\<bar> \<le> 1 / 2 ^ 44)"
  proof (cases "now < t")
    case True
    have "\<bar>fl (t - now) - (t - now)\<bar> \<le> 2 powi (9 - 53)" by (rule fl_abs) (use True assms in simp_all)
    then have "\<bar>fl (t - now) - (t - now)\<bar> \<le> 1 / 2 ^ 44" by (simp add: power_int_def power_divide)
    then have close: "\<bar>now + fl (t - now) - t\<bar> \<le> 1 / 2 ^ 44" by (simp only: diff_diff_eq2 add.commute)
    then have "t - 1 / 2 ^ 44 \<le> now + fl (t - now)" using abs_bound(2) [OF close] by linarith
    with close have "t - 1 / 2 ^ 44 \<le> now + fl (t - now) \<and> \<bar>now + fl (t - now) - t\<bar> \<le> 1 / 2 ^ 44" by blast
    then show ?thesis by (auto simp: start_def)
  next
    case False
    then have "0 \<le> fl (now - t)" by (intro fl_nonneg) simp
    then have "fl (t - now) \<le> 0" using fl_minus [of "now - t"] by simp
    then show ?thesis using False by (simp add: start_def)
  qed
  then show "t - 1 / 2 ^ 44 \<le> start" "start = now \<or> \<bar>start - t\<bar> \<le> 1 / 2 ^ 44" by simp_all
qed


text \<open>The float target is the exact one up to a rounding error.\<close>

lemma target_rounded:
  assumes "0 \<le> t"
  shows "within_eps 1400 (target_rps_at t) (target_rate t)"
proof -
  consider "t < 180" | "180 \<le> t" "t < 330" | "330 \<le> t" "t < 360" | "360 \<le> t" by linarith
  then show ?thesis
  proof cases
    case 1
    have "within_eps 1 (fl (330 * t)) (330 * t)" using within_fl [OF within_refl [of "330 * t"]] 1 assms by simp
    from within_quotient [OF this, of 180] 1 assms have "within_eps 2 (fl (fl (330 * t) / 180)) (330 * t / 180)" by simp
    from within_weaken [OF this, of 1400] 1 assms show ?thesis by (simp add: target_rps_at_def target_rate_def)
  next
    case 2
    then show ?thesis
      using within_weaken [OF within_refl [of 330], of 1400] within_weaken [OF within_refl [of 1000], of 1400]
      by (simp add: target_rps_at_def target_rate_def)
  next
    case 3
    have "within_eps 1 (fl (t - 330)) (t - 330)" using within_fl [OF within_refl [of "t - 330"]] 3 by simp
    from within_fl [OF within_scale [OF this, of 670]] 3
    have "within_eps 671 (fl (670 * fl (t - 330))) (670 * (t - 330))" by simp
    from within_quotient [OF this, of 30] 3
    have m: "within_eps 672 (fl (fl (670 * fl (t - 330)) / 30)) (670 * (t - 330) / 30)" by simp
    have "0 \<le> 670 * (t - 330) / 30" "670 * (t - 330) / 30 \<le> 670" using 3 by simp_all
    then have "\<bar>1000 - 670 * (t - 330) / 30\<bar> \<le> 200000" by linarith
    from within_fl [OF within_const_minus [OF m] this]
    have "within_eps 673 (fl (1000 - fl (fl (670 * fl (t - 330)) / 30))) (1000 - 670 * (t - 330) / 30)" by simp
    from within_weaken [OF this, of 1400] 3 show ?thesis by (simp add: target_rps_at_def target_rate_def)
  next
    case 4
    then show ?thesis
      using within_weaken [OF within_refl [of 330], of 1400] within_weaken [OF within_refl [of 0], of 1400]
      by (simp add: target_rps_at_def target_rate_def)
  qed
qed

text \<open>The whole profile has the average that is reported for it.\<close>

lemma organizer_total: "profile_slots per 480 = ORGANIZER_TARGET_AVERAGE * 480 / per"
  by (simp add: profile_slots_def profile_area_def area_def phase_part_def ORGANIZER_TARGET_AVERAGE_def)

text \<open>
  A longer duration is possible, and then the slots go on at 330 requests per second where the target is
  already zero.
\<close>

theorem slots_beyond_profile:
  "cumulative_tasks 1 600 600 - cumulative_tasks 1 600 480 = 330 * 120" "t \<ge> 480 \<Longrightarrow> target_rps_at t = 0"
  by code_simp (simp add: target_rps_at_def)

theorem user_count_bounds:
  "1 \<le> organizer_user_count E target \<and> organizer_user_count E target \<le> 200
   \<and> (fl (target / organizer_rps_per_user E) \<le> of_int (organizer_user_count E target)
        \<or> organizer_user_count E target = organizer_max_users E)
   \<and> (required_concurrent_users E \<le> organizer_user_count E target
        \<or> organizer_user_count E target = organizer_max_users E)"
proof -
  have "organizer_user_count E target = organizer_max_users E
      \<or> \<lceil>fl (target / organizer_rps_per_user E)\<rceil> \<le> organizer_user_count E target
        \<and> required_concurrent_users E \<le> organizer_user_count E target"
    unfolding organizer_user_count_def by (simp only: min_def max_def split: if_split) linarith
  moreover have "1 \<le> organizer_user_count E target" "organizer_user_count E target \<le> 200"
    unfolding organizer_user_count_def organizer_max_users_def ORGANIZER_HARD_MAX_USERS_def by linarith+
  ultimately show ?thesis unfolding ceiling_le_iff by blast
qed

section \<open>An example\<close>

definition organizer_env :: profile_env where
  "organizer_env = \<lparr>pe_duration = 480, pe_max_users = 200, pe_rps_per_user = 10, pe_required_users = 0\<rparr>"

lemma organizer_env_duration: "organizer_duration organizer_env = 480"
  by (simp add: organizer_duration_def organizer_env_def)


end
