(* ===== verification/Spec2Isabelle.thy ===== *)
theory Spec2Isabelle
  imports RateLimit MemoryConcurrency RedisStore Pipeline ProxyExample Score Package Benchmark
    PerfExample PerfReport PerfOutput Wiring RedisProxy Prompts Smoke PackageRun Reports LoadProfile
begin

text \<open>
  Verification of the PII security proxy: an HTTP service that masks the personal data in a text, keeps
  what it needs to undo that, and gives the original back when the masked text is presented again.  All
  source paths are relative to \<open>src/\<close>.

  \<^bold>\<open>The program and how its parts interact.\<close>  A request enters \<open>app/main.py\<close>: the rate limiter may
  refuse it, the observing middleware counts and logs it, and the route hands payload and payload id to
  \<open>ProcessService\<close>.  The service asks the policies for the consumer, derives a storage key, and runs one
  atomic transition of the restoration store on it: a new payload is searched by the detection engine
  (the regex detector, optionally the LLM detector, then span resolution), masked by the masking engine
  with a strategy per type, and stored; a known original gets its mask again; a known mask is demasked or
  refused.  The store is in memory with time-ordered eviction and lock stripes, or in Redis with
  optimistic compare-and-set.  \<open>SecureLLMPipeline\<close> composes detection, masking, a language model and
  restoration without the store.  The scripts measure the detector, load the service and pack a
  submission.

  \<^bold>\<open>Which theory models which part.\<close>
  \<^item> \<open>Prelude\<close>: exceptions as \<open>exn + 'a\<close> with sequencing and raising loops, Python's slices, list
    lemmas.  \<open>PyStr\<close>: strings as lists of code points, the character classes as a parameter \<open>ucd\<close> (with
    an instance for Russian and ASCII text), string methods, UTF-8.  \<open>Json\<close>: \<open>dumps\<close> and \<open>loads\<close> with the
    round trip.  \<open>Regex\<close>: the backtracking matcher and its specification.  \<open>PyFloat\<close>: floats with
    infinities and NaN, and their reading from text.  \<open>PyFormat\<close>: the format specifications of printed
    numbers and padded columns.
  \<^item> \<open>Domain\<close>: \<open>app/core\<close> (enums, exceptions, models).  \<open>RateLimit\<close>: \<open>app/core/ratelimit.py\<close>.
    \<open>Security\<close>: \<open>app/core/security.py\<close> and the storage key of \<open>process_service.py\<close>.
  \<^item> \<open>Validators\<close>, \<open>Detector\<close>, \<open>Resolution\<close>, \<open>Detection\<close>: \<open>app/detection\<close>; the contract of a detector is
    the locale \<open>pii_detector\<close> (with \<open>exact_detector\<close> for one that returns valid spans), interpreted on
    the regex and the LLM detector.
  \<^item> \<open>Strategies\<close> and \<open>MaskingEngine\<close>: \<open>app/masking\<close>; the locales \<open>shape_masker\<close> and \<open>hiding_masker\<close> state
    what a mask may reveal.
  \<^item> \<open>Restoration\<close>: \<open>app/restoration/models.py\<close>, the sealing of a record and the choice of the key.
    \<open>RestorationStore\<close>: \<open>base.py\<close> as the locale \<open>restoration_store\<close>, which \<open>MemoryStore\<close>
    (\<open>memory.py\<close>) and \<open>RedisStore\<close> (\<open>redis_store.py\<close>) interpret.  \<open>MemoryConcurrency\<close>: the in-memory
    store under interleaved threads, as a step relation.
  \<^item> \<open>Policy\<close>: \<open>app/policies\<close> with the locale \<open>policy_provider\<close>.  \<open>Metrics\<close> and \<open>Logging\<close>:
    \<open>app/observability\<close>.
  \<^item> \<open>Process\<close>: \<open>app/processing/process_service.py\<close> over any restoration store.  \<open>Proxy\<close> and
    \<open>RedisProxy\<close>: the service with the default engines over the in-memory and the Redis store; what holds
    over any store is proved once in the locale \<open>restoration_store\<close>.  \<open>Pipeline\<close>: \<open>secure_llm_pipeline.py\<close> and \<open>app/llm\<close>.
  \<^item> \<open>Api\<close>: \<open>app/main.py\<close>, the routes, exception handlers and mounted middlewares.  \<open>Service\<close>: the
    whole application over the in-memory store.  \<open>Wiring\<close>: \<open>app/api/dependencies.py\<close>,
    \<open>app/config/settings.py\<close>, the logger set-up and the middleware that is not mounted.
    \<open>Prompts\<close>: the prompt and the example messages of the LLM detector.
  \<^item> \<open>Smoke\<close>: \<open>scripts/smoke_test.py\<close> as a client of the application of \<open>Service\<close>.
  \<^item> \<open>Score\<close>: \<open>benchmarks/score.py\<close>.  \<open>Benchmark\<close>: \<open>scripts/benchmark.py\<close>.  \<open>Reports\<close>: what these two
    print.  \<open>Package\<close>: the paths and archive checks of \<open>scripts/package_submission.py\<close>; \<open>PackageRun\<close>: the
    archive it writes, its processes and its exit codes.
  \<^item> \<open>PerfGate\<close>, \<open>PerfSampling\<close>, \<open>PerfRun\<close>, \<open>PerfReport\<close>, \<open>PerfOutput\<close>: \<open>scripts/run_performance.py\<close>
    (verdict, samplers, main, report fields, and the Markdown and JSON reports with the Locust commands).
  \<^item> \<open>LoadUser\<close> and \<open>LoadProfile\<close>: \<open>tests/performance/locustfile.py\<close>, the load generator that the runner
    starts (requests, scenarios, counters and files; target rate, slots and scheduler).  What a user may
    add to the counters is the locale \<open>additive\<close>, interpreted on the two balances the runner checks.
  \<^item> \<open>DetectionExample\<close>, \<open>ProxyExample\<close>, \<open>PerfExample\<close>: concrete runs at which the properties with
    hypotheses are applied.

  \<^bold>\<open>How state and operations correspond.\<close>  A class is a record of its attributes, an operation a function
  that takes the record and returns result and new record; an exception is the \<open>Inl\<close> of the result, and the
  record returned with it is the one the code leaves behind.  Dictionaries are association lists in insertion
  order.  Readings of clocks, random draws and nonces are functions from the number of the reading, so one
  call's readings are arguments of it.  A thread of the in-memory store is idle, holds the stripe of its
  key, or has fetched what its callback is given, and the steps of different threads interleave freely; the threads of the load benchmark interleave their locked updates.
  A Redis client runs against a server whose state other clients may change before, between and after its
  commands.  Names follow the source, with its keyword arguments as record fields.

  \<^bold>\<open>What the lemmas show.\<close>
  \<^item> Detection: a resolved list is ordered, free of overlaps and dominates every candidate through a chain
    of overlaps; the detector is sound for its filters, never raises, and covers the matches of the patterns.
  \<^item> Masking: the masked text is the text with exactly the selected spans replaced, the mappings undo it,
    the full mask reveals only the shape and the numeric mask only its edges, and no context rule raises.
  \<^item> Stores: key uniqueness, expiry order and capacity are invariants, a live record of another key is
    never touched, transitions are atomic under interleaving, no deadlock, and an undisturbed attempt
    commits; records survive serialisation.
  \<^item> Service: masks and demasks are a round trip over a run with any other requests between, an original
    is answered to its own consumer only, every valid request is answered within the documented answers,
    metrics balance on the fixed set of label values, and logs hold allowed fields only.
  \<^item> Pipeline: placeholders are restored exactly; a concrete run shows how shape-preserving masks collide.
  \<^item> Scripts: the quality gate, the archive, the counters of the load test and the verdict and exit code of
    the performance runner mean what they say; the smoke test passes on the modelled service, the archive
    depends on the set of files only, and the rows of the Markdown reports have the cells of their header.
    The counters of the load generator reconcile with the runner's checks, and its tasks never start before
    the slot that the target profile gives them.

  \<^bold>\<open>Bounds and fuel.\<close>  \<open>jvalue\<close> gets twice the length of the text plus one as fuel; every nested call
  consumes a character or a level, and the round trip shows it suffices for printed texts.  The regex matcher
  recurses on the pattern and on a counter no larger than the text.  The Redis loop has the code's five
  attempts (\<open>MAX_CAS_RETRIES\<close>).  The loop of a load-test thread is a \<open>partial_function\<close>: that it returns
  is a property, proved exactly for clocks that reach the deadline.  The search for the time of a slot
  halves its interval 60 times, as the code does.  Everything else recurses on data.

  \<^bold>\<open>Parameters.\<close>  Code outside the repository is an argument: Fernet (decryption undoes encryption), SHA-256,
  BLAKE2b and HMAC (any functions; collisions are named where they matter), the YAML parser, the Prometheus
  collectors (what a counter and a gauge do), the LLM client, the HTTP framework's routing and validation,
  the Redis server, \<open>psutil\<close>, \<open>docker\<close> and Locust.  Hypotheses about them are named where they are used
  (\<open>fernet_ok\<close>, \<open>redis_ok\<close>, \<open>log_calls\<close>) and the witnesses instantiate them.

  \<^bold>\<open>Not modelled.\<close>  The file system and the processes themselves (what they return is an argument), the
  rounding of floats to doubles (rationals are used, rounded only where a number is printed), the text form
  of log records, the registration and rendering of metrics with \<open>prometheus_client\<close>, Locust
  itself, and the unit and integration tests: they are input and output, or belong to a library the sources only call.
\<close>

end
